(* ===== verification/Prelude.thy ===== *)
theory Prelude
  imports Main "HOL-Library.Word" "HOL-Library.Monad_Syntax"
begin

unbundle bit_operations_syntax

text \<open>
  Shared vocabulary of the development: the machine types of the C code, C strings and
  byte buffers, little-endian integers in memory, and the generic list facts that several
  components use.

  A pointer to bytes is modelled as the list of the bytes from the pointed-to address to
  the end of the object. A result of type \<open>'a option\<close> is \<open>None\<close> exactly when the code
  would access memory outside an object it was given (undefined behaviour in C).
\<close>

section \<open>Machine types\<close>

type_synonym u8 = "8 word"
type_synonym u16 = "16 word"
type_synonym u32 = "32 word"
type_synonym bytes = "8 word list"

text \<open>
  \<open>buffer_simps\<close> collects the rewrite rules for bounded buffers, \<open>layout_simps\<close> the sizes and
  offsets of the C structs, \<open>inv_intros\<close> the preservation rules of the state invariants.
\<close>

named_theorems buffer_simps
named_theorems layout_simps
named_theorems inv_intros

section \<open>C strings\<close>

text \<open>A literal of the source, without its terminating NUL.\<close>

definition lit :: "string \<Rightarrow> bytes" where
  "lit s = map of_char s"

text \<open>The contents of a NUL-terminated buffer, and the NUL-terminated image of a string.\<close>

definition cstr :: "bytes \<Rightarrow> bytes" where
  "cstr b = takeWhile (\<lambda>c. c \<noteq> 0) b"

definition zstr :: "bytes \<Rightarrow> bytes" where
  "zstr s = s @ [0]"

definition c_string :: "bytes \<Rightarrow> bool" where
  "c_string s \<longleftrightarrow> 0 \<notin> set s"

lemma lit_simps [simp]: "lit [] = []" "lit (c # s) = of_char c # lit s"
  by (simp_all add: lit_def)

lemma cstr_simps [simp]:
  "cstr [] = []" "cstr (c # b) = (if c = 0 then [] else c # cstr b)"
  by (simp_all add: cstr_def)

lemma c_string_simps [simp]:
  "c_string []" "c_string (c # s) \<longleftrightarrow> c \<noteq> 0 \<and> c_string s"
  "c_string (s @ t) \<longleftrightarrow> c_string s \<and> c_string t"
  by (auto simp: c_string_def)

lemma c_string_cstr [simp]: "c_string (cstr b)"
  by (induction b) auto

lemma cstr_append_zero [simp]: "c_string s \<Longrightarrow> cstr (s @ 0 # r) = s"
  by (induction s) auto

lemma cstr_id [simp]: "c_string s \<Longrightarrow> cstr s = s"
  by (induction s) auto

lemma cstr_zstr [simp]: "c_string s \<Longrightarrow> cstr (zstr s) = s"
  by (simp add: zstr_def)

lemma length_cstr_le: "length (cstr b) \<le> length b"
  by (induction b) auto

lemma length_cstr_less: "0 \<in> set b \<Longrightarrow> length (cstr b) < length b"
  by (induction b) auto

lemma zero_at_length_cstr: "0 \<in> set b \<Longrightarrow> b ! length (cstr b) = 0"
  by (induction b) auto

lemma cstr_split: "0 \<in> set b \<Longrightarrow> \<exists>r. b = cstr b @ 0 # r"
proof (induction b)
  case Nil
  then show ?case by simp
next
  case (Cons c b)
  then show ?case by (cases "c = 0") auto
qed

section \<open>Integers in memory\<close>

text \<open>The target is little-endian (i386): the low byte of an integer comes first.\<close>

definition le16 :: "u16 \<Rightarrow> bytes" where
  "le16 w = [ucast w, ucast (drop_bit 8 w)]"

definition le32 :: "u32 \<Rightarrow> bytes" where
  "le32 w = [ucast w, ucast (drop_bit 8 w), ucast (drop_bit 16 w), ucast (drop_bit 24 w)]"

definition get16 :: "bytes \<Rightarrow> nat \<Rightarrow> u16" where
  "get16 b i = ucast (b ! i) OR push_bit 8 (ucast (b ! (i + 1)))"

definition get32 :: "bytes \<Rightarrow> nat \<Rightarrow> u32" where
  "get32 b i = ucast (b ! i) OR push_bit 8 (ucast (b ! (i + 1)))
     OR push_bit 16 (ucast (b ! (i + 2))) OR push_bit 24 (ucast (b ! (i + 3)))"

lemma length_le16 [simp]: "length (le16 w) = 2"
  by (simp add: le16_def)

lemma length_le32 [simp]: "length (le32 w) = 4"
  by (simp add: le32_def)

lemma get16_le16: "get16 (le16 w @ r) 0 = w"
  by (rule bit_word_eqI)
    (auto simp: get16_def le16_def bit_or_iff bit_push_bit_iff bit_ucast_iff bit_drop_bit_eq)

lemma get32_le32: "get32 (le32 w @ r) 0 = w"
proof (rule bit_word_eqI)
  fix n
  assume "n < LENGTH(32)"
  then show "bit (get32 (le32 w @ r) 0) n = bit w n"
    by (cases "n < 24"; cases "n < 16")
      (auto simp: get32_def le32_def bit_or_iff bit_push_bit_iff bit_ucast_iff bit_drop_bit_eq)
qed

lemma get32_shift: "get32 (p @ b) (length p + i) = get32 b i"
  by (simp add: get32_def nth_append)

lemma get16_shift: "get16 (p @ b) (length p + i) = get16 b i"
  by (simp add: get16_def nth_append)

lemma get32_cong:
  assumes "\<And>k. k < 4 \<Longrightarrow> a ! (i + k) = b ! (i + k)"
  shows "get32 a i = get32 b i"
  using assms[of 0] assms[of 1] assms[of 2] assms[of 3] by (simp add: get32_def)

section \<open>Arrays of fixed-size elements in memory\<close>

text \<open>\<open>chunks n k b\<close> cuts the first \<open>n * k\<close> bytes of \<open>b\<close> into \<open>k\<close> pieces of \<open>n\<close> bytes.\<close>

fun chunks :: "nat \<Rightarrow> nat \<Rightarrow> 'a list \<Rightarrow> 'a list list" where
  "chunks n 0 b = []"
| "chunks n (Suc k) b = take n b # chunks n k (drop n b)"

lemma length_chunks [simp]: "length (chunks n k b) = k"
  by (induction n k b rule: chunks.induct) auto

lemma chunks_nth: "i < k \<Longrightarrow> chunks n k b ! i = take n (drop (n * i) b)"
  by (induction n k b arbitrary: i rule: chunks.induct)
    (auto simp: nth_Cons drop_drop add.commute split: nat.split)

lemma chunks_concat:
  "\<forall>x \<in> set xs. length (f x) = n \<Longrightarrow> chunks n (length xs) (concat (map f xs) @ r) = map f xs"
  by (induction xs) auto

lemma concat_chunks: "n * k \<le> length b \<Longrightarrow> concat (chunks n k b) = take (n * k) b"
proof (induction n k b rule: chunks.induct)
  case (2 n k b)
  then have "concat (chunks n k (drop n b)) = take (n * k) (drop n b)" by simp
  then show ?case by (simp add: take_add add.commute)
qed simp

lemma length_concat_const:
  "\<forall>x \<in> set xs. length (f x) = n \<Longrightarrow> length (concat (map f xs)) = n * length xs"
  by (induction xs) auto

lemma chunk_length: "n * k \<le> length b \<Longrightarrow> c \<in> set (chunks n k b) \<Longrightarrow> length c = n"
  by (induction n k b rule: chunks.induct) auto

section \<open>Lists\<close>

lemma take_drop_append: "a + n \<le> length p \<Longrightarrow> take n (drop a (p @ r)) = take n (drop a p)"
  by simp

lemma take_drop_take: "a + n \<le> m \<Longrightarrow> take n (drop a (take m x)) = take n (drop a x)"
  by (simp add: drop_take min_def)

lemma find_index_Some:
  "find P [0..<n] = Some i \<longleftrightarrow> i < n \<and> P i \<and> (\<forall>j < i. \<not> P j)"
  by (auto simp: find_Some_iff)

lemma find_index_None: "find P [0..<n] = None \<longleftrightarrow> (\<forall>i < n. \<not> P i)"
  by (auto simp: find_None_iff)

lemma map_list_update_eq: "i < length xs \<Longrightarrow> f x = f (xs ! i) \<Longrightarrow> map f (xs[i := x]) = map f xs"
  by (metis list_update_id map_update)

end
