(* ===== verification/CString.thy ===== *)
theory CString
  imports Prelude
begin

text \<open>
  The C library of the kernel, \<open>kernel/string.c\<close>. A read-only pointer argument is the list of
  bytes from the pointer to the end of its object, a destination pointer the list of bytes that
  the function may write. \<open>memcpy\<close> and \<open>memmove\<close>, whose arguments may overlap, work on one
  arena with two offsets. \<open>None\<close> is an access outside the object.
\<close>

section \<open>Memory blocks\<close>

definition rd :: "bytes \<Rightarrow> nat \<Rightarrow> u8 option" where
  "rd m a = (if a < length m then Some (m ! a) else None)"

definition wr :: "bytes \<Rightarrow> nat \<Rightarrow> u8 \<Rightarrow> bytes option" where
  "wr m a b = (if a < length m then Some (m[a := b]) else None)"

fun memcpy :: "bytes \<Rightarrow> nat \<Rightarrow> nat \<Rightarrow> nat \<Rightarrow> bytes option" where
  "memcpy m d s 0 = Some m"
| "memcpy m d s (Suc n) =
     do { b \<leftarrow> rd m s; m' \<leftarrow> wr m d b; memcpy m' (Suc d) (Suc s) n }"

text \<open>The backward loop of \<open>memmove\<close>: both pointers start one past the end of their block.\<close>

fun move_back :: "bytes \<Rightarrow> nat \<Rightarrow> nat \<Rightarrow> nat \<Rightarrow> bytes option" where
  "move_back m d s 0 = Some m"
| "move_back m d s (Suc n) =
     do { b \<leftarrow> rd m (s - 1); m' \<leftarrow> wr m (d - 1) b; move_back m' (d - 1) (s - 1) n }"

definition memmove :: "bytes \<Rightarrow> nat \<Rightarrow> nat \<Rightarrow> nat \<Rightarrow> bytes option" where
  "memmove m d s n = (if d < s then memcpy m d s n else move_back m (d + n) (s + n) n)"

fun memset :: "bytes \<Rightarrow> u32 \<Rightarrow> nat \<Rightarrow> bytes option" where
  "memset m c 0 = Some m"
| "memset [] c (Suc n) = None"
| "memset (x # m) c (Suc n) = map_option ((#) (ucast c)) (memset m c n)"

fun memcmp :: "bytes \<Rightarrow> bytes \<Rightarrow> nat \<Rightarrow> int option" where
  "memcmp p q 0 = Some 0"
| "memcmp (x # p) (y # q) (Suc n) =
     (if x \<noteq> y then Some (uint x - uint y) else memcmp p q n)"
| "memcmp _ _ (Suc n) = None"

section \<open>Strings\<close>

fun strcmp :: "bytes \<Rightarrow> bytes \<Rightarrow> int option" where
  "strcmp (x # p) (y # q) =
     (if x \<noteq> 0 \<and> x = y then strcmp p q else Some (uint x - uint y))"
| "strcmp _ _ = None"

text \<open>The loop of \<open>strncmp\<close> stops when \<open>n\<close> is 0, before it reads either string.\<close>

fun strncmp :: "bytes \<Rightarrow> bytes \<Rightarrow> nat \<Rightarrow> int option" where
  "strncmp p q 0 = Some 0"
| "strncmp (x # p) (y # q) (Suc n) =
     (if x \<noteq> 0 \<and> x = y then strncmp p q n else Some (uint x - uint y))"
| "strncmp _ _ (Suc n) = None"

fun strcpy :: "bytes \<Rightarrow> bytes \<Rightarrow> bytes option" where
  "strcpy (d # ds) (c # s) =
     (if c = 0 then Some (0 # ds) else map_option ((#) c) (strcpy ds s))"
| "strcpy _ _ = None"

text \<open>
  The first loop of \<open>strncpy\<close>, \<open>while (n && (*dest++ = *src++)) n--;\<close>, then the second,
  \<open>while (n--) *dest++ = 0;\<close>. When the copied byte is the NUL the pointer has moved past
  it but \<open>n\<close> has not been decremented.
\<close>

fun zero_fill :: "bytes \<Rightarrow> nat \<Rightarrow> bytes option" where
  "zero_fill ds 0 = Some ds"
| "zero_fill [] (Suc n) = None"
| "zero_fill (d # ds) (Suc n) = map_option ((#) 0) (zero_fill ds n)"

fun strncpy :: "bytes \<Rightarrow> bytes \<Rightarrow> nat \<Rightarrow> bytes option" where
  "strncpy ds s 0 = Some ds"
| "strncpy (d # ds) (c # s) (Suc n) =
     (if c = 0 then map_option ((#) 0) (zero_fill ds (Suc n))
      else map_option ((#) c) (strncpy ds s n))"
| "strncpy _ _ (Suc n) = None"

fun strcat :: "bytes \<Rightarrow> bytes \<Rightarrow> bytes option" where
  "strcat [] s = None"
| "strcat (d # ds) s = (if d = 0 then strcpy (d # ds) s else map_option ((#) d) (strcat ds s))"

fun strlen :: "bytes \<Rightarrow> nat option" where
  "strlen [] = None"
| "strlen (c # s) = (if c = 0 then Some 0 else map_option Suc (strlen s))"

text \<open>
  \<open>atoi\<close> works on \<open>int\<close>; an intermediate result outside the 32-bit range is undefined
  behaviour in C and \<open>None\<close> here.
\<close>

definition int32 :: "int \<Rightarrow> int option" where
  "int32 i = (if - (2 ^ 31) \<le> i \<and> i < 2 ^ 31 then Some i else None)"

fun atoi_digits :: "bytes \<Rightarrow> int \<Rightarrow> int option" where
  "atoi_digits [] r = None"
| "atoi_digits (c # s) r =
     (if 48 \<le> c \<and> c \<le> 57
      then do { r10 \<leftarrow> int32 (r * 10); r' \<leftarrow> int32 (r10 + (uint c - 48)); atoi_digits s r' }
      else Some r)"

fun skip_spaces :: "bytes \<Rightarrow> bytes" where
  "skip_spaces [] = []"
| "skip_spaces (c # s) = (if c = 32 then skip_spaces s else c # s)"

definition atoi :: "bytes \<Rightarrow> int option" where
  "atoi str = (case skip_spaces str of
     [] \<Rightarrow> None
   | c # s \<Rightarrow>
       if c = 45 then do { r \<leftarrow> atoi_digits s 0; int32 (- r) }
       else if c = 43 then atoi_digits s 0
       else atoi_digits (c # s) 0)"

section \<open>Lemmas: copies\<close>

lemma rd_Some [simp]: "rd m a = Some b \<longleftrightarrow> a < length m \<and> b = m ! a"
  by (auto simp: rd_def)

lemma wr_Some [simp]: "wr m a b = Some m' \<longleftrightarrow> a < length m \<and> m' = m[a := b]"
  by (auto simp: wr_def)

lemma memcpy_length: "memcpy m d s n = Some m' \<Longrightarrow> length m' = length m"
  by (induction m d s n arbitrary: m' rule: memcpy.induct) (auto simp: Option.bind_eq_Some_conv)

lemma memcpy_defined:
  "d + n \<le> length m \<Longrightarrow> s + n \<le> length m \<Longrightarrow> \<exists>m'. memcpy m d s n = Some m'"
  by (induction m d s n rule: memcpy.induct) (auto simp: rd_def wr_def)

lemma memcpy_nth:
  assumes "memcpy m d s n = Some m'" "d \<le> s \<or> s + n \<le> d" "i < length m"
  shows "m' ! i = (if d \<le> i \<and> i < d + n then m ! (s + (i - d)) else m ! i)"
  using assms
proof (induction m d s n arbitrary: m' rule: memcpy.induct)
  case (1 m d s)
  then show ?case by auto
next
  case (2 m d s n)
  let ?m = "m[d := m ! s]"
  from "2.prems" have step: "memcpy ?m (Suc d) (Suc s) n = Some m'" and s: "s < length m"
    and d: "d < length m" by (auto simp: Option.bind_eq_Some_conv)
  have "m' ! i = (if Suc d \<le> i \<and> i < Suc d + n then ?m ! (Suc s + (i - Suc d)) else ?m ! i)"
    using "2.IH"[of "m ! s" ?m m'] step s d "2.prems" by auto
  moreover have "Suc d \<le> i \<Longrightarrow> i < Suc d + n \<Longrightarrow>
      ?m ! (Suc s + (i - Suc d)) = m ! (s + (i - d))"
  proof -
    assume i: "Suc d \<le> i" "i < Suc d + n"
    then have "Suc s + (i - Suc d) = s + (i - d)" by simp
    moreover from i "2.prems"(2) have "s + (i - d) \<noteq> d" by auto
    ultimately show ?thesis by (metis nth_list_update_neq)
  qed
  ultimately show ?case using d by (auto simp: nth_list_update)
qed

lemma move_back_length: "move_back m d s n = Some m' \<Longrightarrow> length m' = length m"
  by (induction m d s n arbitrary: m' rule: move_back.induct) (auto simp: Option.bind_eq_Some_conv)

lemma move_back_defined:
  "d \<le> length m \<Longrightarrow> s \<le> length m \<Longrightarrow> n \<le> d \<Longrightarrow> n \<le> s \<Longrightarrow>
   \<exists>m'. move_back m d s n = Some m'"
  by (induction m d s n rule: move_back.induct) (auto simp: rd_def wr_def)

lemma move_back_nth:
  assumes "move_back m d s n = Some m'" "s \<le> d" "n \<le> s" "i < length m"
  shows "m' ! i = (if d - n \<le> i \<and> i < d then m ! (i - (d - s)) else m ! i)"
  using assms
proof (induction m d s n arbitrary: m' rule: move_back.induct)
  case (1 m d s)
  then show ?case by auto
next
  case (2 m d s n)
  let ?m = "m[d - 1 := m ! (s - 1)]"
  from "2.prems" have step: "move_back ?m (d - 1) (s - 1) n = Some m'"
    and s: "s - 1 < length m" and d: "d - 1 < length m"
    by (auto simp: Option.bind_eq_Some_conv)
  have "m' ! i = (if d - 1 - n \<le> i \<and> i < d - 1 then ?m ! (i - (d - 1 - (s - 1))) else ?m ! i)"
    using "2.IH"[of "m ! (s - 1)" ?m m'] step s d "2.prems" by auto
  moreover have "d - 1 - n \<le> i \<Longrightarrow> i < d - 1 \<Longrightarrow>
      ?m ! (i - (d - 1 - (s - 1))) = m ! (i - (d - s))"
    using "2.prems" d by (auto simp: nth_list_update)
  moreover have "d - 1 - (d - s) = s - 1" using "2.prems" by simp
  ultimately show ?case using d "2.prems" by (auto simp: nth_list_update)
qed

lemma memmove_nth:
  assumes "memmove m d s n = Some m'" "i < length m"
  shows "m' ! i = (if d \<le> i \<and> i < d + n then m ! (s + (i - d)) else m ! i)"
proof (cases "d < s")
  case True
  with assms show ?thesis by (simp add: memmove_def memcpy_nth)
next
  case False
  with assms have "m' ! i = (if d \<le> i \<and> i < d + n then m ! (i - (d - s)) else m ! i)"
    by (simp add: memmove_def move_back_nth)
  moreover have "d \<le> i \<Longrightarrow> i - (d - s) = s + (i - d)" using False by simp
  ultimately show ?thesis by auto
qed

lemma memset_eq: "n \<le> length m \<Longrightarrow> memset m c n = Some (replicate n (ucast c) @ drop n m)"
  by (induction m c n rule: memset.induct) auto

lemma memcmp_defined:
  "n \<le> length p \<Longrightarrow> n \<le> length q \<Longrightarrow> \<exists>r. memcmp p q n = Some r"
  by (induction p q n rule: memcmp.induct) auto

lemma memcmp_zero:
  "n \<le> length p \<Longrightarrow> n \<le> length q \<Longrightarrow> memcmp p q n = Some 0 \<longleftrightarrow> take n p = take n q"
  by (induction p q n rule: memcmp.induct) (auto simp: word_uint_eq_iff)

section \<open>Lemmas: strings\<close>

lemma strlen_eq: "0 \<in> set s \<Longrightarrow> strlen s = Some (length (cstr s))"
  by (induction s) auto

lemma strcmp_defined: "0 \<in> set s \<Longrightarrow> 0 \<in> set t \<Longrightarrow> \<exists>r. strcmp s t = Some r"
  by (induction s t rule: strcmp.induct) auto

lemma strcmp_zero:
  "0 \<in> set s \<Longrightarrow> 0 \<in> set t \<Longrightarrow> strcmp s t = Some 0 \<longleftrightarrow> cstr s = cstr t"
  by (induction s t rule: strcmp.induct) (auto simp: word_uint_eq_iff)

lemma strcpy_eq:
  assumes "0 \<in> set s" "length (cstr s) < length d"
  shows "strcpy d s = Some (cstr s @ 0 # drop (Suc (length (cstr s))) d)"
  using assms by (induction d s rule: strcpy.induct) auto

lemma strcpy_overflow: "0 \<in> set s \<Longrightarrow> length d \<le> length (cstr s) \<Longrightarrow> strcpy d s = None"
  by (induction d s rule: strcpy.induct) auto

lemma cstr_strcpy: "strcpy d s = Some d' \<Longrightarrow> cstr d' = cstr s \<and> length d' = length d"
  by (induction d s arbitrary: d' rule: strcpy.induct) (auto split: if_splits)

lemma strcat_eq:
  assumes "0 \<in> set d" "0 \<in> set s"
  shows "strcat d s = map_option ((@) (cstr d)) (strcpy (drop (length (cstr d)) d) s)"
  using assms by (induction d) (auto simp: map_option_case split: option.split)

lemma cstr_append [simp]: "c_string s \<Longrightarrow> cstr (s @ t) = s @ cstr t"
  by (induction s) auto

lemma zero_fill_eq:
  "zero_fill ds n = (if n \<le> length ds then Some (replicate n 0 @ drop n ds) else None)"
  by (induction ds n rule: zero_fill.induct) auto

lemma strncpy_long:
  assumes "c_string (take n s)" "n \<le> length s" "n \<le> length d"
  shows "strncpy d s n = Some (take n s @ drop n d)"
  using assms by (induction d s n rule: strncpy.induct) auto

lemma strncpy_short:
  assumes "0 \<in> set s" "length (cstr s) < n"
  shows "strncpy d s n = (if n < length d
    then Some (cstr s @ 0 # replicate (n - length (cstr s)) 0 @ drop (Suc n) d) else None)"
  using assms
proof (induction d s n rule: strncpy.induct)
  case (2 d ds c s n)
  then show ?case by (auto simp: zero_fill_eq)
qed auto

end
