(* ===== verification/FsLayout.thy ===== *)
theory FsLayout
  imports CString
begin

text \<open>
  The data of \<open>fs/filesystem.h\<close>: the constants, the structs as records, and the byte images
  that sector transfers of these structs read and write. Structs are laid out for i386:
  integers little-endian and 4-byte aligned, padding bytes written as 0.
\<close>

section \<open>Constants\<close>

definition FS_MAGIC :: u32 where "FS_MAGIC = 0x45504853"
definition FS_VERSION :: u32 where "FS_VERSION = 2"

abbreviation (input) FS_SUPERBLOCK_SECTOR :: nat where "FS_SUPERBLOCK_SECTOR \<equiv> 100"
abbreviation (input) FS_INODE_TABLE_SECTOR :: nat where "FS_INODE_TABLE_SECTOR \<equiv> 101"
abbreviation (input) FS_BLOCK_BITMAP_SECTOR :: nat where "FS_BLOCK_BITMAP_SECTOR \<equiv> 151"
abbreviation (input) FS_DATA_START_SECTOR :: nat where "FS_DATA_START_SECTOR \<equiv> 201"

abbreviation (input) FS_MAX_INODES :: nat where "FS_MAX_INODES \<equiv> 200"
abbreviation (input) FS_MAX_BLOCKS :: nat where "FS_MAX_BLOCKS \<equiv> 512"
abbreviation (input) FS_BLOCK_SIZE :: nat where "FS_BLOCK_SIZE \<equiv> 512"
abbreviation (input) FS_MAX_FILENAME :: nat where "FS_MAX_FILENAME \<equiv> 28"
abbreviation (input) FS_MAX_FILE_SIZE :: nat where "FS_MAX_FILE_SIZE \<equiv> 16384"
abbreviation (input) FS_INODE_DIRECT_BLOCKS :: nat where "FS_INODE_DIRECT_BLOCKS \<equiv> 12"
abbreviation (input) FS_MAX_DIR_ENTRIES :: nat where "FS_MAX_DIR_ENTRIES \<equiv> 15"

abbreviation (input) INODE_TYPE_FREE :: u8 where "INODE_TYPE_FREE \<equiv> 0"
abbreviation (input) INODE_TYPE_FILE :: u8 where "INODE_TYPE_FILE \<equiv> 1"
abbreviation (input) INODE_TYPE_DIR :: u8 where "INODE_TYPE_DIR \<equiv> 2"

text \<open>The value \<open>0xFFFFFFFF\<close> that the code returns for "no inode" and "no block".\<close>

definition NONE32 :: u32 where "NONE32 = 0xFFFFFFFF"

section \<open>Structs\<close>

record fs_superblock =
  magic :: u32
  version :: u32
  total_inodes :: u32
  total_blocks :: u32
  free_inodes :: u32
  free_blocks :: u32
  root_inode :: u32
  installed :: u32
  hostname :: bytes
  username :: bytes
  password_hash :: bytes

record fs_inode =
  itype :: u8
  isize :: u32
  iblocks :: "u32 list"
  parent_inode :: u32

record fs_dir_entry =
  ename :: bytes
  einode :: u32
  in_use :: u8

type_synonym fs_dir_block = "fs_dir_entry list"

section \<open>Byte images\<close>

definition enc_superblock :: "fs_superblock \<Rightarrow> bytes" where
  "enc_superblock sb = concat (map le32 [magic sb, version sb, total_inodes sb, total_blocks sb,
     free_inodes sb, free_blocks sb, root_inode sb, installed sb])
     @ hostname sb @ username sb @ password_hash sb"

definition dec_superblock :: "bytes \<Rightarrow> fs_superblock" where
  "dec_superblock b = (let w = (\<lambda>i. get32 (chunks 4 8 b ! i) 0) in
     \<lparr>magic = w 0, version = w 1, total_inodes = w 2, total_blocks = w 3, free_inodes = w 4,
      free_blocks = w 5, root_inode = w 6, installed = w 7,
      hostname = take 64 (drop 32 b), username = take 64 (drop 96 b),
      password_hash = take 32 (drop 160 b)\<rparr>)"

definition enc_inode :: "fs_inode \<Rightarrow> bytes" where
  "enc_inode i = itype i # [0, 0, 0] @ le32 (isize i) @ concat (map le32 (iblocks i))
     @ le32 (parent_inode i)"

definition dec_inode :: "bytes \<Rightarrow> fs_inode" where
  "dec_inode b = \<lparr>itype = b ! 0, isize = get32 (drop 4 b) 0,
     iblocks = map (\<lambda>c. get32 c 0) (chunks 4 FS_INODE_DIRECT_BLOCKS (drop 8 b)),
     parent_inode = get32 (drop 56 b) 0\<rparr>"

definition enc_entry :: "fs_dir_entry \<Rightarrow> bytes" where
  "enc_entry e = ename e @ le32 (einode e) @ [in_use e, 0, 0, 0]"

definition dec_entry :: "bytes \<Rightarrow> fs_dir_entry" where
  "dec_entry b = \<lparr>ename = take FS_MAX_FILENAME b, einode = get32 (drop 28 b) 0, in_use = b ! 32\<rparr>"

definition enc_dir :: "fs_dir_block \<Rightarrow> bytes" where
  "enc_dir d = concat (map enc_entry d)"

definition dec_dir :: "bytes \<Rightarrow> fs_dir_block" where
  "dec_dir b = map dec_entry (chunks 36 FS_MAX_DIR_ENTRIES b)"

definition enc_table :: "fs_inode list \<Rightarrow> bytes" where
  "enc_table t = concat (map enc_inode t)"

definition dec_table :: "bytes \<Rightarrow> fs_inode list" where
  "dec_table b = map dec_inode (chunks 60 FS_MAX_INODES b)"

section \<open>Shapes: the array bounds of the structs\<close>

definition superblock_shape :: "fs_superblock \<Rightarrow> bool" where
  "superblock_shape sb \<longleftrightarrow> length (hostname sb) = 64 \<and> length (username sb) = 64 \<and>
     length (password_hash sb) = 32"

definition inode_shape :: "fs_inode \<Rightarrow> bool" where
  "inode_shape i \<longleftrightarrow> length (iblocks i) = FS_INODE_DIRECT_BLOCKS"

definition entry_shape :: "fs_dir_entry \<Rightarrow> bool" where
  "entry_shape e \<longleftrightarrow> length (ename e) = FS_MAX_FILENAME"

definition dir_shape :: "fs_dir_block \<Rightarrow> bool" where
  "dir_shape d \<longleftrightarrow> length d = FS_MAX_DIR_ENTRIES \<and> (\<forall>e \<in> set d. entry_shape e)"

section \<open>Sizes: \<open>sizeof\<close> of the four structs\<close>

lemma length_concat_le32: "length (concat (map le32 ws)) = 4 * length ws"
  by (induction ws) auto

lemma sizeof_superblock [layout_simps]:
  "superblock_shape sb \<Longrightarrow> length (enc_superblock sb) = 192"
  by (simp add: enc_superblock_def superblock_shape_def)

lemma sizeof_inode [layout_simps]: "inode_shape i \<Longrightarrow> length (enc_inode i) = 60"
  by (simp add: enc_inode_def inode_shape_def length_concat_le32)

lemma sizeof_entry [layout_simps]: "entry_shape e \<Longrightarrow> length (enc_entry e) = 36"
  by (simp add: enc_entry_def entry_shape_def)

lemma sizeof_dir [layout_simps]: "dir_shape d \<Longrightarrow> length (enc_dir d) = 540"
  using length_concat_const[of d enc_entry 36]
  by (auto simp: enc_dir_def dir_shape_def sizeof_entry)

lemma sizeof_table [layout_simps]:
  "length t = FS_MAX_INODES \<Longrightarrow> (\<forall>i \<in> set t. inode_shape i) \<Longrightarrow> length (enc_table t) = 12000"
  using length_concat_const[of t enc_inode 60]
  by (auto simp: enc_table_def sizeof_inode)

section \<open>Round trips\<close>

lemma get32_le32_nil [simp]: "get32 (le32 w) 0 = w"
  using get32_le32[of w "[]"] by simp

lemma dec_enc_entry [simp]: "entry_shape e \<Longrightarrow> dec_entry (enc_entry e) = e"
  by (simp add: dec_entry_def enc_entry_def entry_shape_def get32_le32 nth_append)

lemma chunks_le32: "chunks 4 (length ws) (concat (map le32 ws) @ r) = map le32 ws"
  using chunks_concat[of ws le32 4 r] by simp

lemma dec_enc_inode [simp]:
  assumes "inode_shape i"
  shows "dec_inode (enc_inode i) = i"
proof -
  have "length (iblocks i) = 12" using assms by (simp add: inode_shape_def)
  then have "chunks 4 12 (concat (map le32 (iblocks i)) @ le32 (parent_inode i)) = map le32 (iblocks i)"
    using chunks_le32[of "iblocks i" "le32 (parent_inode i)"] by simp
  with assms show ?thesis
    by (simp add: dec_inode_def enc_inode_def inode_shape_def get32_le32 length_concat_le32
        comp_def)
qed

lemma dec_enc_superblock [simp]:
  assumes "superblock_shape sb"
  shows "dec_superblock (enc_superblock sb @ r) = sb"
proof -
  let ?ws = "[magic sb, version sb, total_inodes sb, total_blocks sb,
     free_inodes sb, free_blocks sb, root_inode sb, installed sb]"
  have "chunks 4 8 (enc_superblock sb @ r) = map le32 ?ws"
    using chunks_le32[of ?ws "hostname sb @ username sb @ password_hash sb @ r"]
    by (simp add: enc_superblock_def numeral_eq_Suc)
  then show ?thesis
    using assms
    by (simp add: dec_superblock_def enc_superblock_def superblock_shape_def Let_def)
qed

lemma dec_enc_table [simp]:
  assumes "length t = FS_MAX_INODES" "\<forall>i \<in> set t. inode_shape i"
  shows "dec_table (enc_table t @ r) = t"
proof -
  have "chunks 60 200 (enc_table t @ r) = map enc_inode t"
    using chunks_concat[of t enc_inode 60 r] assms
    by (auto simp: enc_table_def sizeof_inode)
  moreover have "map (dec_inode \<circ> enc_inode) t = t"
    using assms by (simp add: map_idI)
  ultimately show ?thesis by (simp add: dec_table_def)
qed

lemma dir_shape_dec [simp]: "540 \<le> length b \<Longrightarrow> dir_shape (dec_dir b)"
  using chunk_length[of 36 15 b]
  by (auto simp: dir_shape_def dec_dir_def entry_shape_def dec_entry_def)

text \<open>
  A directory block does not fit a sector: 15 entries of 36 bytes are 540 bytes, and the last
  28 of them are cut off. The 15th entry keeps only the first 8 bytes of its name.
\<close>

definition cut_entry :: "fs_dir_entry \<Rightarrow> fs_dir_entry" where
  "cut_entry e = \<lparr>ename = take 8 (ename e) @ replicate 20 0, einode = 0, in_use = 0\<rparr>"

definition cut_dir :: "fs_dir_block \<Rightarrow> fs_dir_block" where
  "cut_dir d = d[14 := cut_entry (d ! 14)]"

lemma dec_cut_entry:
  "entry_shape e \<Longrightarrow> dec_entry (take 8 (enc_entry e) @ replicate 28 0) = cut_entry e"
  by (simp add: dec_entry_def enc_entry_def entry_shape_def cut_entry_def get32_def nth_append)

lemma dec_enc_dir_cut:
  assumes "dir_shape d"
  shows "dec_dir (take 512 (enc_dir d) @ replicate 28 0) = cut_dir d"
proof (rule nth_equalityI)
  let ?b = "take 512 (enc_dir d) @ replicate 28 0"
  have len: "length (enc_dir d) = 540" using assms by (rule sizeof_dir)
  have el: "\<forall>x \<in> set (map enc_entry d). length x = 36" and ld: "length d = 15"
    using assms by (auto simp: dir_shape_def sizeof_entry)
  show "length (dec_dir ?b) = length (cut_dir d)" using ld by (simp add: dec_dir_def cut_dir_def)
  fix i
  assume "i < length (dec_dir ?b)"
  then have i: "i < 15" by (simp add: dec_dir_def)
  have ci: "take 36 (drop (36 * i) (enc_dir d)) = enc_entry (d ! i)"
    using chunks_concat[of d enc_entry 36 "[]"] el ld i
      chunks_nth[of i 15 36 "enc_dir d"] by (auto simp: enc_dir_def)
  have sh: "entry_shape (d ! i)" using assms i by (auto simp: dir_shape_def)
  have "dec_dir ?b ! i = dec_entry (take 36 (drop (36 * i) ?b))"
    using i by (simp add: dec_dir_def chunks_nth)
  also have "\<dots> = cut_dir d ! i"
  proof (cases "i = 14")
    case True
    have "take 8 (drop 504 (enc_dir d)) = take 8 (enc_entry (d ! 14))"
      using arg_cong[OF ci, of "take 8"] True by simp
    then have "take 36 (drop (36 * i) ?b) = take 8 (enc_entry (d ! 14)) @ replicate 28 0"
      using True len by (simp add: drop_take)
    with True ld sh show ?thesis by (simp add: cut_dir_def dec_cut_entry)
  next
    case False
    with i have "36 * i + 36 \<le> 512" by simp
    then have "take 36 (drop (36 * i) ?b) = take 36 (drop (36 * i) (enc_dir d))"
      using len by (simp add: take_drop_append take_drop_take del: drop_append take_append drop_take)
    with ci sh False show ?thesis by (simp add: cut_dir_def)
  qed
  finally show "dec_dir ?b ! i = cut_dir d ! i" .
qed

end
