(* ===== verification/FsState.thy ===== *)
theory FsState
  imports FsLayout
begin

text \<open>
  The state of \<open>fs/filesystem.c\<close> and its access to the disk: the static variables, the sector
  transfers between them and the medium, and the block access of inodes. The medium is a map from
  sector numbers to 512 bytes; \<open>disk_read_sectors\<close> and \<open>disk_write_sectors\<close> of
  \<open>drivers/disk.c\<close> are used here by their contract, one sector at a time.

  A sector transfer of a static variable moves whole sectors: it also reads or overwrites the
  bytes that follow the variable in memory, which the C standard leaves undefined. The model follows
  the object file that the \<open>Makefile\<close> builds: without an optimisation option gcc keeps the order of
  the declarations (\<open>-fno-toplevel-reorder\<close> holds at \<open>-O0\<close>), and the sizes of the four static variables
  are multiples of their alignment of 32, so that they follow each other without a gap:
  \<open>superblock\<close> (bytes 0 to 191), \<open>inode_table\<close> (192 to 12191), \<open>block_bitmap\<close> (12192 to 12255)
  and \<open>sector_buffer\<close> (12256 to 12767). So a transfer of the superblock also moves the first 320 bytes of
  the inode table, one of the table also the bitmap and 224 bytes of the sector buffer, and one of the
  bitmap also 448 bytes of the sector buffer.
\<close>

section \<open>State\<close>

record fs =
  superblock :: fs_superblock
  inode_table :: "fs_inode list"
  block_bitmap :: bytes
  sector_buffer :: bytes
  disk :: "nat \<Rightarrow> bytes"

definition disk_read :: "(nat \<Rightarrow> bytes) \<Rightarrow> nat \<Rightarrow> bytes" where
  "disk_read d lba = d lba"

definition disk_write :: "(nat \<Rightarrow> bytes) \<Rightarrow> nat \<Rightarrow> bytes \<Rightarrow> nat \<Rightarrow> bytes" where
  "disk_write d lba buf = d(lba := take 512 buf)"

text \<open>The transfer loops: sector \<open>base + i\<close> holds the bytes from \<open>i * 512\<close> of the variable.\<close>

fun write_sectors :: "nat \<Rightarrow> nat \<Rightarrow> bytes \<Rightarrow> (nat \<Rightarrow> bytes) \<Rightarrow> nat \<Rightarrow> bytes" where
  "write_sectors base 0 buf d = d"
| "write_sectors base (Suc k) buf d =
     write_sectors (Suc base) k (drop 512 buf) (disk_write d base buf)"

fun read_sectors :: "nat \<Rightarrow> nat \<Rightarrow> (nat \<Rightarrow> bytes) \<Rightarrow> bytes" where
  "read_sectors base 0 d = []"
| "read_sectors base (Suc k) d = disk_read d base @ read_sectors (Suc base) k d"

text \<open>\<open>(sizeof(x) + 511) / 512\<close> for the inode table (12000 bytes) and the bitmap (64 bytes).\<close>

definition sectors_needed :: "nat \<Rightarrow> nat" where
  "sectors_needed nbytes = (nbytes + 511) div 512"

text \<open>
  The memory from \<open>superblock\<close>, from \<open>inode_table\<close> and from \<open>block_bitmap\<close> on, to the end of the
  static variables.
\<close>

definition bitmap_memory :: "fs \<Rightarrow> bytes" where
  "bitmap_memory s = block_bitmap s @ sector_buffer s"

definition table_memory :: "fs \<Rightarrow> bytes" where
  "table_memory s = enc_table (inode_table s) @ bitmap_memory s"

definition superblock_memory :: "fs \<Rightarrow> bytes" where
  "superblock_memory s = enc_superblock (superblock s) @ table_memory s"

definition sync_superblock :: "fs \<Rightarrow> fs" where
  "sync_superblock s = s\<lparr>disk := disk_write (disk s) FS_SUPERBLOCK_SECTOR (superblock_memory s)\<rparr>"

definition sync_inode_table :: "fs \<Rightarrow> fs" where
  "sync_inode_table s = s\<lparr>disk := write_sectors FS_INODE_TABLE_SECTOR (sectors_needed 12000)
     (table_memory s) (disk s)\<rparr>"

definition sync_block_bitmap :: "fs \<Rightarrow> fs" where
  "sync_block_bitmap s = s\<lparr>disk := write_sectors FS_BLOCK_BITMAP_SECTOR (sectors_needed 64)
     (bitmap_memory s) (disk s)\<rparr>"

text \<open>A transfer into the memory leaves what is behind its last sector.\<close>

definition load_superblock :: "fs \<Rightarrow> fs" where
  "load_superblock s = (let b = disk_read (disk s) FS_SUPERBLOCK_SECTOR in
     s\<lparr>superblock := dec_superblock b, inode_table := dec_table (drop 192 b @ drop 320 (enc_table (inode_table s)))\<rparr>)"

definition load_inode_table :: "fs \<Rightarrow> fs" where
  "load_inode_table s =
     (let b = read_sectors FS_INODE_TABLE_SECTOR (sectors_needed 12000) (disk s) in
      s\<lparr>inode_table := dec_table b, block_bitmap := take 64 (drop 12000 b),
        sector_buffer := drop 12064 b @ drop 224 (sector_buffer s)\<rparr>)"

definition load_block_bitmap :: "fs \<Rightarrow> fs" where
  "load_block_bitmap s =
     (let b = read_sectors FS_BLOCK_BITMAP_SECTOR (sectors_needed 64) (disk s) in
      s\<lparr>block_bitmap := take 64 b, sector_buffer := drop 64 b @ drop 448 (sector_buffer s)\<rparr>)"

text \<open>
  \<open>read_inode_block\<close> fills the first 512 bytes of its buffer, with 0 for block 0 and for block
  numbers out of range; \<open>write_inode_block\<close> ignores these blocks.
\<close>

definition read_inode_block :: "fs \<Rightarrow> u32 \<Rightarrow> bytes \<Rightarrow> bytes" where
  "read_inode_block s block_num buf =
     (if block_num = 0 \<or> 512 \<le> block_num then replicate 512 0
      else disk_read (disk s) (FS_DATA_START_SECTOR + unat block_num)) @ drop 512 buf"

definition write_inode_block :: "fs \<Rightarrow> u32 \<Rightarrow> bytes \<Rightarrow> fs" where
  "write_inode_block s block_num buf =
     (if block_num = 0 \<or> 512 \<le> block_num then s
      else s\<lparr>disk := disk_write (disk s) (FS_DATA_START_SECTOR + unat block_num) buf\<rparr>)"

text \<open>A local \<open>fs_dir_block_t\<close>, zeroed by \<open>memset\<close>, then read from a block.\<close>

definition read_dir :: "fs \<Rightarrow> u32 \<Rightarrow> fs_dir_block" where
  "read_dir s block_num = dec_dir (read_inode_block s block_num (replicate 540 0))"

definition write_dir :: "fs \<Rightarrow> u32 \<Rightarrow> fs_dir_block \<Rightarrow> fs" where
  "write_dir s block_num d = write_inode_block s block_num (enc_dir d)"

definition fs_init :: "fs \<Rightarrow> fs" where
  "fs_init s = load_block_bitmap (load_inode_table (load_superblock s))"

definition fs_check_installed :: "fs \<Rightarrow> bool \<times> fs" where
  "fs_check_installed s = (let s' = load_superblock s; sb = superblock s' in
     (magic sb = FS_MAGIC \<and> version sb = FS_VERSION \<and> installed sb = 1, s'))"

section \<open>The shape invariant\<close>

text \<open>The sizes of all arrays; they hold of every C object and never change.\<close>

definition fs_shape :: "fs \<Rightarrow> bool" where
  "fs_shape s \<longleftrightarrow> superblock_shape (superblock s) \<and>
     length (inode_table s) = FS_MAX_INODES \<and> (\<forall>i \<in> set (inode_table s). inode_shape i) \<and>
     length (block_bitmap s) = 64 \<and> length (sector_buffer s) = 512 \<and>
     (\<forall>n. length (disk s n) = 512)"

section \<open>Lemmas: sectors\<close>

lemma disk_write_apply: "disk_write d lba buf n = (if n = lba then take 512 buf else d n)"
  by (simp add: disk_write_def)

lemma write_sectors_nth:
  "write_sectors base k buf d n =
     (if base \<le> n \<and> n < base + k then take 512 (drop (512 * (n - base)) buf) else d n)"
proof (induction k arbitrary: base buf d)
  case (Suc k)
  have "Suc base \<le> n \<Longrightarrow> 512 * (n - Suc base) + 512 = 512 * (n - base)" by simp
  then show ?case by (auto simp: Suc disk_write_apply drop_drop)
qed auto

lemma read_write_sectors:
  "length buf = 512 * k \<Longrightarrow> read_sectors base k (write_sectors base k buf d) = buf"
proof (induction k arbitrary: base buf d)
  case (Suc k)
  have "write_sectors (Suc base) k (drop 512 buf) (disk_write d base buf) base = take 512 buf"
    by (simp add: write_sectors_nth disk_write_def)
  with Suc show ?case by (simp add: disk_read_def)
qed simp

lemma read_sectors_cong:
  "(\<And>n. base \<le> n \<Longrightarrow> n < base + k \<Longrightarrow> d n = d' n) \<Longrightarrow> read_sectors base k d = read_sectors base k d'"
  by (induction k arbitrary: base) (auto simp: disk_read_def)

lemma length_read_sectors:
  "(\<And>n. length (d n) = 512) \<Longrightarrow> length (read_sectors base k d) = 512 * k"
  by (induction k arbitrary: base) (auto simp: disk_read_def)

lemma sectors_needed_simps [simp]: "sectors_needed 12000 = 24" "sectors_needed 64 = 1"
  by (simp_all add: sectors_needed_def)

section \<open>Lemmas: what each transfer leaves alone\<close>

lemma sync_simps [simp]:
  "superblock (sync_superblock s) = superblock s"
  "inode_table (sync_superblock s) = inode_table s"
  "block_bitmap (sync_superblock s) = block_bitmap s"
  "sector_buffer (sync_superblock s) = sector_buffer s"
  "superblock (sync_inode_table s) = superblock s"
  "inode_table (sync_inode_table s) = inode_table s"
  "block_bitmap (sync_inode_table s) = block_bitmap s"
  "sector_buffer (sync_inode_table s) = sector_buffer s"
  "superblock (sync_block_bitmap s) = superblock s"
  "inode_table (sync_block_bitmap s) = inode_table s"
  "block_bitmap (sync_block_bitmap s) = block_bitmap s"
  "sector_buffer (sync_block_bitmap s) = sector_buffer s"
  by (simp_all add: sync_superblock_def sync_inode_table_def sync_block_bitmap_def)

lemma sync_disk_data [simp]:
  "disk (sync_superblock s) (201 + n) = disk s (201 + n)"
  "disk (sync_inode_table s) (201 + n) = disk s (201 + n)"
  "disk (sync_block_bitmap s) (201 + n) = disk s (201 + n)"
  by (simp_all add: sync_superblock_def sync_inode_table_def sync_block_bitmap_def
      disk_write_def write_sectors_nth)

lemma write_inode_block_simps [simp]:
  "superblock (write_inode_block s b buf) = superblock s"
  "inode_table (write_inode_block s b buf) = inode_table s"
  "block_bitmap (write_inode_block s b buf) = block_bitmap s"
  "sector_buffer (write_inode_block s b buf) = sector_buffer s"
  by (simp_all add: write_inode_block_def)

lemma write_dir_simps [simp]:
  "superblock (write_dir s b d) = superblock s"
  "inode_table (write_dir s b d) = inode_table s"
  "block_bitmap (write_dir s b d) = block_bitmap s"
  by (simp_all add: write_dir_def)

text \<open>The data block of a block number: what \<open>read_inode_block\<close> sees.\<close>

definition data_block :: "fs \<Rightarrow> u32 \<Rightarrow> bytes" where
  "data_block s b = (if b = 0 \<or> 512 \<le> b then replicate 512 0 else disk s (201 + unat b))"

lemma read_inode_block_data: "read_inode_block s b buf = data_block s b @ drop 512 buf"
  by (simp add: read_inode_block_def data_block_def disk_read_def)

lemma read_dir_data: "read_dir s b = dec_dir (data_block s b @ replicate 28 0)"
  by (simp add: read_dir_def read_inode_block_data)

lemma data_block_sync [simp]:
  "data_block (sync_superblock s) b = data_block s b"
  "data_block (sync_inode_table s) b = data_block s b"
  "data_block (sync_block_bitmap s) b = data_block s b"
  by (simp_all add: data_block_def)

lemma data_block_write:
  "data_block (write_inode_block s b buf) c =
     (if c = b \<and> b \<noteq> 0 \<and> b < 512 then take 512 buf else data_block s c)"
proof (cases "b = 0 \<or> 512 \<le> b")
  case False
  then have "unat c = unat b \<longleftrightarrow> c = b" by (simp add: word_unat_eq_iff)
  with False show ?thesis
    by (auto simp: data_block_def write_inode_block_def disk_write_apply not_le)
qed (auto simp: write_inode_block_def data_block_def)

lemma data_block_cong: "disk s = disk s' \<Longrightarrow> data_block s b = data_block s' b"
  by (simp add: data_block_def)

lemma length_data_block: "fs_shape s \<Longrightarrow> length (data_block s b) = 512"
  by (simp add: data_block_def fs_shape_def)

lemma read_write_dir:
  assumes "b \<noteq> 0" "b < 512" "dir_shape d"
  shows "read_dir (write_dir s b d) b = cut_dir d"
  using assms by (simp add: read_dir_data write_dir_def data_block_write dec_enc_dir_cut)

section \<open>Lemmas: shape\<close>

lemma fs_shape_write_inode_block [inv_intros]:
  "fs_shape s \<Longrightarrow> 512 \<le> length buf \<Longrightarrow> fs_shape (write_inode_block s b buf)"
  by (auto simp: fs_shape_def write_inode_block_def disk_write_apply)

lemma fs_shape_write_dir [inv_intros]: "fs_shape s \<Longrightarrow> dir_shape d \<Longrightarrow> fs_shape (write_dir s b d)"
  by (simp add: write_dir_def fs_shape_write_inode_block sizeof_dir)

lemma memory_sizes:
  assumes "fs_shape s"
  shows "length (superblock_memory s) = 12768" "length (table_memory s) = 12576" "length (bitmap_memory s) = 576"
  using assms by (simp_all add: fs_shape_def superblock_memory_def table_memory_def bitmap_memory_def sizeof_superblock sizeof_table)

lemma fs_shape_sync_superblock [inv_intros]: "fs_shape s \<Longrightarrow> fs_shape (sync_superblock s)"
  using memory_sizes(1)[of s] by (auto simp: fs_shape_def sync_superblock_def disk_write_apply)

lemma fs_shape_sync_inode_table [inv_intros]: "fs_shape s \<Longrightarrow> fs_shape (sync_inode_table s)"
  using memory_sizes(2)[of s] by (auto simp: fs_shape_def sync_inode_table_def write_sectors_nth)

lemma fs_shape_sync_block_bitmap [inv_intros]: "fs_shape s \<Longrightarrow> fs_shape (sync_block_bitmap s)"
  using memory_sizes(3)[of s] by (auto simp: fs_shape_def sync_block_bitmap_def write_sectors_nth disk_write_apply)

lemma dir_shape_read_dir [simp]: "fs_shape s \<Longrightarrow> dir_shape (read_dir s b)"
  by (simp add: read_dir_data length_data_block)

section \<open>Lemmas: persistence\<close>

text \<open>The disk holds the superblock, the inode table, the bitmap as they are in memory.\<close>

definition synced_sb :: "fs \<Rightarrow> bool" where
  "synced_sb s \<longleftrightarrow> disk s 100 = take 512 (superblock_memory s)"

definition synced_it :: "fs \<Rightarrow> bool" where
  "synced_it s \<longleftrightarrow> read_sectors 101 24 (disk s) = take 12288 (table_memory s)"

definition synced_bm :: "fs \<Rightarrow> bool" where
  "synced_bm s \<longleftrightarrow> disk s 151 = take 512 (bitmap_memory s)"

lemma sync_memory [simp]:
  "superblock_memory (sync_superblock s) = superblock_memory s" "table_memory (sync_superblock s) = table_memory s"
  "bitmap_memory (sync_superblock s) = bitmap_memory s" "superblock_memory (sync_inode_table s) = superblock_memory s"
  "table_memory (sync_inode_table s) = table_memory s" "bitmap_memory (sync_inode_table s) = bitmap_memory s"
  "superblock_memory (sync_block_bitmap s) = superblock_memory s" "table_memory (sync_block_bitmap s) = table_memory s"
  "bitmap_memory (sync_block_bitmap s) = bitmap_memory s"
  by (simp_all add: superblock_memory_def table_memory_def bitmap_memory_def)

lemma sync_disk:
  "disk (sync_superblock s) n = (if n = 100 then take 512 (superblock_memory s) else disk s n)"
  "n < 101 \<or> 125 \<le> n \<Longrightarrow> disk (sync_inode_table s) n = disk s n"
  "disk (sync_block_bitmap s) n = (if n = 151 then take 512 (bitmap_memory s) else disk s n)"
  by (auto simp: sync_superblock_def sync_inode_table_def sync_block_bitmap_def write_sectors_nth
      disk_write_apply)

lemma synced_sync:
  assumes "fs_shape s"
  shows "synced_sb (sync_superblock s)" "synced_it (sync_inode_table s)" "synced_bm (sync_block_bitmap s)"
proof -
  have "write_sectors 101 24 (table_memory s) (disk s) = write_sectors 101 24 (take 12288 (table_memory s)) (disk s)"
    by (auto simp: fun_eq_iff write_sectors_nth take_drop min_def)
  then show "synced_it (sync_inode_table s)"
    using memory_sizes(2)[OF assms] by (simp add: synced_it_def sync_inode_table_def read_write_sectors table_memory_def bitmap_memory_def)
qed (simp_all add: synced_sb_def synced_bm_def sync_disk)

lemma synced_frame:
  "synced_sb s \<Longrightarrow> synced_sb (sync_inode_table s)" "synced_sb s \<Longrightarrow> synced_sb (sync_block_bitmap s)"
  "synced_it s \<Longrightarrow> synced_it (sync_superblock s)" "synced_it s \<Longrightarrow> synced_it (sync_block_bitmap s)"
  "synced_bm s \<Longrightarrow> synced_bm (sync_superblock s)" "synced_bm s \<Longrightarrow> synced_bm (sync_inode_table s)"
proof -
  show "synced_it s \<Longrightarrow> synced_it (sync_superblock s)" "synced_it s \<Longrightarrow> synced_it (sync_block_bitmap s)"
    using read_sectors_cong[of 101 24 "disk (sync_superblock s)" "disk s"]
      read_sectors_cong[of 101 24 "disk (sync_block_bitmap s)" "disk s"]
    by (simp_all add: synced_it_def sync_disk)
qed (simp_all add: synced_sb_def synced_bm_def sync_disk)

text \<open>Loading what is on the disk changes nothing when the memory is synchronised with it.\<close>

lemma fs_shapeD:
  assumes "fs_shape s"
  shows "length (enc_superblock (superblock s)) = 192" "length (enc_table (inode_table s)) = 12000"
    "length (block_bitmap s) = 64" "length (sector_buffer s) = 512" "superblock_shape (superblock s)"
    "length (inode_table s) = 200" "\<forall>i \<in> set (inode_table s). inode_shape i"
  using assms by (simp_all add: fs_shape_def sizeof_superblock sizeof_table)

lemma load_superblock_synced: "fs_shape s \<Longrightarrow> synced_sb s \<Longrightarrow> load_superblock s = s"
  using fs_shapeD[of s] dec_enc_table[where r = "[]"]
  by (simp add: load_superblock_def synced_sb_def disk_read_def Let_def superblock_memory_def table_memory_def)

lemma fs_init_synced:
  assumes sh: "fs_shape s" and sy: "synced_sb s" "synced_it s" "synced_bm s"
  shows "fs_init s = s"
proof -
  note l = fs_shapeD[OF sh]
  have "load_inode_table s = s"
    using sy(2) l by (simp add: load_inode_table_def synced_it_def Let_def table_memory_def bitmap_memory_def)
  moreover have "load_block_bitmap s = s"
    using sy(3) l by (simp add: load_block_bitmap_def synced_bm_def disk_read_def Let_def bitmap_memory_def)
  ultimately show ?thesis using load_superblock_synced[OF sh sy(1)] by (simp add: fs_init_def)
qed

text \<open>A state with the same disk loads the same metadata.\<close>

lemma fs_init_cong:
  assumes "disk u = disk s"
  shows "superblock (fs_init u) = superblock (fs_init s)" "inode_table (fs_init u) = inode_table (fs_init s)"
    "block_bitmap (fs_init u) = block_bitmap (fs_init s)" "disk (fs_init u) = disk s"
  using assms by (simp_all add: fs_init_def load_superblock_def load_inode_table_def
      load_block_bitmap_def Let_def)

end
