(* ===== verification/FsAlloc.thy ===== *)
theory FsAlloc
  imports FsState
begin

text \<open>
  Block and inode allocation of \<open>fs/filesystem.c\<close>: the bitmap operations, \<open>allocate_block\<close>,
  \<open>allocate_inode\<close> and \<open>free_inode\<close>. The locale \<open>allocator\<close> is the contract that both
  allocators fulfil towards the file and directory operations; it is interpreted for blocks and
  for inodes. The invariant \<open>fs_inv\<close> says that blocks are owned by one place of one inode, are
  marked used, and that the counters of the superblock count what is free.
\<close>

section \<open>The block bitmap\<close>

definition is_block_free :: "fs \<Rightarrow> u32 \<Rightarrow> bool" where
  "is_block_free s block_num =
     (if 512 \<le> block_num then False
      else (block_bitmap s ! unat (block_num div 8)) AND push_bit (unat (block_num mod 8)) 1 = 0)"

definition mark_block_used :: "fs \<Rightarrow> u32 \<Rightarrow> fs" where
  "mark_block_used s block_num =
     (if 512 \<le> block_num then s
      else let byte_index = unat (block_num div 8); bit_index = unat (block_num mod 8) in
        s\<lparr>block_bitmap := (block_bitmap s)
            [byte_index := (block_bitmap s ! byte_index) OR push_bit bit_index 1],
          superblock := (superblock s)\<lparr>free_blocks := free_blocks (superblock s) - 1\<rparr>\<rparr>)"

definition mark_block_free :: "fs \<Rightarrow> u32 \<Rightarrow> fs" where
  "mark_block_free s block_num =
     (if 512 \<le> block_num then s
      else let byte_index = unat (block_num div 8); bit_index = unat (block_num mod 8) in
        s\<lparr>block_bitmap := (block_bitmap s)
            [byte_index := (block_bitmap s ! byte_index) AND NOT (push_bit bit_index 1)],
          superblock := (superblock s)\<lparr>free_blocks := free_blocks (superblock s) + 1\<rparr>\<rparr>)"

definition allocate_block :: "fs \<Rightarrow> u32 \<times> fs" where
  "allocate_block s =
     (case find (\<lambda>i. is_block_free s (of_nat i)) [0..<FS_MAX_BLOCKS] of
        Some i \<Rightarrow> (of_nat i, mark_block_used s (of_nat i))
      | None \<Rightarrow> (NONE32, s))"

section \<open>The inode table\<close>

definition upd_inode :: "fs \<Rightarrow> u32 \<Rightarrow> (fs_inode \<Rightarrow> fs_inode) \<Rightarrow> fs" where
  "upd_inode s n f = s\<lparr>inode_table := (inode_table s)[unat n := f (inode_table s ! unat n)]\<rparr>"

definition inode_of :: "fs \<Rightarrow> u32 \<Rightarrow> fs_inode" where
  "inode_of s n = inode_table s ! unat n"

definition allocate_inode :: "fs \<Rightarrow> u32 \<times> fs" where
  "allocate_inode s =
     (case find (\<lambda>i. itype (inode_table s ! i) = INODE_TYPE_FREE) [0..<FS_MAX_INODES] of
        Some i \<Rightarrow>
          (let s1 = upd_inode s (of_nat i) (\<lambda>x. x\<lparr>itype := INODE_TYPE_FILE, isize := 0,
                      parent_inode := 0, iblocks := replicate FS_INODE_DIRECT_BLOCKS 0\<rparr>)
           in (of_nat i, s1\<lparr>superblock :=
                 (superblock s1)\<lparr>free_inodes := free_inodes (superblock s1) - 1\<rparr>\<rparr>))
      | None \<Rightarrow> (NONE32, s))"

text \<open>One round of the loop over the direct blocks in \<open>free_inode\<close>.\<close>

definition free_inode_step :: "u32 \<Rightarrow> nat \<Rightarrow> fs \<Rightarrow> fs" where
  "free_inode_step n i s = (let b = iblocks (inode_of s n) ! i in
     if b \<noteq> 0 then upd_inode (mark_block_free s b) n (\<lambda>x. x\<lparr>iblocks := (iblocks x)[i := 0]\<rparr>)
     else s)"

definition free_inode :: "fs \<Rightarrow> u32 \<Rightarrow> fs" where
  "free_inode s n =
     (if 200 \<le> n then s
      else let s1 = fold (free_inode_step n) [0..<FS_INODE_DIRECT_BLOCKS] s;
               s2 = upd_inode s1 n (\<lambda>x. x\<lparr>itype := INODE_TYPE_FREE, isize := 0\<rparr>)
           in s2\<lparr>superblock := (superblock s2)\<lparr>free_inodes := free_inodes (superblock s2) + 1\<rparr>\<rparr>)"

section \<open>The contract of an allocator\<close>

text \<open>
  \<open>free s\<close> is the set of available keys. \<open>alloc\<close> takes one of them, or returns \<open>none\<close> and
  leaves the state alone when there is none.
\<close>

locale allocator =
  fixes free :: "'s \<Rightarrow> 'k set"
    and alloc :: "'s \<Rightarrow> 'k \<times> 's"
    and none :: 'k
    and inv :: "'s \<Rightarrow> bool"
  assumes finite_free: "inv s \<Longrightarrow> finite (free s)"
    and none_not_free: "none \<notin> free s"
    and alloc_full: "inv s \<Longrightarrow> free s = {} \<Longrightarrow> alloc s = (none, s)"
    and alloc_takes: "inv s \<Longrightarrow> free s \<noteq> {} \<Longrightarrow> alloc s = (k, s') \<Longrightarrow>
          k \<in> free s \<and> free s' = free s - {k}"
    and inv_alloc: "inv s \<Longrightarrow> inv (snd (alloc s))"
begin

lemma alloc_cases:
  assumes "inv s" "alloc s = (k, s')"
  obtains (full) "k = none" "s' = s" "free s = {}"
    | (taken) "k \<noteq> none" "k \<in> free s" "free s' = free s - {k}"
proof (cases "free s = {}")
  case True
  with assms alloc_full have "(k, s') = (none, s)" by metis
  with True show ?thesis using full by simp
next
  case False
  with assms alloc_takes have "k \<in> free s" "free s' = free s - {k}" by blast+
  then show ?thesis using taken none_not_free by metis
qed

lemma alloc_none_iff: "inv s \<Longrightarrow> alloc s = (k, s') \<Longrightarrow> k = none \<longleftrightarrow> free s = {}"
  by (elim alloc_cases[of s k s']) auto

lemma alloc_card: "inv s \<Longrightarrow> alloc s = (k, s') \<Longrightarrow> k \<noteq> none \<Longrightarrow> card (free s') = card (free s) - 1"
  by (elim alloc_cases[of s k s']) (auto simp: finite_free)

text \<open>Allocating several times in a row: the keys are distinct, and as many as are free succeed.\<close>

fun alloc_many :: "nat \<Rightarrow> 's \<Rightarrow> 'k list \<times> 's" where
  "alloc_many 0 s = ([], s)"
| "alloc_many (Suc n) s = (let (k, s1) = alloc s; (ks, s2) = alloc_many n s1 in (k # ks, s2))"

lemma alloc_many_distinct:
  "inv s \<Longrightarrow> n \<le> card (free s) \<Longrightarrow> alloc_many n s = (ks, s') \<Longrightarrow>
   distinct ks \<and> set ks \<subseteq> free s \<and> free s' = free s - set ks \<and> length ks = n"
proof (induction n arbitrary: s ks s')
  case (Suc n)
  obtain k s1 where a: "alloc s = (k, s1)" by fastforce
  obtain ks1 s2 where m: "alloc_many n s1 = (ks1, s2)" by fastforce
  have ne: "free s \<noteq> {}" using Suc.prems by auto
  then have k: "k \<in> free s" "free s1 = free s - {k}"
    using alloc_takes[OF Suc.prems(1) _ a] by auto
  have i1: "inv s1" using inv_alloc[OF Suc.prems(1)] a by simp
  have "n \<le> card (free s1)" using k finite_free[OF Suc.prems(1)] Suc.prems(2) by simp
  from Suc.IH[OF i1 this m] k Suc.prems(3) a m show ?case by auto
qed simp

end

section \<open>Lemmas: single bits of the bitmap\<close>

lemma is_block_free_bit:
  "is_block_free s b \<longleftrightarrow>
     unat b < 512 \<and> \<not> bit (block_bitmap s ! (unat b div 8)) (unat b mod 8)"
  by (simp add: is_block_free_def and_exp_eq_0_iff_not_bit unat_div unat_mod word_le_nat_alt not_le)

lemma block_free_upd:
  assumes "unat b < 512" "length (block_bitmap s) = 64"
    and t: "block_bitmap t = (block_bitmap s)[unat b div 8 := w]"
    and w: "\<And>k. k < 8 \<Longrightarrow> bit w k = (if k = unat b mod 8 then v
              else bit (block_bitmap s ! (unat b div 8)) k)"
  shows "is_block_free t c \<longleftrightarrow> (if c = b then \<not> v else is_block_free s c)"
proof (cases "unat c div 8 = unat b div 8")
  case True
  then have "unat c mod 8 = unat b mod 8 \<longleftrightarrow> c = b"
    by (metis mult_div_mod_eq word_unat_eq_iff)
  with True assms show ?thesis by (auto simp: is_block_free_bit w)
next
  case False
  then show ?thesis using t by (auto simp: is_block_free_bit)
qed

lemma mark_used_free:
  assumes "fs_shape s"
  shows "is_block_free (mark_block_used s b) c \<longleftrightarrow> is_block_free s c \<and> c \<noteq> b"
proof (cases "512 \<le> b")
  case True
  then show ?thesis by (auto simp: mark_block_used_def is_block_free_def)
next
  case False
  then have b: "unat b < 512" by (simp add: word_le_nat_alt)
  have "is_block_free (mark_block_used s b) c \<longleftrightarrow> (if c = b then \<not> True else is_block_free s c)"
    using False b assms
    by (intro block_free_upd)
      (auto simp: mark_block_used_def Let_def unat_div unat_mod fs_shape_def bit_or_iff
        bit_exp_iff)
  then show ?thesis by auto
qed

lemma mark_free_free:
  assumes "fs_shape s"
  shows "is_block_free (mark_block_free s b) c \<longleftrightarrow> is_block_free s c \<or> c = b \<and> b < 512"
proof (cases "512 \<le> b")
  case True
  then show ?thesis by (auto simp: mark_block_free_def)
next
  case False
  then have b: "unat b < 512" by (simp add: word_le_nat_alt)
  have "is_block_free (mark_block_free s b) c \<longleftrightarrow> (if c = b then \<not> False else is_block_free s c)"
    using False b assms
    by (intro block_free_upd)
      (auto simp: mark_block_free_def Let_def unat_div unat_mod fs_shape_def bit_and_iff
        bit_not_iff bit_exp_iff)
  with False show ?thesis by auto
qed

end
