(* ===== verification/FsInv.thy ===== *)
theory FsInv
  imports FsAlloc
begin

text \<open>
  What the allocation operations do, in terms of the sets of free blocks and free inodes; the
  interpretation of \<open>allocator\<close> for both; and the ownership invariant \<open>fs_inv\<close> of the file
  system with its preservation by each operation of \<open>FsAlloc\<close>.
\<close>

section \<open>Frames: what each operation leaves alone\<close>

lemma mark_block_simps [simp]:
  "inode_table (mark_block_used s b) = inode_table s"
  "disk (mark_block_used s b) = disk s"
  "sector_buffer (mark_block_used s b) = sector_buffer s"
  "root_inode (superblock (mark_block_used s b)) = root_inode (superblock s)"
  "free_inodes (superblock (mark_block_used s b)) = free_inodes (superblock s)"
  "inode_table (mark_block_free s b) = inode_table s"
  "disk (mark_block_free s b) = disk s"
  "sector_buffer (mark_block_free s b) = sector_buffer s"
  "root_inode (superblock (mark_block_free s b)) = root_inode (superblock s)"
  "free_inodes (superblock (mark_block_free s b)) = free_inodes (superblock s)"
  by (simp_all add: mark_block_used_def mark_block_free_def Let_def)

lemma upd_inode_simps [simp]:
  "superblock (upd_inode s n f) = superblock s"
  "block_bitmap (upd_inode s n f) = block_bitmap s"
  "disk (upd_inode s n f) = disk s"
  "sector_buffer (upd_inode s n f) = sector_buffer s"
  "length (inode_table (upd_inode s n f)) = length (inode_table s)"
  by (simp_all add: upd_inode_def)

lemma inode_upd_inode:
  "fs_shape s \<Longrightarrow> n < 200 \<Longrightarrow>
   inode_of (upd_inode s n f) m = (if m = n then f (inode_of s n) else inode_of s m)"
  by (auto simp: inode_of_def upd_inode_def fs_shape_def word_less_nat_alt nth_list_update
      word_unat_eq_iff)

lemma inode_of_frame [simp]:
  "inode_of (mark_block_used s b) m = inode_of s m"
  "inode_of (mark_block_free s b) m = inode_of s m"
  "inode_of (write_inode_block s b buf) m = inode_of s m"
  "inode_of (write_dir s b d) m = inode_of s m"
  "inode_of (sync_superblock s) m = inode_of s m"
  "inode_of (sync_inode_table s) m = inode_of s m"
  "inode_of (sync_block_bitmap s) m = inode_of s m"
  "inode_of (s\<lparr>superblock := sb\<rparr>) m = inode_of s m"
  "inode_of (s\<lparr>sector_buffer := w\<rparr>) m = inode_of s m"
  by (simp_all add: inode_of_def)

lemma is_block_free_frame [simp]:
  "is_block_free (upd_inode s n f) b = is_block_free s b"
  "is_block_free (write_inode_block s c buf) b = is_block_free s b"
  "is_block_free (write_dir s c d) b = is_block_free s b"
  "is_block_free (sync_superblock s) b = is_block_free s b"
  "is_block_free (sync_inode_table s) b = is_block_free s b"
  "is_block_free (sync_block_bitmap s) b = is_block_free s b"
  "is_block_free (s\<lparr>superblock := sb\<rparr>) b = is_block_free s b"
  "is_block_free (s\<lparr>sector_buffer := w\<rparr>) b = is_block_free s b"
  by (simp_all add: is_block_free_bit)

lemma inode_shape_of: "fs_shape s \<Longrightarrow> n < 200 \<Longrightarrow> inode_shape (inode_of s n)"
  by (simp add: fs_shape_def inode_of_def word_less_nat_alt)

section \<open>Shape is kept\<close>

lemma fs_shape_mark_used [inv_intros]: "fs_shape s \<Longrightarrow> fs_shape (mark_block_used s b)"
  by (simp add: mark_block_used_def fs_shape_def Let_def superblock_shape_def)

lemma fs_shape_mark_free [inv_intros]: "fs_shape s \<Longrightarrow> fs_shape (mark_block_free s b)"
  by (simp add: mark_block_free_def fs_shape_def Let_def superblock_shape_def)

lemma fs_shape_upd_inode [inv_intros]:
  "fs_shape s \<Longrightarrow> n < 200 \<Longrightarrow> inode_shape (f (inode_of s n)) \<Longrightarrow> fs_shape (upd_inode s n f)"
  by (auto simp: fs_shape_def upd_inode_def inode_of_def dest: set_update_subset_insert[THEN subsetD])

lemma fs_shape_sector_buffer [inv_intros]:
  "fs_shape s \<Longrightarrow> length w = 512 \<Longrightarrow> fs_shape (s\<lparr>sector_buffer := w\<rparr>)"
  by (simp add: fs_shape_def)

lemma fs_shape_superblock [inv_intros]:
  "fs_shape s \<Longrightarrow> superblock_shape sb \<Longrightarrow> fs_shape (s\<lparr>superblock := sb\<rparr>)"
  by (simp add: fs_shape_def)

section \<open>Free blocks and free inodes\<close>

definition free_block_set :: "fs \<Rightarrow> u32 set" where
  "free_block_set s = {b. is_block_free s b}"

definition free_inode_set :: "fs \<Rightarrow> u32 set" where
  "free_inode_set s = {n. n < 200 \<and> itype (inode_of s n) = INODE_TYPE_FREE}"

lemma NONE32_big [simp]: "\<not> NONE32 < 200" "\<not> NONE32 < 512" "200 \<le> NONE32" "512 \<le> NONE32"
  by (simp_all add: NONE32_def)

lemma is_block_free_less: "is_block_free s b \<Longrightarrow> b < 512"
  by (simp add: is_block_free_def not_le split: if_splits)

lemma of_nat_u32_less: "i < k \<Longrightarrow> k \<le> 512 \<Longrightarrow> (of_nat i :: u32) < of_nat k"
  by (simp add: of_nat_word_less_iff unat_of_nat take_bit_nat_eq_self word_less_nat_alt)

lemma no_free_block:
  assumes "find (\<lambda>i. is_block_free s (of_nat i)) [0..<512] = None"
  shows "free_block_set s = {}"
proof -
  have "\<not> is_block_free s b" for b
  proof
    assume b: "is_block_free s b"
    then have "unat b < 512" by (simp add: is_block_free_bit)
    moreover have "of_nat (unat b) = b" by simp
    ultimately show False using assms b by (metis find_index_None)
  qed
  then show ?thesis by (simp add: free_block_set_def)
qed

lemma allocate_block_spec:
  assumes "fs_shape s"
  shows "allocate_block s = (if free_block_set s = {} then (NONE32, s)
    else let b = of_nat (LEAST i. is_block_free s (of_nat i)) in (b, mark_block_used s b))"
proof (cases "find (\<lambda>i. is_block_free s (of_nat i)) [0..<512]")
  case None
  then show ?thesis by (simp add: allocate_block_def no_free_block)
next
  case (Some i)
  then have i: "is_block_free s (of_nat i)" "\<forall>j < i. \<not> is_block_free s (of_nat j)"
    by (auto simp: find_index_Some)
  then have "(LEAST i. is_block_free s (of_nat i)) = i"
    by (intro Least_equality) (auto simp: not_less[symmetric])
  with Some i show ?thesis by (auto simp: allocate_block_def free_block_set_def Let_def)
qed

lemma allocate_blockE:
  assumes "fs_shape s" "allocate_block s = (b, s')"
  obtains (full) "b = NONE32" "s' = s" "free_block_set s = {}"
    | (taken) "is_block_free s b" "b < 512" "s' = mark_block_used s b"
proof (cases "find (\<lambda>i. is_block_free s (of_nat i)) [0..<512]")
  case None
  with assms(2) show ?thesis
    using full no_free_block by (auto simp: allocate_block_def)
next
  case (Some i)
  then have "is_block_free s (of_nat i)" by (simp add: find_index_Some)
  with Some assms(2) show ?thesis
    using taken by (auto simp: allocate_block_def dest: is_block_free_less)
qed

lemma allocate_inodeE:
  assumes "fs_shape s" "allocate_inode s = (n, s')"
  obtains (full) "n = NONE32" "s' = s" "free_inode_set s = {}"
    | (taken) "n < 200" "itype (inode_of s n) = 0"
      "s' = (upd_inode s n (\<lambda>x. x\<lparr>itype := 1, isize := 0, parent_inode := 0,
          iblocks := replicate 12 0\<rparr>))\<lparr>superblock :=
             (superblock s)\<lparr>free_inodes := free_inodes (superblock s) - 1\<rparr>\<rparr>"
proof (cases "find (\<lambda>i. itype (inode_table s ! i) = 0) [0..<200]")
  case None
  then have "\<forall>i < 200. itype (inode_table s ! i) \<noteq> 0" by (simp add: find_index_None)
  then have "free_inode_set s = {}"
    by (auto simp: free_inode_set_def inode_of_def word_less_nat_alt)
  with None assms show ?thesis using full by (auto simp: allocate_inode_def)
next
  case (Some i)
  then have i: "i < 200" "itype (inode_table s ! i) = 0" by (auto simp: find_index_Some)
  then have u: "unat (of_nat i :: u32) = i"
    by (simp add: unat_of_nat take_bit_nat_eq_self)
  have "(of_nat i :: u32) < 200" using i u by (simp add: word_less_nat_alt)
  moreover have "itype (inode_of s (of_nat i)) = 0" using i u by (simp add: inode_of_def)
  ultimately show ?thesis
    using taken[OF _ _ ] Some assms(2) by (auto simp: allocate_inode_def Let_def)
qed

lemma fs_shape_allocate_block [inv_intros]: "fs_shape s \<Longrightarrow> fs_shape (snd (allocate_block s))"
  by (simp add: allocate_block_def inv_intros split: option.split)

lemma fs_shape_allocate_inode [inv_intros]:
  assumes "fs_shape s"
  shows "fs_shape (snd (allocate_inode s))"
proof -
  obtain n s' where a: "allocate_inode s = (n, s')" by fastforce
  from assms a show ?thesis
  proof (cases rule: allocate_inodeE)
    case taken
    have "fs_shape (upd_inode s n (\<lambda>x. x\<lparr>itype := 1, isize := 0, parent_inode := 0,
          iblocks := replicate 12 0\<rparr>))"
      using assms taken(1) by (intro fs_shape_upd_inode) (auto simp: inode_shape_def)
    with a taken(3) show ?thesis by (simp add: fs_shape_def superblock_shape_def)
  qed (use assms a in simp)
qed

section \<open>Both allocators fulfil the contract\<close>

interpretation blocks: allocator free_block_set allocate_block NONE32 fs_shape
proof unfold_locales
  fix s
  show "NONE32 \<notin> free_block_set s"
    by (simp add: free_block_set_def is_block_free_def)
  show "fs_shape s \<Longrightarrow> free_block_set s = {} \<Longrightarrow> allocate_block s = (NONE32, s)"
    by (simp add: allocate_block_spec)
  fix k s'
  assume s: "fs_shape s" "free_block_set s \<noteq> {}" and a: "allocate_block s = (k, s')"
  from s(1) a show "k \<in> free_block_set s \<and> free_block_set s' = free_block_set s - {k}"
    by (cases rule: allocate_blockE) (use s in \<open>auto simp: free_block_set_def mark_used_free\<close>)
qed (auto intro: inv_intros)

interpretation inodes: allocator free_inode_set allocate_inode NONE32 fs_shape
proof unfold_locales
  fix s
  show "NONE32 \<notin> free_inode_set s"
    by (simp add: free_inode_set_def)
  show "fs_shape s \<Longrightarrow> free_inode_set s = {} \<Longrightarrow> allocate_inode s = (NONE32, s)"
  proof -
    assume s: "fs_shape s" "free_inode_set s = {}"
    obtain n s' where a: "allocate_inode s = (n, s')" by fastforce
    from s(1) a show ?thesis
      by (cases rule: allocate_inodeE) (use s a in \<open>auto simp: free_inode_set_def\<close>)
  qed
  fix k s'
  assume s: "fs_shape s" "free_inode_set s \<noteq> {}" and a: "allocate_inode s = (k, s')"
  from s(1) a show "k \<in> free_inode_set s \<and> free_inode_set s' = free_inode_set s - {k}"
    by (cases rule: allocate_inodeE)
      (use s in \<open>auto simp: free_inode_set_def inode_upd_inode split: if_splits\<close>)
qed (auto intro: inv_intros)

section \<open>Ownership of blocks\<close>

text \<open>Entry \<open>i\<close> of the block array of inode \<open>n\<close> holds the block \<open>b\<close>; 0 stands for no block.\<close>

definition owns :: "fs \<Rightarrow> u32 \<Rightarrow> nat \<Rightarrow> u32 \<Rightarrow> bool" where
  "owns s n i b \<longleftrightarrow> n < 200 \<and> i < 12 \<and> iblocks (inode_of s n) ! i = b \<and> b \<noteq> 0"

definition fs_inv :: "fs \<Rightarrow> bool" where
  "fs_inv s \<longleftrightarrow> fs_shape s \<and>
     (\<forall>n i b. owns s n i b \<longrightarrow> b < 512 \<and> \<not> is_block_free s b \<and> itype (inode_of s n) \<noteq> 0) \<and>
     (\<forall>n i m j b. owns s n i b \<longrightarrow> owns s m j b \<longrightarrow> n = m \<and> i = j) \<and>
     unat (free_blocks (superblock s)) = card (free_block_set s) \<and>
     unat (free_inodes (superblock s)) = card (free_inode_set s)"

lemma fs_invD:
  assumes "fs_inv s"
  shows "fs_shape s"
    "owns s n i b \<Longrightarrow> b < 512" "owns s n i b \<Longrightarrow> \<not> is_block_free s b"
    "owns s n i b \<Longrightarrow> itype (inode_of s n) \<noteq> 0"
    "owns s n i b \<Longrightarrow> owns s m j b \<Longrightarrow> n = m \<and> i = j"
    "unat (free_blocks (superblock s)) = card (free_block_set s)"
    "unat (free_inodes (superblock s)) = card (free_inode_set s)"
  using assms unfolding fs_inv_def by blast+

lemma fs_invI:
  assumes "fs_shape s"
    "\<And>n i b. owns s n i b \<Longrightarrow> b < 512 \<and> \<not> is_block_free s b \<and> itype (inode_of s n) \<noteq> 0"
    "\<And>n i m j b. owns s n i b \<Longrightarrow> owns s m j b \<Longrightarrow> n = m \<and> i = j"
    "unat (free_blocks (superblock s)) = card (free_block_set s)"
    "unat (free_inodes (superblock s)) = card (free_inode_set s)"
  shows "fs_inv s"
  unfolding fs_inv_def using assms by blast

text \<open>The invariant carried over to a state that agrees on everything it mentions.\<close>

lemma fs_inv_cong:
  assumes "fs_inv s" "fs_shape t" "\<And>n i b. owns t n i b = owns s n i b"
    "\<And>b. is_block_free t b = is_block_free s b"
    "\<And>n. itype (inode_of t n) = 0 \<longleftrightarrow> itype (inode_of s n) = 0"
    "free_blocks (superblock t) = free_blocks (superblock s)"
    "free_inodes (superblock t) = free_inodes (superblock s)"
  shows "fs_inv t"
proof -
  have "free_block_set t = free_block_set s" "free_inode_set t = free_inode_set s"
    using assms by (simp_all add: free_block_set_def free_inode_set_def)
  then show ?thesis
    using assms fs_invD[OF assms(1)] by (intro fs_invI) auto
qed

lemma fs_inv_frame:
  assumes "fs_inv s" "fs_shape t" "superblock t = superblock s"
    "inode_table t = inode_table s" "block_bitmap t = block_bitmap s"
  shows "fs_inv t"
proof -
  have "inode_of t n = inode_of s n" "is_block_free t b = is_block_free s b" for n b
    using assms by (simp_all add: inode_of_def is_block_free_bit)
  with assms show ?thesis by (intro fs_inv_cong[OF assms(1,2)]) (simp_all add: owns_def)
qed

lemma fs_inv_write_dir [inv_intros]: "fs_inv s \<Longrightarrow> dir_shape d \<Longrightarrow> fs_inv (write_dir s b d)"
  by (rule fs_inv_frame) (auto dest: fs_invD intro: inv_intros)

lemma fs_inv_write_inode_block [inv_intros]:
  "fs_inv s \<Longrightarrow> 512 \<le> length buf \<Longrightarrow> fs_inv (write_inode_block s b buf)"
  by (rule fs_inv_frame) (auto dest: fs_invD intro: inv_intros)

lemma fs_inv_sync [inv_intros]:
  "fs_inv s \<Longrightarrow> fs_inv (sync_superblock s)"
  "fs_inv s \<Longrightarrow> fs_inv (sync_inode_table s)"
  "fs_inv s \<Longrightarrow> fs_inv (sync_block_bitmap s)"
  by (rule fs_inv_frame; auto dest: fs_invD intro: inv_intros)+

lemma fs_inv_sector_buffer [inv_intros]:
  "fs_inv s \<Longrightarrow> length w = 512 \<Longrightarrow> fs_inv (s\<lparr>sector_buffer := w\<rparr>)"
  by (rule fs_inv_frame) (auto dest: fs_invD intro: inv_intros)

section \<open>Counters\<close>

lemma card_u32_below: "A \<subseteq> {b::u32. b < 512} \<Longrightarrow> card A \<le> 512"
proof -
  assume A: "A \<subseteq> {b::u32. b < 512}"
  have "inj_on unat A" by (simp add: inj_on_def word_unat_eq_iff)
  moreover have "unat ` A \<subseteq> {..<512}" using A by (auto simp: word_less_nat_alt)
  ultimately show ?thesis
    by (metis card_image card_lessThan card_mono finite_lessThan)
qed

lemma card_free_blocks: "card (free_block_set s) \<le> 512"
  by (rule card_u32_below) (auto simp: free_block_set_def dest: is_block_free_less)

lemma card_free_inodes: "card (free_inode_set s) \<le> 512"
proof (rule card_u32_below)
  show "free_inode_set s \<subseteq> {b. b < 512}"
    by (auto simp: free_inode_set_def word_less_nat_alt)
qed

lemma finite_u32 [simp]: "finite (A :: u32 set)"
  by (rule finite_subset[OF subset_UNIV]) simp

lemma unat_plus_one: "unat (x::u32) \<le> 512 \<Longrightarrow> unat (x + 1) = unat x + 1"
  by (simp add: unat_word_ariths)

lemma counter_insert:
  "b \<notin> A \<Longrightarrow> unat (x::u32) = card A \<Longrightarrow> card A \<le> 512 \<Longrightarrow> unat (x + 1) = card (insert b A)"
  for A :: "u32 set"
  by (simp add: unat_plus_one)

lemma counter_remove: "b \<in> A \<Longrightarrow> unat (x::u32) = card A \<Longrightarrow> unat (x - 1) = card (A - {b})"
  for A :: "u32 set"
proof -
  assume b: "b \<in> A" and x: "unat x = card A"
  then have "card A > 0" by (auto simp: card_gt_0_iff)
  with x have "x \<noteq> 0" by auto
  with b x show ?thesis by (simp add: unat_minus_one card_Diff_singleton)
qed

section \<open>Preservation of the invariant\<close>

lemma owns_frame:
  "inode_table t = inode_table s \<Longrightarrow> owns t n i b = owns s n i b"
  by (simp add: owns_def inode_of_def)

lemma fs_inv_mark_used:
  assumes inv: "fs_inv s" and free: "is_block_free s b"
  shows "fs_inv (mark_block_used s b)"
proof -
  let ?t = "mark_block_used s b"
  note sh = fs_invD(1)[OF inv]
  have set: "free_block_set ?t = free_block_set s - {b}"
    using sh by (auto simp: free_block_set_def mark_used_free)
  have b: "b < 512" "b \<in> free_block_set s"
    using free is_block_free_less by (auto simp: free_block_set_def)
  from counter_remove[OF b(2) fs_invD(6)[OF inv]]
  have "unat (free_blocks (superblock s) - 1) = card (free_block_set ?t)" by (simp only: set)
  moreover have "free_blocks (superblock ?t) = free_blocks (superblock s) - 1"
    using b(1) by (simp add: mark_block_used_def Let_def leD)
  ultimately have "unat (free_blocks (superblock ?t)) = card (free_block_set ?t)"
    by (simp only:)
  moreover have "free_inode_set ?t = free_inode_set s" by (simp add: free_inode_set_def)
  ultimately show ?thesis
    using sh fs_invD(2-5,7)[OF inv]
    by (intro fs_invI) (auto intro: inv_intros simp: owns_frame[of ?t s] mark_used_free)
qed

lemma fs_inv_mark_free:
  assumes inv: "fs_inv s" and used: "\<not> is_block_free s b" "b < 512"
    and not_owned: "\<And>n i. \<not> owns s n i b"
  shows "fs_inv (mark_block_free s b)"
proof -
  let ?t = "mark_block_free s b"
  note sh = fs_invD(1)[OF inv]
  have set: "free_block_set ?t = insert b (free_block_set s)"
    using sh used by (auto simp: free_block_set_def mark_free_free)
  have "b \<notin> free_block_set s" using used by (simp add: free_block_set_def)
  from counter_insert[OF this fs_invD(6)[OF inv] card_free_blocks]
  have "unat (free_blocks (superblock s) + 1) = card (free_block_set ?t)" by (simp only: set)
  moreover have "free_blocks (superblock ?t) = free_blocks (superblock s) + 1"
    using used(2) by (simp add: mark_block_free_def Let_def leD)
  ultimately have "unat (free_blocks (superblock ?t)) = card (free_block_set ?t)"
    by (simp only:)
  moreover have "free_inode_set ?t = free_inode_set s" by (simp add: free_inode_set_def)
  moreover have own: "owns ?t n i c = owns s n i c" for n i c
    by (rule owns_frame) simp
  moreover have "c < 512 \<and> \<not> is_block_free ?t c \<and> itype (inode_of s n) \<noteq> 0"
    if o: "owns s n i c" for n i c
  proof -
    from o not_owned have "c \<noteq> b" by blast
    then show ?thesis by (simp add: mark_free_free[OF sh] fs_invD(2-4)[OF inv o])
  qed
  ultimately show ?thesis
    using sh fs_invD(5,7)[OF inv] by (intro fs_invI) (simp_all add: inv_intros)
qed

text \<open>Changing fields of an inode other than its blocks, without freeing it.\<close>

lemma fs_inv_upd_fields:
  assumes inv: "fs_inv s" and n: "n < 200" and f: "\<And>x. iblocks (f x) = iblocks x"
    and ty: "itype (f (inode_of s n)) = 0 \<longleftrightarrow> itype (inode_of s n) = 0"
  shows "fs_inv (upd_inode s n f)"
proof -
  note sh = fs_invD(1)[OF inv]
  have "inode_shape (f (inode_of s n))"
    using inode_shape_of[OF sh n] f by (simp add: inode_shape_def)
  then have sh': "fs_shape (upd_inode s n f)" using sh n by (intro inv_intros)
  have own: "owns (upd_inode s n f) m i b = owns s m i b" for m i b
    using f by (auto simp: owns_def inode_upd_inode[OF sh n])
  have "itype (inode_of (upd_inode s n f) m) = 0 \<longleftrightarrow> itype (inode_of s m) = 0" for m
    using ty by (simp add: inode_upd_inode[OF sh n])
  then show ?thesis by (intro fs_inv_cong[OF inv sh']) (simp_all only: own is_block_free_frame upd_inode_simps)
qed

lemma fs_inv_set_block:
  assumes inv: "fs_inv s" and n: "n < 200" "i < 12" "itype (inode_of s n) \<noteq> 0"
    and b: "b < 512" "\<not> is_block_free s b" "\<And>m j. \<not> owns s m j b"
    and f: "f = (\<lambda>x. x\<lparr>iblocks := (iblocks x)[i := b]\<rparr>)"
  shows "fs_inv (upd_inode s n f)"
proof -
  note sh = fs_invD(1)[OF inv]
  have il: "length (iblocks (inode_of s n)) = 12"
    using inode_shape_of[OF sh n(1)] by (simp add: inode_shape_def)
  then have "inode_shape (f (inode_of s n))" using f by (simp add: inode_shape_def)
  then have sh': "fs_shape (upd_inode s n f)" using sh n by (intro inv_intros)
  have own: "owns (upd_inode s n f) m j c \<longleftrightarrow>
      (if m = n \<and> j = i then c = b \<and> b \<noteq> 0 else owns s m j c)" for m j c
    using f n il by (auto simp: owns_def inode_upd_inode[OF sh n(1)] nth_list_update)
  have ty: "itype (inode_of (upd_inode s n f) m) = itype (inode_of s m)" for m
    using f by (simp add: inode_upd_inode[OF sh n(1)])
  have "owns (upd_inode s n f) m j c \<Longrightarrow>
      c < 512 \<and> \<not> is_block_free s c \<and> itype (inode_of s m) \<noteq> 0" for m j c
    using own[of m j c] b n fs_invD(2-4)[OF inv] by (auto split: if_splits)
  moreover have "owns (upd_inode s n f) m j c \<Longrightarrow> owns (upd_inode s n f) m' j' c \<Longrightarrow>
      m = m' \<and> j = j'" for m j m' j' c
    using own[of m j c] own[of m' j' c] b(3) fs_invD(5)[OF inv, of m j c m' j']
    by (auto split: if_splits)
  moreover have "free_block_set (upd_inode s n f) = free_block_set s"
    "free_inode_set (upd_inode s n f) = free_inode_set s"
    using ty by (simp_all add: free_block_set_def free_inode_set_def)
  ultimately show ?thesis
    using sh' ty fs_invD(6,7)[OF inv] by (intro fs_invI) auto
qed

section \<open>The allocators keep the invariant\<close>

lemma fs_inv_allocate_block [inv_intros]: "fs_inv s \<Longrightarrow> fs_inv (snd (allocate_block s))"
  using allocate_blockE[OF fs_invD(1), of s "fst (allocate_block s)" "snd (allocate_block s)"]
  by (metis fs_inv_mark_used prod.collapse)

lemma allocate_block_not_owned:
  assumes "fs_inv s" "is_block_free s b"
  shows "\<not> owns s n i b"
  using assms fs_invD(3) by blast

lemma fs_inv_allocate_inode [inv_intros]:
  assumes inv: "fs_inv s"
  shows "fs_inv (snd (allocate_inode s))"
proof -
  note sh = fs_invD(1)[OF inv]
  obtain n t where a: "allocate_inode s = (n, t)" by fastforce
  from sh a show ?thesis
  proof (cases rule: allocate_inodeE)
    case full
    with inv a show ?thesis by simp
  next
    case taken
    let ?f = "\<lambda>x. x\<lparr>itype := 1, isize := 0, parent_inode := 0, iblocks := replicate 12 0\<rparr>"
    have blk: "j < 12 \<Longrightarrow> iblocks (inode_of s n) ! j = 0" for j
      using fs_invD(4)[OF inv, of n j] taken(1,2) by (auto simp: owns_def)
    have io: "inode_of t m = (if m = n then ?f (inode_of s n) else inode_of s m)" for m
      by (simp add: taken(3) inode_upd_inode[OF sh taken(1)])
    have own: "owns t m j b = owns s m j b" for m j b
      using blk by (auto simp: owns_def io)
    have sht: "fs_shape t" using fs_shape_allocate_inode[OF sh] a by simp
    have ni: "n \<in> free_inode_set s" using taken(1,2) by (simp add: free_inode_set_def)
    have fi: "free_inode_set t = free_inode_set s - {n}" by (auto simp: free_inode_set_def io)
    have fb: "free_block_set t = free_block_set s" by (simp add: free_block_set_def taken(3))
    have bf: "is_block_free t b = is_block_free s b" for b by (simp add: taken(3))
    have ty: "itype (inode_of t m) \<noteq> 0" if "owns s m j b" for m j b
      using fs_invD(4)[OF inv that] by (simp add: io)
    have c: "unat (free_inodes (superblock t)) = card (free_inode_set t)"
      unfolding fi using counter_remove[OF ni fs_invD(7)[OF inv]] by (simp add: taken(3))
    have fbl: "free_blocks (superblock t) = free_blocks (superblock s)" by (simp add: taken(3))
    have "fs_inv t"
      using sht c fs_invD(6)[OF inv] fs_invD(2,3,5)[OF inv] ty
      by (intro fs_invI) (auto simp only: own bf fb fbl)
    with a show ?thesis by simp
  qed
qed

section \<open>Freeing an inode\<close>

lemma list_update_id_conv: "xs ! k = x \<Longrightarrow> xs[k := x] = xs"
  by (metis list_update_id)

lemma free_inode_step_spec:
  assumes inv: "fs_inv s" and n: "n < 200" and k: "k < 12"
  defines "t \<equiv> free_inode_step n k s"
  shows "fs_inv t"
    "inode_of t m = (if m = n then (inode_of s n)\<lparr>iblocks := (iblocks (inode_of s n))[k := 0]\<rparr>
       else inode_of s m)"
    "is_block_free t b \<longleftrightarrow> is_block_free s b \<or> owns s n k b"
    "disk t = disk s" "sector_buffer t = sector_buffer s"
    "root_inode (superblock t) = root_inode (superblock s)"
    "free_inodes (superblock t) = free_inodes (superblock s)"
proof -
  let ?b = "iblocks (inode_of s n) ! k"
  note sh = fs_invD(1)[OF inv]
  have il: "length (iblocks (inode_of s n)) = 12"
    using inode_shape_of[OF sh n] by (simp add: inode_shape_def)
  show "fs_inv t"
  proof (cases "?b = 0")
    case True
    with inv show ?thesis by (simp add: t_def free_inode_step_def)
  next
    case False
    with n k have o: "owns s n k ?b" by (simp add: owns_def)
    let ?f = "\<lambda>x. x\<lparr>iblocks := (iblocks x)[k := 0]\<rparr>"
    let ?u = "upd_inode s n ?f"
    \<comment> \<open>clearing the entry and freeing the block commute\<close>
    have t: "t = mark_block_free ?u ?b"
      using False by (simp add: t_def free_inode_step_def Let_def upd_inode_def mark_block_free_def)
    have shu: "fs_shape ?u"
      using sh n il by (intro inv_intros) (simp_all add: inode_shape_def)
    have own: "owns ?u m j c \<longleftrightarrow> owns s m j c \<and> \<not> (m = n \<and> j = k)" for m j c
      using n k il by (auto simp: owns_def inode_upd_inode[OF sh n] nth_list_update)
    have ty: "itype (inode_of ?u m) = itype (inode_of s m)" for m
      by (simp add: inode_upd_inode[OF sh n])
    have "free_block_set ?u = free_block_set s" "free_inode_set ?u = free_inode_set s"
      by (simp_all add: free_block_set_def free_inode_set_def ty)
    then have invu: "fs_inv ?u"
      using shu fs_invD(2-7)[OF inv] by (intro fs_invI) (auto simp: own ty)
    have "\<not> owns ?u m j ?b" for m j
      using own fs_invD(5)[OF inv o] by blast
    then show ?thesis
      unfolding t using invu fs_invD(2,3)[OF inv o] by (intro fs_inv_mark_free) simp_all
  qed
  show "inode_of t m = (if m = n then (inode_of s n)\<lparr>iblocks := (iblocks (inode_of s n))[k := 0]\<rparr>
       else inode_of s m)"
    by (auto simp: list_update_id_conv t_def free_inode_step_def Let_def inode_upd_inode[OF fs_shape_mark_free[OF sh] n])
  show "is_block_free t b \<longleftrightarrow> is_block_free s b \<or> owns s n k b"
    using n k fs_invD(2)[OF inv, of n k b]
    by (auto simp: t_def free_inode_step_def Let_def mark_free_free[OF sh] owns_def)
  show "disk t = disk s" "sector_buffer t = sector_buffer s"
    "root_inode (superblock t) = root_inode (superblock s)"
    "free_inodes (superblock t) = free_inodes (superblock s)"
    by (simp_all add: t_def free_inode_step_def Let_def)
qed

lemma free_inode_loop:
  assumes inv: "fs_inv s" and n: "n < 200" and k: "k \<le> 12"
  defines "t \<equiv> fold (free_inode_step n) [0..<k] s"
  shows "fs_inv t \<and> (\<forall>m. m \<noteq> n \<longrightarrow> inode_of t m = inode_of s m) \<and>
    itype (inode_of t n) = itype (inode_of s n) \<and>
    (\<forall>j < 12. iblocks (inode_of t n) ! j = (if j < k then 0 else iblocks (inode_of s n) ! j)) \<and>
    (\<forall>b. is_block_free t b \<longleftrightarrow> is_block_free s b \<or> (\<exists>j < k. owns s n j b)) \<and>
    disk t = disk s \<and> sector_buffer t = sector_buffer s \<and>
    root_inode (superblock t) = root_inode (superblock s) \<and>
    free_inodes (superblock t) = free_inodes (superblock s)"
  using k unfolding t_def
proof (induction k)
  case 0
  with inv show ?case by simp
next
  case (Suc k)
  let ?t = "fold (free_inode_step n) [0..<k] s"
  have k: "k < 12" using Suc.prems by simp
  have IH: "fs_inv ?t" "m \<noteq> n \<Longrightarrow> inode_of ?t m = inode_of s m"
    "itype (inode_of ?t n) = itype (inode_of s n)"
    "j < 12 \<Longrightarrow> iblocks (inode_of ?t n) ! j = (if j < k then 0 else iblocks (inode_of s n) ! j)"
    "is_block_free ?t b \<longleftrightarrow> is_block_free s b \<or> (\<exists>j < k. owns s n j b)"
    "disk ?t = disk s" "sector_buffer ?t = sector_buffer s"
    "root_inode (superblock ?t) = root_inode (superblock s)"
    "free_inodes (superblock ?t) = free_inodes (superblock s)" for m j b
    using Suc by auto
  note st = free_inode_step_spec[OF IH(1) n k]
  have il: "length (iblocks (inode_of ?t n)) = 12"
    using inode_shape_of[OF fs_invD(1)[OF IH(1)] n] by (simp add: inode_shape_def)
  have "owns ?t n k b = owns s n k b" for b
    using IH(4)[OF k] by (simp add: owns_def)
  then show ?case
    using st IH il k by (auto simp: nth_list_update less_Suc_eq)
qed

text \<open>
  The whole of \<open>free_inode\<close>: the blocks of the inode become free, its entry becomes free, and
  nothing else changes.
\<close>

lemma free_inode_spec:
  assumes inv: "fs_inv s" and n: "n < 200" and ty: "itype (inode_of s n) \<noteq> 0"
  defines "t \<equiv> free_inode s n"
  shows "fs_inv t" "m \<noteq> n \<Longrightarrow> inode_of t m = inode_of s m" "itype (inode_of t n) = 0"
    "is_block_free t b \<longleftrightarrow> is_block_free s b \<or> (\<exists>j. owns s n j b)"
    "disk t = disk s" "sector_buffer t = sector_buffer s"
    "root_inode (superblock t) = root_inode (superblock s)"
proof -
  let ?l = "fold (free_inode_step n) [0..<12] s"
  let ?f = "\<lambda>x. x\<lparr>itype := 0, isize := 0\<rparr>"
  have L: "fs_inv ?l" "m \<noteq> n \<Longrightarrow> inode_of ?l m = inode_of s m"
    "itype (inode_of ?l n) = itype (inode_of s n)"
    "j < 12 \<Longrightarrow> iblocks (inode_of ?l n) ! j = 0"
    "is_block_free ?l b \<longleftrightarrow> is_block_free s b \<or> (\<exists>j < 12. owns s n j b)"
    "disk ?l = disk s" "sector_buffer ?l = sector_buffer s"
    "root_inode (superblock ?l) = root_inode (superblock s)"
    "free_inodes (superblock ?l) = free_inodes (superblock s)" for m j b
    using free_inode_loop[OF inv n, of 12] by auto
  note sh = fs_invD(1)[OF L(1)]
  have t: "t = (upd_inode ?l n ?f)\<lparr>superblock :=
      (superblock ?l)\<lparr>free_inodes := free_inodes (superblock ?l) + 1\<rparr>\<rparr>"
    using n by (simp add: t_def free_inode_def Let_def leD)
  have io: "inode_of t m = (if m = n then ?f (inode_of ?l n) else inode_of ?l m)" for m
    by (simp add: t inode_upd_inode[OF sh n])
  have bf: "is_block_free t b = is_block_free ?l b" for b by (simp add: t)
  have own: "owns t m j b \<longleftrightarrow> owns ?l m j b" for m j b by (auto simp: owns_def io)
  have no: "\<not> owns ?l n j b" for j b using L(4) by (auto simp: owns_def)
  have sht: "fs_shape t"
    using sh n inode_shape_of[OF sh n] unfolding t
    by (intro inv_intros) (simp_all add: inode_shape_def fs_shape_def superblock_shape_def)
  have fi: "free_inode_set t = insert n (free_inode_set ?l)" using n by (auto simp: free_inode_set_def io)
  have nf: "n \<notin> free_inode_set ?l" using ty L(3) by (simp add: free_inode_set_def)
  have ci: "unat (free_inodes (superblock t)) = card (free_inode_set t)"
    unfolding fi using counter_insert[OF nf fs_invD(7)[OF L(1)] card_free_inodes] by (simp add: t)
  have cb: "unat (free_blocks (superblock t)) = card (free_block_set t)"
    using fs_invD(6)[OF L(1)] by (simp add: t free_block_set_def)
  have o: "b < 512 \<and> \<not> is_block_free t b \<and> itype (inode_of t m) \<noteq> 0"
    if "owns t m j b" for m j b
    using that no fs_invD(2-4)[OF L(1), of m j b] by (auto simp: own bf io)
  show "fs_inv t"
    using sht ci cb o fs_invD(5)[OF L(1)] by (intro fs_invI) (auto simp only: own)
  show "m \<noteq> n \<Longrightarrow> inode_of t m = inode_of s m" "itype (inode_of t n) = 0"
    by (simp_all add: io L)
  show "is_block_free t b \<longleftrightarrow> is_block_free s b \<or> (\<exists>j. owns s n j b)"
    by (auto simp: bf L(5) owns_def)
  show "disk t = disk s" "sector_buffer t = sector_buffer s"
    "root_inode (superblock t) = root_inode (superblock s)"
    using L by (simp_all add: t)
qed

end
