(* ===== verification/FsPath.thy ===== *)
theory FsPath
  imports FsInv
begin

text \<open>
  Paths of \<open>fs/filesystem.c\<close>: \<open>normalize_path\<close>, \<open>split_path\<close> and \<open>find_inode_by_path\<close>. A path
  argument is the contents of a C string, without the NUL; the local buffers of 256 and 28 bytes
  are bounded, and \<open>None\<close> is a write past their end. The reference is the list of path
  components: normalising a path renders its components, splitting takes the last one off, and
  finding an inode resolves them one by one.
\<close>

section \<open>\<open>normalize_path\<close>\<close>

abbreviation (input) SLASH :: u8 where "SLASH \<equiv> 47"

text \<open>\<open>normalized[j++] = c\<close>, with \<open>j\<close> the length of what has been written to \<open>char normalized[256]\<close>.\<close>

definition put :: "bytes \<Rightarrow> u8 \<Rightarrow> bytes option" where
  "put out c = (if length out < 256 then Some (out @ [c]) else None)"

fun norm_loop :: "bytes \<Rightarrow> bytes \<Rightarrow> bool \<Rightarrow> bytes option" where
  "norm_loop [] out last_was_slash = Some out"
| "norm_loop (c # p) out last_was_slash =
     (if c = SLASH then
        if \<not> last_was_slash \<and> out \<noteq> [] then do { out' \<leftarrow> put out SLASH; norm_loop p out' True }
        else if out = [] then do { out' \<leftarrow> put out SLASH; norm_loop p out' True }
        else norm_loop p out last_was_slash
      else do { out' \<leftarrow> put out c; norm_loop p out' False })"

text \<open>\<open>if (j > 1 && normalized[j-1] == '/') j--;\<close>\<close>

definition trim_slash :: "bytes \<Rightarrow> bytes" where
  "trim_slash out = (if 1 < length out \<and> last out = SLASH then butlast out else out)"

definition normalize_path :: "bytes \<Rightarrow> bytes option" where
  "normalize_path path = do {
     out0 \<leftarrow> (if path = [] \<or> hd path \<noteq> SLASH then put [] SLASH else Some []);
     out1 \<leftarrow> norm_loop path out0 (path \<noteq> [] \<and> hd path = SLASH);
     let out = trim_slash out1;
     if length out < 256 then Some (if out = [] then [SLASH] else out) else None }"

section \<open>\<open>split_path\<close>\<close>

text \<open>The scan for the last slash: the position in \<open>p\<close> and the last slash seen.\<close>

fun last_slash :: "bytes \<Rightarrow> nat \<Rightarrow> nat \<Rightarrow> nat" where
  "last_slash [] i found = found"
| "last_slash (c # p) i found = last_slash p (Suc i) (if c = SLASH then i else found)"

text \<open>\<open>name_size\<close> is the size of the caller's buffer for the name, 28 in every call.\<close>

definition split_path :: "bytes \<Rightarrow> nat \<Rightarrow> (bytes \<times> bytes) option" where
  "split_path path name_size = do {
     normalized \<leftarrow> normalize_path path;
     if normalized = [SLASH] then Some ([SLASH], [])
     else let k = last_slash normalized 0 0;
              parent = (if k = 0 then [SLASH] else take k normalized);
              name = drop (k + 1) normalized
          in if length name < name_size then Some (parent, name) else None }"

section \<open>\<open>find_inode_by_path\<close>\<close>

text \<open>
  The loop over the directory entries. \<open>entry_has_name\<close> is \<open>strcmp(entry.name, component) == 0\<close>;
  both strings are NUL-terminated within 28 bytes or differ before that.
\<close>

definition entry_has_name :: "fs_dir_entry \<Rightarrow> bytes \<Rightarrow> bool" where
  "entry_has_name e name \<longleftrightarrow> cstr (ename e) = name"

definition find_entry :: "fs_dir_block \<Rightarrow> bytes \<Rightarrow> fs_dir_entry option" where
  "find_entry d name = find (\<lambda>e. in_use e = 1 \<and> entry_has_name e name) d"

text \<open>One round of the loop over the path components, up to \<open>current_inode = found_inode\<close>.\<close>

definition lookup :: "fs \<Rightarrow> u32 \<Rightarrow> bytes \<Rightarrow> u32" where
  "lookup s current component =
     (if FS_MAX_FILENAME \<le> length component then NONE32
      else if 200 \<le> current then NONE32
      else if itype (inode_of s current) \<noteq> INODE_TYPE_DIR then NONE32
      else let b = iblocks (inode_of s current) ! 0 in
        if b = 0 \<or> 512 \<le> b then NONE32
        else case find_entry (read_dir s b) component of
               None \<Rightarrow> NONE32
             | Some e \<Rightarrow> einode e)"

lemma dropWhile_shorter: "dropWhile P p = c # r \<Longrightarrow> length r < length p"
  using length_dropWhile_le[of P p] by simp

function walk :: "fs \<Rightarrow> u32 \<Rightarrow> bytes \<Rightarrow> u32" where
  "walk s current p =
     (if p = [] then current
      else let found = lookup s current (takeWhile (\<lambda>c. c \<noteq> SLASH) p) in
        if found = NONE32 then NONE32
        else case dropWhile (\<lambda>c. c \<noteq> SLASH) p of
               [] \<Rightarrow> found
             | c # p' \<Rightarrow> (if p' = [] then found else walk s found p'))"
  by pat_completeness auto
termination
  by (relation "measure (\<lambda>(s, c, p). length p)") (auto dest: dropWhile_shorter)

declare walk.simps [simp del]

definition find_inode_by_path :: "fs \<Rightarrow> bytes \<Rightarrow> u32 option" where
  "find_inode_by_path s path = do {
     normalized \<leftarrow> normalize_path path;
     Some (if normalized = [SLASH] then root_inode (superblock s)
           else walk s (root_inode (superblock s)) (tl normalized)) }"

section \<open>Reference: the components of a path\<close>

fun comps :: "bytes \<Rightarrow> bytes \<Rightarrow> bytes list" where
  "comps [] cur = (if cur = [] then [] else [cur])"
| "comps (c # p) cur =
     (if c = SLASH then (if cur = [] then comps p [] else cur # comps p []) else comps p (cur @ [c]))"

definition components :: "bytes \<Rightarrow> bytes list" where
  "components p = comps p []"

definition render :: "bytes list \<Rightarrow> bytes" where
  "render cs = concat (map (\<lambda>c. SLASH # c) cs)"

definition abs_path :: "bytes list \<Rightarrow> bytes" where
  "abs_path cs = (if cs = [] then [SLASH] else render cs)"

definition component :: "bytes \<Rightarrow> bool" where
  "component c \<longleftrightarrow> c \<noteq> [] \<and> SLASH \<notin> set c"

fun resolve :: "fs \<Rightarrow> u32 \<Rightarrow> bytes list \<Rightarrow> u32" where
  "resolve s current [] = current"
| "resolve s current (c # cs) =
     (let found = lookup s current c in if found = NONE32 then NONE32 else resolve s found cs)"

section \<open>Lemmas: components\<close>

lemma render_simps [simp]:
  "render [] = []" "render (c # cs) = SLASH # c @ render cs" "render (as @ bs) = render as @ render bs"
  by (simp_all add: render_def)

lemma comps_component:
  "SLASH \<notin> set cur \<Longrightarrow> c \<in> set (comps p cur) \<Longrightarrow> component c"
  by (induction p cur rule: comps.induct) (auto simp: component_def split: if_splits)

lemma components_component: "c \<in> set (components p) \<Longrightarrow> component c"
  using comps_component[of "[]" c p] by (simp add: components_def)

lemma comps_prefix: "SLASH \<notin> set c \<Longrightarrow> comps (c @ p) cur = comps p (cur @ c)"
  by (induction c arbitrary: cur) auto

lemma comps_render:
  "cur \<noteq> [] \<Longrightarrow> \<forall>c \<in> set cs. component c \<Longrightarrow> comps (render cs) cur = cur # cs"
proof (induction cs arbitrary: cur)
  case (Cons c cs)
  then show ?case by (simp add: comps_prefix component_def)
qed simp

lemma components_render: "\<forall>c \<in> set cs. component c \<Longrightarrow> components (render cs) = cs"
  by (cases cs) (auto simp: components_def comps_prefix comps_render component_def)

lemma components_abs_path [simp]: "\<forall>c \<in> set cs. component c \<Longrightarrow> components (abs_path cs) = cs"
  by (auto simp: abs_path_def components_render) (simp add: components_def)

lemma c_string_comps: "c_string p \<Longrightarrow> c_string cur \<Longrightarrow> c \<in> set (comps p cur) \<Longrightarrow> c_string c"
  by (induction p cur rule: comps.induct) (auto split: if_splits)

lemma c_string_components: "c_string p \<Longrightarrow> c \<in> set (components p) \<Longrightarrow> c_string c"
  using c_string_comps[of p "[]" c] by (simp add: components_def)

lemma length_comps: "length (render (comps p cur)) \<le> length p + length cur + 1"
  by (induction p cur rule: comps.induct) (auto simp: le_Suc_eq split: if_splits)

lemma render_last: "component c \<Longrightarrow> last (render (cs @ [c])) \<noteq> SLASH"
  by (cases c rule: rev_cases) (auto simp: component_def)

section \<open>Lemmas: normalisation renders the components\<close>

lemma put_Some [simp]: "put out c = Some o' \<longleftrightarrow> length out < 256 \<and> o' = out @ [c]"
  by (auto simp: put_def)

lemma norm_loop_inv:
  "norm_loop p (render ds @ SLASH # cur) (cur = []) = Some out \<Longrightarrow>
   out = render (ds @ comps p cur) \<or> out = render (ds @ comps p cur) @ [SLASH]"
proof (induction p arbitrary: ds cur)
  case Nil
  then show ?case by auto
next
  case (Cons c p)
  show ?case
  proof (cases "c = SLASH")
    case True
    show ?thesis
    proof (cases "cur = []")
      case True
      with Cons.IH[of ds "[]"] Cons.prems \<open>c = SLASH\<close> show ?thesis by simp
    next
      case False
      with Cons.prems \<open>c = SLASH\<close>
      have "norm_loop p (render (ds @ [cur]) @ SLASH # []) ([] = ([]::bytes)) = Some out"
        by (auto simp: Option.bind_eq_Some_conv)
      from Cons.IH[OF this] False \<open>c = SLASH\<close> show ?thesis by simp
    qed
  next
    case False
    with Cons.prems have "norm_loop p (render ds @ SLASH # (cur @ [c])) (cur @ [c] = []) = Some out"
      by (auto simp: Option.bind_eq_Some_conv)
    from Cons.IH[OF this] False show ?thesis by simp
  qed
qed

lemma norm_loop_length:
  "norm_loop p out b = Some out' \<Longrightarrow> length out \<le> length out'"
  by (induction p out b rule: norm_loop.induct) (auto simp: Option.bind_eq_Some_conv split: if_splits)

lemma norm_loop_defined:
  "length out + length p \<le> 256 \<Longrightarrow> \<exists>out'. norm_loop p out b = Some out'"
  by (induction p out b rule: norm_loop.induct) (auto simp: put_def)

lemma norm_loop_bound:
  "norm_loop p out b = Some out' \<Longrightarrow> length out' \<le> length out + length p"
  by (induction p out b rule: norm_loop.induct)
    (fastforce simp: Option.bind_eq_Some_conv split: if_splits)+

lemma normalize_loop:
  assumes "normalize_path p = Some q"
  obtains out where "out = render (components p) \<or> out = render (components p) @ [SLASH]"
    "out \<noteq> []"
    "q = trim_slash out"
proof (cases "p = [] \<or> hd p \<noteq> SLASH")
  case True
  with assms obtain out where o: "norm_loop p [SLASH] False = Some out"
    and q: "q = (if trim_slash out = [] then [SLASH] else trim_slash out)"
    by (auto simp: normalize_path_def Option.bind_eq_Some_conv put_def Let_def split: if_splits)
  have ne: "out \<noteq> []" using norm_loop_length[OF o] by auto
  have "out = render (components p) \<or> out = render (components p) @ [SLASH]"
  proof (cases p)
    case Nil
    with o show ?thesis by (simp add: components_def)
  next
    case (Cons c r)
    with True o have "norm_loop r (render [] @ SLASH # [c]) ([c] = []) = Some out"
      by (auto simp: Option.bind_eq_Some_conv)
    from norm_loop_inv[OF this] Cons True show ?thesis by (simp add: components_def)
  qed
  then show ?thesis using that ne q by (auto simp: trim_slash_def butlast_conv_take split: if_splits)
next
  case False
  then obtain r where p: "p = SLASH # r" by (cases p) auto
  with assms obtain out where o: "norm_loop p [] True = Some out"
    and q: "q = (if trim_slash out = [] then [SLASH] else trim_slash out)"
    by (auto simp: normalize_path_def Option.bind_eq_Some_conv Let_def split: if_splits)
  from o p have r: "norm_loop r (render [] @ SLASH # []) ([] = ([]::bytes)) = Some out"
    by (auto simp: Option.bind_eq_Some_conv)
  have ne: "out \<noteq> []" using norm_loop_length[OF r] by auto
  from norm_loop_inv[OF r] p
  have "out = render (components p) \<or> out = render (components p) @ [SLASH]"
    by (simp add: components_def)
  then show ?thesis using that ne q by (auto simp: trim_slash_def butlast_conv_take split: if_splits)
qed

lemma normalize_path_abs:
  assumes "normalize_path p = Some q"
  shows "q = abs_path (components p)"
proof -
  from assms obtain out where
    o: "out = render (components p) \<or> out = render (components p) @ [SLASH]" "out \<noteq> []"
    and q: "q = trim_slash out"
    by (rule normalize_loop)
  show ?thesis
  proof (cases "components p" rule: rev_cases)
    case Nil
    with o q show ?thesis by (auto simp: abs_path_def trim_slash_def)
  next
    case (snoc cs c)
    then have "component c" using components_component[of c p] by simp
    from render_last[OF this, of cs] o q snoc show ?thesis
      by (auto simp: abs_path_def component_def trim_slash_def butlast_append)
  qed
qed

lemma normalize_path_defined: "length p \<le> 254 \<Longrightarrow> \<exists>q. normalize_path p = Some q"
proof -
  assume p: "length p \<le> 254"
  let ?o = "if p = [] \<or> hd p \<noteq> SLASH then [SLASH] else []"
  have "length ?o + length p \<le> 255" using p by simp
  then obtain out where out: "norm_loop p ?o (p \<noteq> [] \<and> hd p = SLASH) = Some out"
    using norm_loop_defined[of ?o p] by fastforce
  have "length out \<le> 255"
    using norm_loop_bound[OF out] \<open>length ?o + length p \<le> 255\<close> by linarith
  with out show ?thesis
    by (cases "p = [] \<or> hd p \<noteq> SLASH") (auto simp: normalize_path_def put_def Let_def trim_slash_def)
qed

lemma normalize_path_eq:
  "length p \<le> 254 \<Longrightarrow> normalize_path p = Some (abs_path (components p))"
  using normalize_path_defined normalize_path_abs by blast

lemma normalize_path_length: "normalize_path p = Some q \<Longrightarrow> length q < 256 \<and> q \<noteq> []"
  by (auto simp: normalize_path_def Option.bind_eq_Some_conv Let_def split: if_splits)

section \<open>Lemmas: splitting takes the last component off\<close>

lemma last_slash_none: "SLASH \<notin> set p \<Longrightarrow> last_slash p i found = found"
  by (induction p arbitrary: i) auto

lemma last_slash_append:
  "SLASH \<notin> set c \<Longrightarrow> last_slash (p @ SLASH # c) i found = i + length p"
  by (induction p arbitrary: i found) (auto simp: last_slash_none)

lemma abs_path_ne_slash: "component c \<Longrightarrow> render (cs @ [c]) \<noteq> [SLASH]"
  by (cases cs) (auto simp: component_def)

lemma split_path_root:
  "normalize_path p = Some q \<Longrightarrow> components p = [] \<Longrightarrow> split_path p k = Some ([SLASH], [])"
  using normalize_path_abs[of p q] by (simp add: split_path_def abs_path_def)

lemma split_path_snoc:
  assumes n: "normalize_path p = Some q" and c: "components p = cs @ [c]"
  shows "split_path p k = (if length c < k then Some (abs_path cs, c) else None)"
proof -
  have q: "q = render cs @ SLASH # c"
    using normalize_path_abs[OF n] c by (simp add: abs_path_def)
  have comp: "component c" using components_component[of c p] c by simp
  then have ls: "last_slash q 0 0 = length (render cs)"
    by (simp add: q last_slash_append component_def)
  have "q \<noteq> [SLASH]" using abs_path_ne_slash[OF comp, of cs] q by simp
  moreover have "(render cs = []) = (cs = [])" by (cases cs) auto
  moreover have "drop (length (render cs) + 1) q = c" "take (length (render cs)) q = render cs"
    "length q = length (render cs) + 1 + length c"
    by (simp_all add: q)
  ultimately show ?thesis
    by (simp add: split_path_def n ls Let_def abs_path_def)
qed

lemma split_path_cases:
  assumes "split_path p k = Some (parent, name)"
  obtains (top) "components p = []" "parent = [SLASH]" "name = []"
    | (below) cs where "components p = cs @ [name]" "parent = abs_path cs" "component name"
        "length name < k"
proof -
  from assms obtain q where q: "normalize_path p = Some q"
    by (auto simp: split_path_def Option.bind_eq_Some_conv)
  show ?thesis
  proof (cases "components p" rule: rev_cases)
    case Nil
    with q assms top show ?thesis by (simp add: split_path_root)
  next
    case (snoc cs c)
    then have "component c" using components_component[of c p] by simp
    with split_path_snoc[OF q snoc, of k] assms snoc below show ?thesis
      by (auto split: if_splits)
  qed
qed

text \<open>The parent of a path is shorter than the path, unless it is the root.\<close>

lemma split_path_shorter:
  assumes "split_path p k = Some (parent, name)" "parent \<noteq> [SLASH]"
  shows "length parent < length p"
  using assms(1)
proof (cases rule: split_path_cases)
  case (below cs)
  then have "length (render (components p)) = length parent + Suc (length name)"
    using assms(2) by (auto simp: abs_path_def)
  moreover have "length (render (components p)) \<le> length p + 1"
    using length_comps[of p "[]"] by (simp add: components_def)
  moreover have "length name > 0" using below by (auto simp: component_def)
  ultimately show ?thesis by linarith
qed (use assms in simp)

section \<open>Lemmas: finding resolves the components\<close>

lemma takeWhile_component:
  "SLASH \<notin> set c \<Longrightarrow> takeWhile (\<lambda>x. x \<noteq> SLASH) (c @ SLASH # r) = c"
  "SLASH \<notin> set c \<Longrightarrow> dropWhile (\<lambda>x. x \<noteq> SLASH) (c @ SLASH # r) = SLASH # r"
  "SLASH \<notin> set c \<Longrightarrow> takeWhile (\<lambda>x. x \<noteq> SLASH) c = c"
  "SLASH \<notin> set c \<Longrightarrow> dropWhile (\<lambda>x. x \<noteq> SLASH) c = []"
  by (induction c) auto

lemma walk_resolve:
  "\<forall>c \<in> set (c0 # cs). component c \<Longrightarrow> walk s cur (c0 @ render cs) = resolve s cur (c0 # cs)"
proof (induction cs arbitrary: cur c0)
  case Nil
  then show ?case
    by (subst walk.simps) (simp add: component_def takeWhile_component Let_def)
next
  case (Cons c1 cs)
  then have "walk s (lookup s cur c0) (c1 @ render cs) = resolve s (lookup s cur c0) (c1 # cs)"
    by simp
  with Cons.prems show ?case
    by (subst walk.simps) (auto simp: component_def takeWhile_component Let_def)
qed

lemma find_inode_resolve:
  assumes "normalize_path p = Some q"
  shows "find_inode_by_path s p = Some (resolve s (root_inode (superblock s)) (components p))"
proof (cases "components p")
  case Nil
  with assms normalize_path_abs[OF assms] show ?thesis
    by (simp add: find_inode_by_path_def abs_path_def)
next
  case (Cons c cs)
  have comp: "\<forall>x \<in> set (c # cs). component x" using components_component[of _ p] Cons by auto
  have q: "q = SLASH # c @ render cs" using normalize_path_abs[OF assms] Cons by (simp add: abs_path_def)
  then have "q \<noteq> [SLASH]" "tl q = c @ render cs" using comp by (auto simp: component_def)
  with walk_resolve[OF comp] assms Cons show ?thesis
    by (simp add: find_inode_by_path_def del: resolve.simps)
qed

lemma find_inode_defined:
  "find_inode_by_path s p = Some n \<Longrightarrow>
   n = resolve s (root_inode (superblock s)) (components p) \<and> (\<exists>q. normalize_path p = Some q)"
proof -
  assume f: "find_inode_by_path s p = Some n"
  then obtain q where "normalize_path p = Some q"
    by (auto simp: find_inode_by_path_def Option.bind_eq_Some_conv)
  with f find_inode_resolve show ?thesis by auto
qed

lemma resolve_append:
  "resolve s cur (as @ bs) =
     (let m = resolve s cur as in if as \<noteq> [] \<and> m = NONE32 then NONE32 else resolve s m bs)"
  by (induction as arbitrary: cur) (auto simp: Let_def)

lemma lookup_NONE32 [simp]: "lookup s NONE32 c = NONE32"
  by (simp add: lookup_def)

lemma resolve_snoc: "resolve s cur (cs @ [c]) = lookup s (resolve s cur cs) c"
  by (auto simp: resolve_append Let_def)

text \<open>
  A state that keeps every successful lookup of another one resolves every path the other one
  resolves, to the same inode.
\<close>

lemma resolve_mono:
  assumes "\<And>d c. lookup s d c \<noteq> NONE32 \<Longrightarrow> lookup t d c = lookup s d c"
  shows "resolve s cur cs \<noteq> NONE32 \<Longrightarrow> resolve t cur cs = resolve s cur cs"
  using assms by (induction cs arbitrary: cur) (auto simp: Let_def split: if_splits)

text \<open>
  The model of \<open>strcmp\<close> on an entry's name: the name is compared byte by byte against the
  component, whose NUL is within the 28 bytes of the name, so the comparison stays in the struct.
\<close>

lemma strcmp_prefix:
  "c_string c \<Longrightarrow> length c < length m \<Longrightarrow>
   \<exists>v. strcmp (m @ r) (zstr c) = Some v \<and> (v = 0 \<longleftrightarrow> cstr m = c)"
proof (induction m arbitrary: c)
  case (Cons x m)
  show ?case
  proof (cases c)
    case Nil
    then show ?thesis by (simp add: zstr_def word_uint_eq_iff)
  next
    case (Cons y c')
    with Cons.prems Cons.IH[of c'] show ?thesis
      by (auto simp: zstr_def word_uint_eq_iff)
  qed
qed simp

section \<open>Properties\<close>

text \<open>
  C19: for a path of at most 254 characters \<open>normalize_path\<close> stays inside its
  256-byte buffer and returns the absolute path of the path's components: one slash before each
  component, none doubled, none at the end, and \<open>/\<close> when there is no component.
\<close>

theorem normalize_path_renders:
  assumes "length p \<le> 254"
  shows "normalize_path p = Some (abs_path (components p))"
  using assms by (rule normalize_path_eq)

theorem normalize_path_renders_witness:
  "length (lit ''home//ana/'') \<le> 254 \<and> normalize_path (lit ''home//ana/'') = Some (lit ''/home/ana'')"
  using normalize_path_renders[of "lit ''home//ana/''"]
  by (simp add: components_def abs_path_def)

end
