(* ===== verification/FsOps.thy ===== *)
theory FsOps
  imports FsPath
begin

text \<open>
  The operations of \<open>fs/filesystem.c\<close>: installing, creating and listing directories, creating,
  reading and deleting files, changing the current directory, and the password check. Each
  operation takes the file system state and returns its result with the new state; the result is
  \<open>None\<close> when the code would access memory outside an object. The \<open>int\<close> results are the
  code's return values.
\<close>

section \<open>Directory entries\<close>

definition zero_entry :: fs_dir_entry where
  "zero_entry = \<lparr>ename = replicate FS_MAX_FILENAME 0, einode = 0, in_use = 0\<rparr>"

definition zero_dir :: fs_dir_block where
  "zero_dir = replicate FS_MAX_DIR_ENTRIES zero_entry"

text \<open>\<open>strcpy(e.name, name); e.inode = ino; e.in_use = 1;\<close>\<close>

definition set_entry :: "fs_dir_entry \<Rightarrow> bytes \<Rightarrow> u32 \<Rightarrow> fs_dir_entry option" where
  "set_entry e name ino =
     map_option (\<lambda>n. e\<lparr>ename := n, einode := ino, in_use := 1\<rparr>) (strcpy (ename e) (zstr name))"

text \<open>
  The loop that stores a name in the first entry not in use: the result of \<open>added\<close> and the block.
\<close>

definition add_entry :: "fs_dir_block \<Rightarrow> bytes \<Rightarrow> u32 \<Rightarrow> (bool \<times> fs_dir_block) option" where
  "add_entry d name ino =
     (case find (\<lambda>i. in_use (d ! i) \<noteq> 1) [0..<FS_MAX_DIR_ENTRIES] of
        None \<Rightarrow> Some (False, d)
      | Some i \<Rightarrow> map_option (\<lambda>e. (True, d[i := e])) (set_entry (d ! i) name ino))"

text \<open>A fresh directory block with the entries \<open>.\<close> and \<open>..\<close>.\<close>

definition dot_dir :: "u32 \<Rightarrow> u32 \<Rightarrow> fs_dir_block option" where
  "dot_dir self parent = do {
     e0 \<leftarrow> set_entry zero_entry (lit ''.'') self;
     e1 \<leftarrow> set_entry zero_entry (lit ''..'') parent;
     Some (zero_dir[0 := e0, 1 := e1]) }"

section \<open>\<open>fs_create_dir\<close>\<close>

text \<open>Lines 446 to 505: the parent inode is known. An index of 200 or more is out of bounds.\<close>

definition create_dir_in :: "u32 \<Rightarrow> bytes \<Rightarrow> fs \<Rightarrow> (int \<times> fs) option" where
  "create_dir_in parent dir_name s =
     (if 200 \<le> parent then None
      else if itype (inode_of s parent) \<noteq> INODE_TYPE_DIR then Some (-1, s)
      else let (new_inode, s1) = allocate_inode s in
        if new_inode = NONE32 then Some (-1, s1)
        else let s2 = upd_inode s1 new_inode
                        (\<lambda>x. x\<lparr>itype := INODE_TYPE_DIR, isize := 0, parent_inode := parent\<rparr>);
                 (new_block, s3) = allocate_block s2 in
          if new_block = NONE32 then Some (-1, free_inode s3 new_inode)
          else let s4 = upd_inode s3 new_inode (\<lambda>x. x\<lparr>iblocks := (iblocks x)[0 := new_block]\<rparr>) in
            do {
              new_dir \<leftarrow> dot_dir new_inode parent;
              let s5 = write_dir s4 new_block new_dir;
              let pb = iblocks (inode_of s5 parent) ! 0;
              (added, parent_dir) \<leftarrow> add_entry (read_dir s5 pb) dir_name new_inode;
              if \<not> added then Some (-1, free_inode s5 new_inode)
              else Some (0, sync_block_bitmap (sync_inode_table (write_dir s5 pb parent_dir))) })"

function fs_create_dir :: "bytes \<Rightarrow> fs \<Rightarrow> (int \<times> fs) option" where
  "fs_create_dir path s =
     (case split_path path FS_MAX_FILENAME of
        None \<Rightarrow> None
      | Some (parent_path, dir_name) \<Rightarrow>
          if dir_name = [] \<or> FS_MAX_FILENAME \<le> length dir_name then Some (-1, s)
          else do {
            existing \<leftarrow> find_inode_by_path s path;
            if existing \<noteq> NONE32 then Some (0, s)
            else do {
              parent \<leftarrow> find_inode_by_path s parent_path;
              if parent = NONE32 then
                (if parent_path \<noteq> lit ''/'' then do {
                   (r, s1) \<leftarrow> fs_create_dir parent_path s;
                   if r \<noteq> 0 then Some (-1, s1)
                   else do {
                     parent1 \<leftarrow> find_inode_by_path s1 parent_path;
                     if parent1 = NONE32 then Some (-1, s1)
                     else create_dir_in parent1 dir_name s1 } }
                 else Some (-1, s))
              else create_dir_in parent dir_name s } })"
  by pat_completeness auto
termination
  by (relation "measure (\<lambda>(p, s). length p)") (auto dest: split_path_shorter)

declare fs_create_dir.simps [simp del]

section \<open>Queries\<close>

definition fs_dir_exists :: "fs \<Rightarrow> bytes \<Rightarrow> bool option" where
  "fs_dir_exists s path = do {
     inode \<leftarrow> find_inode_by_path s path;
     Some (if inode = NONE32 then False
           else if 200 \<le> inode then False
           else itype (inode_of s inode) = INODE_TYPE_DIR) }"

definition fs_file_exists :: "fs \<Rightarrow> bytes \<Rightarrow> bool option" where
  "fs_file_exists s path = do {
     inode \<leftarrow> find_inode_by_path s path;
     Some (if inode = NONE32 then False
           else if 200 \<le> inode then False
           else itype (inode_of s inode) = INODE_TYPE_FILE) }"

section \<open>\<open>fs_delete_file\<close>\<close>

text \<open>The loop that clears the first entry in use that refers to the inode.\<close>

definition remove_entry :: "fs_dir_block \<Rightarrow> u32 \<Rightarrow> fs_dir_block" where
  "remove_entry d ino =
     (case find (\<lambda>i. in_use (d ! i) = 1 \<and> einode (d ! i) = ino) [0..<FS_MAX_DIR_ENTRIES] of
        None \<Rightarrow> d
      | Some i \<Rightarrow> d[i := (d ! i)\<lparr>in_use := 0, ename := replicate FS_MAX_FILENAME 0\<rparr>])"

definition fs_delete_file :: "bytes \<Rightarrow> fs \<Rightarrow> (int \<times> fs) option" where
  "fs_delete_file path s = do {
     (parent_path, file_name) \<leftarrow> split_path path FS_MAX_FILENAME;
     parent \<leftarrow> find_inode_by_path s parent_path;
     if parent = NONE32 then Some (-1, s)
     else do {
       file \<leftarrow> find_inode_by_path s path;
       if file = NONE32 then Some (-1, s)
       else if 200 \<le> file then None
       else if itype (inode_of s file) \<noteq> INODE_TYPE_FILE then Some (-1, s)
       else let s1 = free_inode s file in
         if 200 \<le> parent then None
         else let pb = iblocks (inode_of s1 parent) ! 0;
                  parent_dir = remove_entry (read_dir s1 pb) file
              in Some (0, sync_block_bitmap (sync_inode_table (write_dir s1 pb parent_dir))) } }"

section \<open>\<open>fs_create_file\<close>\<close>

text \<open>
  The loop over the blocks: \<open>i\<close> is the block index, \<open>k\<close> the number of blocks left. The first
  component of the result is False when the loop returns early because no block is free.
\<close>

fun write_blocks :: "u32 \<Rightarrow> bytes \<Rightarrow> nat \<Rightarrow> nat \<Rightarrow> nat \<Rightarrow> fs \<Rightarrow> (bool \<times> fs) option" where
  "write_blocks ino data i 0 remaining s = Some (True, s)"
| "write_blocks ino data i (Suc k) remaining s =
     (let (block, s1) = allocate_block s in
      if block = NONE32 then Some (False, free_inode s1 ino)
      else let s2 = upd_inode s1 ino (\<lambda>x. x\<lparr>iblocks := (iblocks x)[i := block]\<rparr>);
               copy_size = (if FS_BLOCK_SIZE < remaining then FS_BLOCK_SIZE else remaining) in
        if length data < i * FS_BLOCK_SIZE + copy_size then None
        else let s3 = s2\<lparr>sector_buffer := take copy_size (drop (i * FS_BLOCK_SIZE) data)
                            @ replicate (FS_BLOCK_SIZE - copy_size) 0\<rparr>;
                 s4 = write_inode_block s3 block (sector_buffer s3)
             in write_blocks ino data (Suc i) k (remaining - copy_size) s4)"

definition blocks_needed :: "u32 \<Rightarrow> nat" where
  "blocks_needed nbytes = (let n = (nbytes + 512 - 1) div 512 in if 12 < n then 12 else unat n)"

text \<open>Lines 656 to 710: the path names nothing any more.\<close>

definition new_file :: "u32 \<Rightarrow> bytes \<Rightarrow> bytes \<Rightarrow> u32 \<Rightarrow> fs \<Rightarrow> (int \<times> fs) option" where
  "new_file parent file_name data nbytes s =
     (let (new_inode, s1) = allocate_inode s in
      if new_inode = NONE32 then Some (-1, s1)
      else let s2 = upd_inode s1 new_inode
                      (\<lambda>x. x\<lparr>itype := INODE_TYPE_FILE, isize := nbytes, parent_inode := parent\<rparr>)
        in do {
          (written, s3) \<leftarrow>
             write_blocks new_inode data 0 (blocks_needed nbytes) (unat nbytes) s2;
          if \<not> written then Some (-1, s3)
          else do {
            let pb = iblocks (inode_of s3 parent) ! 0;
            (added, parent_dir) \<leftarrow> add_entry (read_dir s3 pb) file_name new_inode;
            if \<not> added then Some (-1, free_inode s3 new_inode)
            else Some (0, sync_superblock (sync_block_bitmap (sync_inode_table
                            (write_dir s3 pb parent_dir)))) } })"

text \<open>Lines 647 to 654: the parent inode is known.\<close>

definition create_file_in ::
    "u32 \<Rightarrow> bytes \<Rightarrow> bytes \<Rightarrow> bytes \<Rightarrow> u32 \<Rightarrow> fs \<Rightarrow> (int \<times> fs) option" where
  "create_file_in parent path file_name data nbytes s =
     (if 200 \<le> parent then None
      else if itype (inode_of s parent) \<noteq> INODE_TYPE_DIR then Some (-1, s)
      else do {
        existing \<leftarrow> find_inode_by_path s path;
        s0 \<leftarrow> (if existing \<noteq> NONE32 then map_option snd (fs_delete_file path s) else Some s);
        new_file parent file_name data nbytes s0 })"

definition fs_create_file :: "bytes \<Rightarrow> bytes \<Rightarrow> u32 \<Rightarrow> fs \<Rightarrow> (int \<times> fs) option" where
  "fs_create_file path data nbytes s =
     (if FS_MAX_FILE_SIZE < unat nbytes then Some (-1, s)
      else do {
        (parent_path, file_name) \<leftarrow> split_path path FS_MAX_FILENAME;
        if file_name = [] \<or> FS_MAX_FILENAME \<le> length file_name then Some (-1, s)
        else do {
          parent \<leftarrow> find_inode_by_path s parent_path;
          if parent = NONE32 then do {
            (r, s1) \<leftarrow> fs_create_dir parent_path s;
            if r \<noteq> 0 then Some (-1, s1)
            else do {
              parent1 \<leftarrow> find_inode_by_path s1 parent_path;
              if parent1 = NONE32 then Some (-1, s1)
              else create_file_in parent1 path file_name data nbytes s1 } }
          else create_file_in parent path file_name data nbytes s } })"

section \<open>\<open>fs_read_file\<close>\<close>

text \<open>The copy loop: \<open>buf\<close> is the caller's buffer.\<close>

fun read_blocks :: "u32 \<Rightarrow> nat \<Rightarrow> nat \<Rightarrow> nat \<Rightarrow> bytes \<Rightarrow> fs \<Rightarrow> (bytes \<times> fs) option" where
  "read_blocks ino i 0 remaining buf s = Some (buf, s)"
| "read_blocks ino i (Suc k) remaining buf s =
     (let s1 = s\<lparr>sector_buffer :=
                   read_inode_block s (iblocks (inode_of s ino) ! i) (sector_buffer s)\<rparr>;
          copy_size = (if FS_BLOCK_SIZE < remaining then FS_BLOCK_SIZE else remaining) in
      if length buf < i * FS_BLOCK_SIZE + copy_size then None
      else read_blocks ino (Suc i) k (remaining - copy_size)
             (take (i * FS_BLOCK_SIZE) buf @ take copy_size (sector_buffer s1)
                @ drop (i * FS_BLOCK_SIZE + copy_size) buf) s1)"

definition fs_read_file :: "bytes \<Rightarrow> bytes \<Rightarrow> u32 \<Rightarrow> fs \<Rightarrow> (int \<times> bytes \<times> fs) option" where
  "fs_read_file path buf max_size s = do {
     inode \<leftarrow> find_inode_by_path s path;
     if inode = NONE32 \<or> 200 \<le> inode then Some (-1, buf, s)
     else if itype (inode_of s inode) \<noteq> INODE_TYPE_FILE then Some (-1, buf, s)
     else do {
       let fsize = isize (inode_of s inode);
       let n = (if max_size < fsize then max_size else fsize);
       (buf', s') \<leftarrow> read_blocks inode 0 (blocks_needed n) (unat n) buf s;
       Some (sint fsize, buf', s') } }"

section \<open>\<open>fs_list_dir\<close>\<close>

text \<open>The length of a printable name, 0 when it has a byte outside 32 to 126.\<close>

fun name_length :: "bytes \<Rightarrow> nat \<Rightarrow> nat" where
  "name_length [] n = n"
| "name_length (c # r) n =
     (if c = 0 then n else if sint c < 32 \<or> 126 < sint c then 0 else name_length r (Suc n))"

text \<open>
  One entry of the directory, with the caller's buffer and \<open>written\<close>. The flag says that the loop
  goes on. A name without a NUL would be copied past its end.
\<close>

definition list_entry :: "fs \<Rightarrow> int \<Rightarrow> fs_dir_block \<Rightarrow> nat \<Rightarrow> nat \<Rightarrow> bytes \<Rightarrow> (bool \<times> nat \<times> bytes) option" where
  "list_entry s max_size d i written buf =
     (let e = d ! i; name_len = name_length (ename e) 0 in
      if in_use e \<noteq> 1 then Some (True, written, buf)
      else if entry_has_name e (lit ''.'') \<or> entry_has_name e (lit ''..'') then Some (True, written, buf)
      else if name_len = 0 then Some (True, written, buf)
      else if max_size \<le> int written + int name_len + 2 then Some (False, written, buf)
      else do {
        copied \<leftarrow> strcpy (drop written buf) (ename e);
        let buf1 = take written buf @ copied;
        let w1 = written + name_len;
        (w2, buf2) \<leftarrow> (if einode e < 200 \<and> itype (inode_of s (einode e)) = INODE_TYPE_DIR
                        then map_option (Pair (w1 + 1)) (wr buf1 w1 SLASH) else Some (w1, buf1));
        buf3 \<leftarrow> wr buf2 w2 10;
        Some (True, w2 + 1, buf3) })"

fun list_loop :: "fs \<Rightarrow> int \<Rightarrow> fs_dir_block \<Rightarrow> nat list \<Rightarrow> nat \<Rightarrow> bytes \<Rightarrow> (nat \<times> bytes) option" where
  "list_loop s max_size d [] written buf = Some (written, buf)"
| "list_loop s max_size d (i # is) written buf =
     (if int written < max_size - 64 then do {
        (go, written', buf') \<leftarrow> list_entry s max_size d i written buf;
        if go then list_loop s max_size d is written' buf' else Some (written', buf') }
      else Some (written, buf))"

text \<open>
  The result is the return value and the caller's buffer. The test in the head of the loop leaves 64 bytes for a
  name of at most 27 characters with its slash and newline, so the test inside \<open>list_entry\<close> never stops the listing of a
  valid directory; either of the two alone keeps the listing in the buffer.
\<close>

definition fs_list_dir :: "fs \<Rightarrow> bytes \<Rightarrow> bytes \<Rightarrow> int \<Rightarrow> (int \<times> bytes) option" where
  "fs_list_dir s path buffer max_size = do {
     inode \<leftarrow> find_inode_by_path s path;
     if inode = NONE32 \<or> 200 \<le> inode then map_option (Pair (-1)) (wr buffer 0 0)
     else if itype (inode_of s inode) \<noteq> INODE_TYPE_DIR then map_option (Pair (-1)) (wr buffer 0 0)
     else let b = iblocks (inode_of s inode) ! 0 in
       if b = 0 \<or> 512 \<le> b then map_option (Pair (-1)) (wr buffer 0 0)
       else do {
         buf0 \<leftarrow> wr buffer 0 0;
         (written, buf1) \<leftarrow> list_loop s max_size (read_dir s b) [0..<FS_MAX_DIR_ENTRIES] 0 buf0;
         buf2 \<leftarrow> wr buf1 written 0;
         Some (int written, buf2) } }"

section \<open>\<open>fs_change_dir\<close>\<close>

text \<open>
  \<open>current_dir\<close> is the string in the caller's buffer of \<open>cap\<close> bytes; the result has the new
  one. The local \<open>new_path\<close> has 256 bytes.
\<close>

definition fits :: "nat \<Rightarrow> bytes \<Rightarrow> bytes option" where
  "fits cap str = (if length str < cap then Some str else None)"

definition fs_change_dir :: "fs \<Rightarrow> bytes \<Rightarrow> nat \<Rightarrow> bytes \<Rightarrow> (int \<times> bytes) option" where
  "fs_change_dir s path cap current_dir =
     (if path = lit ''..'' then
        (if current_dir = lit ''/'' then Some (0, current_dir)
         else let k = last_slash current_dir 0 0 in
           if k = 0 then map_option (Pair 0) (fits cap (lit ''/''))
           else Some (0, take k current_dir))
      else do {
        new_path \<leftarrow> fits 256
          (if path \<noteq> [] \<and> hd path = SLASH then path
           else if current_dir = lit ''/'' then lit ''/'' @ path
           else current_dir @ lit ''/'' @ path);
        ex \<leftarrow> fs_dir_exists s new_path;
        if ex then map_option (Pair 0) (fits cap new_path) else Some (-1, current_dir) })"

section \<open>Passwords\<close>

text \<open>\<open>char\<close> is signed: each character is sign-extended before it is added.\<close>

definition simple_hash :: "bytes \<Rightarrow> u32" where
  "simple_hash str = fold (\<lambda>c hash. (push_bit 5 hash + hash) + scast c) str 5381"

definition hash_bytes :: "u32 \<Rightarrow> bytes" where
  "hash_bytes hash = map (\<lambda>i. ucast (drop_bit (i mod 32) hash AND 0xFF)) [0..<32]"

definition fs_verify_password :: "fs \<Rightarrow> bytes \<Rightarrow> bool option" where
  "fs_verify_password s password =
     map_option (\<lambda>r. r = 0)
       (memcmp (hash_bytes (simple_hash password)) (password_hash (superblock s)) 32)"

text \<open>
  The accessors copy a string out of the superblock. A field without a NUL runs on into the
  rest of the struct.
\<close>

definition fs_get_hostname :: "fs \<Rightarrow> bytes \<Rightarrow> bytes option" where
  "fs_get_hostname s buf = (let sb = superblock s in
     strcpy buf (hostname sb @ username sb @ password_hash sb))"

definition fs_get_username :: "fs \<Rightarrow> bytes \<Rightarrow> bytes option" where
  "fs_get_username s buf = (let sb = superblock s in strcpy buf (username sb @ password_hash sb))"

section \<open>\<open>fs_format\<close> and \<open>fs_install\<close>\<close>

definition zero_inode :: fs_inode where
  "zero_inode = \<lparr>itype = 0, isize = 0, iblocks = replicate FS_INODE_DIRECT_BLOCKS 0,
     parent_inode = 0\<rparr>"

definition new_superblock :: fs_superblock where
  "new_superblock = \<lparr>magic = FS_MAGIC, version = FS_VERSION, total_inodes = 200,
     total_blocks = 512, free_inodes = 200, free_blocks = 512, root_inode = 0, installed = 0,
     hostname = replicate 64 0, username = replicate 64 0, password_hash = replicate 32 0\<rparr>"

definition wipe :: "fs \<Rightarrow> fs" where
  "wipe s = s\<lparr>superblock := new_superblock, inode_table := replicate FS_MAX_INODES zero_inode,
     block_bitmap := replicate 64 0\<rparr>"

definition fs_format :: "fs \<Rightarrow> fs" where
  "fs_format s = sync_block_bitmap (sync_inode_table (sync_superblock (wipe s)))"

text \<open>Lines 311 to 371 of \<open>fs_install\<close>: the empty file system, written and read back.\<close>

definition install_root :: "bytes \<Rightarrow> bytes \<Rightarrow> bytes \<Rightarrow> fs \<Rightarrow> fs option" where
  "install_root host user password s = do {
     let s0 = wipe s;
     h \<leftarrow> strcpy (hostname (superblock s0)) (zstr host);
     u \<leftarrow> strcpy (username (superblock s0)) (zstr user);
     let s1 = s0\<lparr>superblock := (superblock s0)\<lparr>hostname := h, username := u,
                   password_hash := hash_bytes (simple_hash password),
                   free_inodes := free_inodes (superblock s0) - 1,
                   free_blocks := free_blocks (superblock s0) - 1\<rparr>,
                 block_bitmap := (block_bitmap s0)[0 := (block_bitmap s0 ! 0) OR push_bit 1 1]\<rparr>;
     let s2 = upd_inode s1 0 (\<lambda>x. x\<lparr>itype := INODE_TYPE_DIR, isize := 0, parent_inode := 0,
                                     iblocks := (iblocks x)[0 := 1]\<rparr>);
     root_dir \<leftarrow> dot_dir 0 0;
     let s3 = write_dir s2 1 root_dir;
     let s4 = s3\<lparr>superblock := (superblock s3)\<lparr>installed := 1\<rparr>\<rparr>;
     let s5 = sync_block_bitmap (sync_inode_table (sync_superblock s4));
     Some (load_block_bitmap (load_inode_table (load_superblock s5))) }"

text \<open>\<open>fs_create_dir\<close> as a statement: its return value is ignored.\<close>

definition mkdir_ignore :: "bytes \<Rightarrow> fs \<Rightarrow> fs option" where
  "mkdir_ignore path s = map_option snd (fs_create_dir path s)"

definition fs_install :: "bytes \<Rightarrow> bytes \<Rightarrow> bytes \<Rightarrow> fs \<Rightarrow> fs option" where
  "fs_install host user password s = do {
     s1 \<leftarrow> install_root host user password s;
     s2 \<leftarrow> mkdir_ignore (lit ''/bin'') s1;
     s3 \<leftarrow> mkdir_ignore (lit ''/home'') s2;
     s4 \<leftarrow> mkdir_ignore (lit ''/tmp'') s3;
     s5 \<leftarrow> mkdir_ignore (lit ''/etc'') s4;
     s6 \<leftarrow> mkdir_ignore (lit ''/var'') s5;
     user_home \<leftarrow> fits 128 (lit ''/home/'' @ user);
     s7 \<leftarrow> mkdir_ignore user_home s6;
     user_docs \<leftarrow> fits 128 (user_home @ lit ''/documents'');
     s8 \<leftarrow> mkdir_ignore user_docs s7;
     user_downloads \<leftarrow> fits 128 (user_home @ lit ''/downloads'');
     s9 \<leftarrow> mkdir_ignore user_downloads s8;
     Some (sync_block_bitmap (sync_inode_table (sync_superblock s9))) }"

end
