(* ===== verification/FsCreate.thy ===== *)
theory FsCreate
  imports FsOps
begin

text \<open>
  Facts about the building blocks of the file system operations, the directory invariant
  \<open>dir_inv\<close> on top of \<open>fs_inv\<close>, and the effect of adding an entry to a directory.
\<close>

section \<open>Allocation, seen from a caller\<close>

lemma allocate_inode_facts:
  assumes inv: "fs_inv s" and a: "allocate_inode s = (n, t)" and n: "n \<noteq> NONE32"
  shows "fs_inv t" "n < 200" "itype (inode_of s n) = 0"
    "inode_of t m = (if m = n
       then (inode_of s n)\<lparr>itype := 1, isize := 0, parent_inode := 0, iblocks := replicate 12 0\<rparr>
       else inode_of s m)"
    "is_block_free t b = is_block_free s b" "disk t = disk s" "sector_buffer t = sector_buffer s"
    "root_inode (superblock t) = root_inode (superblock s)"
proof -
  note sh = fs_invD(1)[OF inv]
  from fs_inv_allocate_inode[OF inv] a show "fs_inv t" by simp
  from sh a n show "n < 200" "itype (inode_of s n) = 0"
    "inode_of t m = (if m = n
       then (inode_of s n)\<lparr>itype := 1, isize := 0, parent_inode := 0, iblocks := replicate 12 0\<rparr>
       else inode_of s m)"
    "is_block_free t b = is_block_free s b" "disk t = disk s" "sector_buffer t = sector_buffer s"
    "root_inode (superblock t) = root_inode (superblock s)"
    by (auto elim!: allocate_inodeE simp: inode_upd_inode[OF sh])
qed

lemma allocate_inode_full:
  "fs_inv s \<Longrightarrow> allocate_inode s = (NONE32, t) \<Longrightarrow> t = s"
  by (auto elim!: allocate_inodeE dest: fs_invD(1))

text \<open>The block taken is the first free one.\<close>

lemma allocate_block_least:
  assumes "fs_shape s" "allocate_block s = (b, t)" "b \<noteq> NONE32" "is_block_free s c"
  shows "b \<le> c"
proof (cases "find (\<lambda>i. is_block_free s (of_nat i)) [0..<512]")
  case None
  with assms show ?thesis by (simp add: allocate_block_def)
next
  case (Some i)
  then have i: "i < 512" "\<And>j. j < i \<Longrightarrow> \<not> is_block_free s (of_nat j)" "b = of_nat i"
    using assms(2) Some by (auto simp: find_index_Some allocate_block_def)
  have "\<not> unat c < i"
    using i(2)[of "unat c"] assms(4) by auto
  moreover have "unat b = i" using i(1,3) by (simp add: unat_of_nat take_bit_nat_eq_self)
  ultimately show ?thesis by (simp add: word_le_nat_alt)
qed

lemma allocate_block_facts:
  assumes inv: "fs_inv s" and a: "allocate_block s = (b, t)" and b: "b \<noteq> NONE32"
  shows "fs_inv t" "b < 512" "is_block_free s b"
    "is_block_free t c \<longleftrightarrow> is_block_free s c \<and> c \<noteq> b" "inode_of t m = inode_of s m"
    "disk t = disk s" "sector_buffer t = sector_buffer s"
    "root_inode (superblock t) = root_inode (superblock s)"
    "\<not> owns t m j b"
proof -
  note sh = fs_invD(1)[OF inv]
  from fs_inv_allocate_block[OF inv] a show "fs_inv t" by simp
  from sh a b show "b < 512" "is_block_free s b"
    "is_block_free t c \<longleftrightarrow> is_block_free s c \<and> c \<noteq> b" "inode_of t m = inode_of s m"
    "disk t = disk s" "sector_buffer t = sector_buffer s"
    "root_inode (superblock t) = root_inode (superblock s)"
    by (auto elim!: allocate_blockE simp: mark_used_free[OF sh])
  from sh a b have "is_block_free s b" "inode_table t = inode_table s"
    by (auto elim!: allocate_blockE)
  with owns_frame[of t s m j b] allocate_block_not_owned[OF inv, of b m j]
  show "\<not> owns t m j b" by simp
qed

lemma allocate_block_full: "fs_inv s \<Longrightarrow> allocate_block s = (NONE32, t) \<Longrightarrow> t = s"
  by (auto elim!: allocate_blockE dest: fs_invD(1))

section \<open>Directory blocks\<close>

lemma set_entry_eq:
  assumes "entry_shape e" "c_string name" "length name < 28"
  shows "set_entry e name ino = Some \<lparr>ename = name @ 0 # drop (Suc (length name)) (ename e),
           einode = ino, in_use = 1\<rparr>"
proof -
  have "0 \<in> set (zstr name)" "cstr (zstr name) = name" using assms by (simp_all add: zstr_def)
  with assms strcpy_eq[of "zstr name" "ename e"] show ?thesis
    by (simp add: set_entry_def entry_shape_def)
qed

lemma set_entry_facts:
  assumes "entry_shape e" "c_string name" "length name < 28" "set_entry e name ino = Some e'"
  shows "entry_shape e'" "in_use e' = 1" "einode e' = ino" "entry_has_name e' c \<longleftrightarrow> c = name"
    "0 \<in> set (ename e')"
  using assms by (auto simp: set_entry_eq entry_shape_def entry_has_name_def)

lemma entry_shape_zero [simp]: "entry_shape zero_entry"
  by (simp add: entry_shape_def zero_entry_def)

lemma dir_shape_update: "dir_shape d \<Longrightarrow> entry_shape e \<Longrightarrow> dir_shape (d[i := e])"
  by (auto simp: dir_shape_def dest: set_update_subset_insert[THEN subsetD])

lemma dir_shape_nth: "dir_shape d \<Longrightarrow> i < 15 \<Longrightarrow> entry_shape (d ! i)"
  by (simp add: dir_shape_def)

lemma dir_shape_zero [simp]: "dir_shape zero_dir"
  by (simp add: dir_shape_def zero_dir_def)

lemma dot_dir_Some:
  obtains d where "dot_dir self parent = Some d" "dir_shape d"
    "\<And>i. i < 15 \<Longrightarrow> in_use (d ! i) = 1 \<Longrightarrow> einode (d ! i) = self \<or> einode (d ! i) = parent"
proof -
  obtain e0 where e0: "set_entry zero_entry (lit ''.'') self = Some e0"
    "entry_shape e0" "einode e0 = self"
    using set_entry_eq[OF entry_shape_zero, of "lit ''.''" self]
      set_entry_facts[OF entry_shape_zero, of "lit ''.''" self] by simp
  obtain e1 where e1: "set_entry zero_entry (lit ''..'') parent = Some e1"
    "entry_shape e1" "einode e1 = parent"
    using set_entry_eq[OF entry_shape_zero, of "lit ''..''" parent]
      set_entry_facts[OF entry_shape_zero, of "lit ''..''" parent] by simp
  let ?d = "zero_dir[0 := e0, 1 := e1]"
  have "dir_shape ?d" using e0 e1 by (intro dir_shape_update) simp_all
  moreover have "einode (?d ! i) = self \<or> einode (?d ! i) = parent"
    if "i < 15" "in_use (?d ! i) = 1" for i
    using that e0 e1 by (auto simp: nth_list_update zero_dir_def zero_entry_def split: if_splits)
  ultimately show ?thesis using that e0 e1 by (simp add: dot_dir_def)
qed

text \<open>A block read from disk never has its last entry in use, so an entry can always be added.\<close>

lemma read_dir_last: "in_use (read_dir s b ! 14) = 0"
  if "fs_shape s"
proof -
  have "take 36 (drop 504 (data_block s b @ replicate 28 0)) = drop 504 (data_block s b) @ replicate 28 0"
    using length_data_block[OF that, of b] by simp
  then show ?thesis
    using length_data_block[OF that, of b]
    by (simp add: read_dir_data dec_dir_def chunks_nth dec_entry_def nth_append)
qed

lemma first_unused:
  assumes "fs_shape s"
  obtains i where "find (\<lambda>i. in_use (read_dir s b ! i) \<noteq> 1) [0..<15] = Some i" "i < 15"
    "in_use (read_dir s b ! i) \<noteq> 1" "\<And>j. j < i \<Longrightarrow> in_use (read_dir s b ! j) = 1"
proof (cases "find (\<lambda>i. in_use (read_dir s b ! i) \<noteq> 1) [0..<15]")
  case None
  then have "in_use (read_dir s b ! 14) = 1" by (simp add: find_index_None)
  with read_dir_last[OF assms, of b] show ?thesis by simp
next
  case (Some i)
  from Some have "i < 15" "in_use (read_dir s b ! i) \<noteq> 1"
    "\<And>j. j < i \<Longrightarrow> in_use (read_dir s b ! j) = 1"
    by (auto simp: find_index_Some)
  with that[OF Some] show ?thesis by blast
qed

lemma add_entry_read_dir:
  assumes "fs_shape s" "c_string name" "length name < 28"
  obtains i e where "add_entry (read_dir s b) name ino = Some (True, (read_dir s b)[i := e])"
    "i < 15" "in_use (read_dir s b ! i) \<noteq> 1" "\<And>j. j < i \<Longrightarrow> in_use (read_dir s b ! j) = 1"
    "set_entry (read_dir s b ! i) name ino = Some e" "entry_shape e"
    "dir_shape ((read_dir s b)[i := e])"
proof -
  from assms(1) obtain i where i:
    "find (\<lambda>i. in_use (read_dir s b ! i) \<noteq> 1) [0..<15] = Some i" "i < 15"
    "in_use (read_dir s b ! i) \<noteq> 1" "\<And>j. j < i \<Longrightarrow> in_use (read_dir s b ! j) = 1"
    by (rule first_unused[where b = b]) blast
  have sh: "dir_shape (read_dir s b)" using assms(1) by simp
  then obtain e where e: "set_entry (read_dir s b ! i) name ino = Some e"
    using set_entry_eq[OF dir_shape_nth assms(2,3)] i(2) by blast
  then have "entry_shape e"
    using set_entry_facts(1)[OF dir_shape_nth assms(2,3)] sh i(2) by blast
  with e i sh that show ?thesis by (simp add: add_entry_def dir_shape_update)
qed

section \<open>Finding entries\<close>

lemma find_entry_Some:
  assumes "find_entry d name = Some e"
  obtains i where "i < length d" "d ! i = e" "in_use e = 1" "entry_has_name e name"
  using assms by (auto simp: find_entry_def find_Some_iff)

lemma find_entry_None:
  "find_entry d name = None \<longleftrightarrow> (\<forall>i < length d. in_use (d ! i) = 1 \<longrightarrow> \<not> entry_has_name (d ! i) name)"
  by (auto simp: find_entry_def find_None_iff set_conv_nth)

text \<open>Changing an entry that is not in use, to one that is not found, leaves the search alone.\<close>

lemma find_entry_update_other:
  assumes "\<not> (in_use (d ! i) = 1 \<and> entry_has_name (d ! i) c)"
    "\<not> (in_use e = 1 \<and> entry_has_name e c)"
  shows "find_entry (d[i := e]) c = find_entry d c"
  using assms
proof (induction d arbitrary: i)
  case (Cons x d)
  then show ?case by (cases i) (auto simp: find_entry_def)
qed simp

lemma find_entry_update_new:
  assumes "i < length d" "find_entry d c = None" "in_use e = 1" "entry_has_name e c"
  shows "find_entry (d[i := e]) c = Some e"
  using assms
proof (induction d arbitrary: i)
  case (Cons x d)
  then show ?case by (cases i) (auto simp: find_entry_def split: if_splits)
qed simp

lemma find_append_eq:
  "find P (xs @ ys) = (case find P xs of None \<Rightarrow> find P ys | Some x \<Rightarrow> Some x)"
  by (induction xs) auto

lemma find_entry_cut:
  assumes "length d = 15"
  shows "find_entry (cut_dir d) c = find_entry (take 14 d) c"
proof -
  have "cut_dir d = take 14 d @ [cut_entry (d ! 14)]"
    using assms by (auto simp: cut_dir_def dir_shape_def list_eq_iff_nth_eq nth_append nth_list_update)
  then show ?thesis by (auto simp: find_entry_def cut_entry_def find_append_eq split: option.split)
qed

end
