(* ===== verification/FsTree.thy ===== *)
theory FsTree
  imports FsCreate
begin

text \<open>
  The directory graph: which directory entries refer to which inodes, the invariant \<open>tree_inv\<close> on
  it, and two relations between states that describe what the operations do: \<open>fs_same\<close>, nothing
  that a path can reach has changed, and \<open>fs_adds\<close>, one new inode has been entered in a directory.
\<close>

section \<open>The graph\<close>

definition is_dir :: "fs \<Rightarrow> u32 \<Rightarrow> bool" where
  "is_dir s n \<longleftrightarrow> n < 200 \<and> itype (inode_of s n) = INODE_TYPE_DIR"

definition is_file :: "fs \<Rightarrow> u32 \<Rightarrow> bool" where
  "is_file s n \<longleftrightarrow> n < 200 \<and> itype (inode_of s n) = INODE_TYPE_FILE"

abbreviation dir_block :: "fs \<Rightarrow> u32 \<Rightarrow> u32" where
  "dir_block s n \<equiv> iblocks (inode_of s n) ! 0"

definition entries :: "fs \<Rightarrow> u32 \<Rightarrow> fs_dir_block" where
  "entries s n = read_dir s (dir_block s n)"

text \<open>Entry \<open>i\<close> of the directory \<open>d\<close> is in use and refers to the inode \<open>n\<close>.\<close>

definition refers :: "fs \<Rightarrow> u32 \<Rightarrow> nat \<Rightarrow> u32 \<Rightarrow> bool" where
  "refers s d i n \<longleftrightarrow> is_dir s d \<and> i < 15 \<and> in_use (entries s d ! i) = 1 \<and> einode (entries s d ! i) = n"

text \<open>
  The root is a directory, entries refer to allocated inodes and hold a C string, and at most one entry refers to
  a file. Directories are referred to by their own \<open>.\<close> and by the \<open>..\<close> of their children.
\<close>

definition tree_inv :: "fs \<Rightarrow> bool" where
  "tree_inv s \<longleftrightarrow> is_dir s (root_inode (superblock s)) \<and>
     (\<forall>d i n. refers s d i n \<longrightarrow> n < 200 \<and> itype (inode_of s n) \<noteq> 0 \<and>
        0 \<in> set (ename (entries s d ! i))) \<and>
     (\<forall>d i e j n. refers s d i n \<longrightarrow> refers s e j n \<longrightarrow> is_file s n \<longrightarrow> d = e \<and> i = j)"

definition fs_ok :: "fs \<Rightarrow> bool" where
  "fs_ok s \<longleftrightarrow> fs_inv s \<and> tree_inv s"

lemma fs_okD:
  assumes "fs_ok s"
  shows "fs_inv s" "fs_shape s" "tree_inv s" "is_dir s (root_inode (superblock s))"
    "refers s d i n \<Longrightarrow> n < 200" "refers s d i n \<Longrightarrow> itype (inode_of s n) \<noteq> 0"
    "refers s d i n \<Longrightarrow> refers s e j n \<Longrightarrow> is_file s n \<Longrightarrow> d = e \<and> i = j"
    "refers s d i n \<Longrightarrow> 0 \<in> set (ename (entries s d ! i))"
  using assms fs_invD(1) unfolding fs_ok_def tree_inv_def by blast+

lemma fs_okI:
  assumes "fs_inv s" "is_dir s (root_inode (superblock s))"
    "\<And>d i n. refers s d i n \<Longrightarrow> n < 200 \<and> itype (inode_of s n) \<noteq> 0 \<and>
       0 \<in> set (ename (entries s d ! i))"
    "\<And>d i e j n. refers s d i n \<Longrightarrow> refers s e j n \<Longrightarrow> is_file s n \<Longrightarrow> d = e \<and> i = j"
  shows "fs_ok s"
  unfolding fs_ok_def tree_inv_def using assms by blast

lemma is_dir_not_free: "is_dir s n \<Longrightarrow> itype (inode_of s n) \<noteq> 0" by (simp add: is_dir_def)

lemma is_dir_less: "is_dir s n \<Longrightarrow> n < 200" by (simp add: is_dir_def)

lemma dir_block_cases:
  assumes "fs_inv s" "n < 200"
  shows "dir_block s n = 0 \<or> dir_block s n < 512 \<and> \<not> is_block_free s (dir_block s n) \<and>
     owns s n 0 (dir_block s n)"
proof (cases "dir_block s n = 0")
  case False
  with assms(2) have "owns s n 0 (dir_block s n)" by (simp add: owns_def)
  with fs_invD(2,3)[OF assms(1)] show ?thesis by blast
qed simp

lemma dir_block_inj:
  "fs_inv s \<Longrightarrow> n < 200 \<Longrightarrow> m < 200 \<Longrightarrow> dir_block s n = dir_block s m \<Longrightarrow> dir_block s n \<noteq> 0 \<Longrightarrow> n = m"
  using fs_invD(5)[of s n 0 "dir_block s n" m 0] by (simp add: owns_def)

text \<open>Block 0 stands for no block: it is read as zeros, so no entry of it is in use.\<close>

lemma data_block_0 [simp]: "data_block s 0 = replicate 512 0"
  by (simp add: data_block_def)

lemma in_use_block_0: "i < 15 \<Longrightarrow> in_use (read_dir s 0 ! i) = 0"
proof -
  assume i: "i < 15"
  have "replicate 512 (0::u8) @ replicate 28 0 = replicate 540 0"
    by (simp add: replicate_add[symmetric])
  moreover have "take 36 (drop (36 * i) (replicate 540 (0::u8))) = replicate 36 0"
    using i by simp
  ultimately show ?thesis using i
    by (simp add: read_dir_data dec_dir_def chunks_nth dec_entry_def)
qed

lemma read_dir_cong: "data_block t b = data_block s c \<Longrightarrow> read_dir t b = read_dir s c"
  by (simp add: read_dir_data)

lemma length_entries [simp]: "fs_shape s \<Longrightarrow> length (entries s d) = 15"
  using dir_shape_read_dir by (auto simp: entries_def dir_shape_def)

lemma refers_block: "refers s d i n \<Longrightarrow> dir_block s d \<noteq> 0"
  using in_use_block_0[of i s] by (auto simp: refers_def entries_def)

section \<open>Lookups are edges\<close>

definition edge :: "fs_dir_block \<Rightarrow> bytes \<Rightarrow> u32" where
  "edge d c = (case find_entry d c of None \<Rightarrow> NONE32 | Some e \<Rightarrow> einode e)"

text \<open>\<open>lookup\<close> over the entries of a directory, block 0 included.\<close>

lemma lookup_entries:
  assumes "fs_inv s"
  shows "lookup s d c = (if is_dir s d \<and> length c < 28 then edge (entries s d) c else NONE32)"
proof -
  have sh: "fs_shape s" using assms by (rule fs_invD)
  have "find_entry (entries s d) c = None" if "dir_block s d = 0"
    using that sh in_use_block_0 by (simp add: find_entry_None) (simp add: entries_def)
  moreover have "is_dir s d \<Longrightarrow> dir_block s d = 0 \<or> \<not> 512 \<le> dir_block s d"
    using dir_block_cases[OF assms] by (auto simp: is_dir_def not_le)
  ultimately show ?thesis
    by (auto simp: lookup_def is_dir_def entries_def edge_def not_le not_less Let_def)
qed

lemma lookup_refers:
  assumes "fs_inv s" "lookup s d c \<noteq> NONE32"
  obtains i where "refers s d i (lookup s d c)" "entry_has_name (entries s d ! i) c" "length c < 28"
    "find_entry (entries s d) c = Some (entries s d ! i)"
proof -
  from assms(2) obtain e where e: "find_entry (entries s d) c = Some e" "is_dir s d" "length c < 28"
    "lookup s d c = einode e"
    by (auto simp: lookup_entries[OF assms(1)] edge_def split: if_splits option.splits)
  from e(1) obtain i where i: "i < length (entries s d)" "entries s d ! i = e" "in_use e = 1"
    "entry_has_name e c"
    by (rule find_entry_Some)
  then show ?thesis
    using that[of i] e i fs_invD(1)[OF assms(1)] by (simp add: refers_def)
qed

lemma lookup_ok:
  assumes "fs_ok s" "lookup s d c \<noteq> NONE32"
  shows "lookup s d c < 200" "itype (inode_of s (lookup s d c)) \<noteq> 0"
proof -
  obtain i where "refers s d i (lookup s d c)"
    using lookup_refers[OF fs_okD(1)[OF assms(1)] assms(2)] by metis
  from fs_okD(5,6)[OF assms(1) this]
  show "lookup s d c < 200" "itype (inode_of s (lookup s d c)) \<noteq> 0" .
qed

lemma resolve_ok:
  assumes "fs_ok s"
  shows "cur < 200 \<Longrightarrow> itype (inode_of s cur) \<noteq> 0 \<Longrightarrow> resolve s cur cs \<noteq> NONE32 \<Longrightarrow>
    resolve s cur cs < 200 \<and> itype (inode_of s (resolve s cur cs)) \<noteq> 0"
proof (induction cs arbitrary: cur)
  case (Cons c cs)
  let ?n = "lookup s cur c"
  from Cons.prems have n: "?n \<noteq> NONE32" by (auto simp: Let_def)
  then have r: "resolve s cur (c # cs) = resolve s ?n cs" by (simp add: Let_def)
  with Cons.prems have "resolve s ?n cs \<noteq> NONE32" by simp
  from Cons.IH[OF lookup_ok[OF assms n] this] show ?case unfolding r .
qed simp

lemma find_inode_ok:
  assumes "fs_ok s" "find_inode_by_path s p = Some n" "n \<noteq> NONE32"
  shows "n < 200" "itype (inode_of s n) \<noteq> 0"
  using resolve_ok[OF assms(1), of "root_inode (superblock s)" "components p"] assms(3)
    find_inode_defined[OF assms(2)] fs_okD(4)[OF assms(1)] by (auto simp: is_dir_def)

lemma find_inode_eq:
  "length p \<le> 254 \<Longrightarrow> find_inode_by_path s p = Some (resolve s (root_inode (superblock s)) (components p))"
  using find_inode_resolve normalize_path_eq by blast

section \<open>Nothing reachable has changed\<close>

text \<open>
  Block 0 is an exception: an operation that fails may have taken it and not given it back,
  because an inode whose block is 0 counts as having no block.
\<close>

definition fs_same :: "fs \<Rightarrow> fs \<Rightarrow> bool" where
  "fs_same s t \<longleftrightarrow> fs_inv t \<and> root_inode (superblock t) = root_inode (superblock s) \<and>
     (\<forall>m. if itype (inode_of s m) = 0 then itype (inode_of t m) = 0
          else inode_of t m = inode_of s m) \<and>
     (\<forall>b. is_block_free t b \<longrightarrow> is_block_free s b) \<and>
     (\<forall>b. b \<noteq> 0 \<longrightarrow> is_block_free s b \<longrightarrow> is_block_free t b) \<and>
     (\<forall>b. \<not> is_block_free s b \<longrightarrow> data_block t b = data_block s b)"

lemma fs_sameD:
  assumes "fs_same s t"
  shows "fs_inv t" "root_inode (superblock t) = root_inode (superblock s)"
    "itype (inode_of t m) = itype (inode_of s m)"
    "itype (inode_of s m) \<noteq> 0 \<Longrightarrow> inode_of t m = inode_of s m"
    "is_block_free t b \<Longrightarrow> is_block_free s b"
    "\<not> is_block_free s b \<Longrightarrow> data_block t b = data_block s b"
    "b \<noteq> 0 \<Longrightarrow> is_block_free s b \<Longrightarrow> is_block_free t b"
  using assms unfolding fs_same_def by (metis (full_types))+

lemma fs_same_refl: "fs_inv s \<Longrightarrow> fs_same s s"
  by (simp add: fs_same_def)

lemma fs_same_trans: "fs_same s t \<Longrightarrow> fs_same t u \<Longrightarrow> fs_same s u"
  unfolding fs_same_def by (metis (full_types))

lemma fs_same_is_dir: "fs_same s t \<Longrightarrow> is_dir t d = is_dir s d"
  by (simp add: is_dir_def fs_sameD)

lemma fs_same_is_file: "fs_same s t \<Longrightarrow> is_file t d = is_file s d"
  by (simp add: is_file_def fs_sameD)

lemma fs_same_entries:
  assumes "fs_inv s" "fs_same s t" "is_dir s d"
  shows "entries t d = entries s d"
proof -
  have i: "inode_of t d = inode_of s d"
    using fs_sameD(4)[OF assms(2)] is_dir_not_free[OF assms(3)] by blast
  have "data_block t (dir_block s d) = data_block s (dir_block s d)"
    using dir_block_cases[OF assms(1) is_dir_less[OF assms(3)]] fs_sameD(6)[OF assms(2)]
    by fastforce
  with i show ?thesis unfolding entries_def by (simp add: read_dir_data)
qed

lemma fs_same_refers: "fs_inv s \<Longrightarrow> fs_same s t \<Longrightarrow> refers t d i n = refers s d i n"
  by (auto simp: refers_def fs_same_is_dir fs_same_entries)

lemma fs_same_lookup:
  assumes "fs_inv s" "fs_same s t"
  shows "lookup t d c = lookup s d c"
  using fs_same_entries[OF assms] lookup_entries[OF assms(1), of d c]
    lookup_entries[OF fs_sameD(1)[OF assms(2)], of d c]
  by (simp add: fs_same_is_dir[OF assms(2)])

lemma fs_same_resolve:
  assumes "fs_inv s" "fs_same s t"
  shows "resolve t d cs = resolve s d cs"
  by (induction cs arbitrary: d) (simp_all add: fs_same_lookup[OF assms] Let_def)

lemma fs_same_ok: "fs_ok s \<Longrightarrow> fs_same s t \<Longrightarrow> fs_ok t"
  using fs_okD[of s] fs_same_entries[of s t]
  by (intro fs_okI) (auto simp: fs_same_refers fs_same_is_dir fs_same_is_file fs_sameD, auto simp: refers_def)

section \<open>One inode has been added\<close>

text \<open>
  \<open>fs_adds s P name n t\<close>: the inode \<open>n\<close>, free in \<open>s\<close>, is in use in \<open>t\<close> and the first unused entry
  of the directory \<open>P\<close> now refers to it; a directory \<open>n\<close> has the entries \<open>.\<close> and \<open>..\<close>. The entry is
  lost when \<open>P\<close> has no block, and when it is the last one of the block.
\<close>

definition added_entry :: "fs \<Rightarrow> u32 \<Rightarrow> bytes \<Rightarrow> u32 \<Rightarrow> fs \<Rightarrow> nat \<Rightarrow> fs_dir_entry \<Rightarrow> bool" where
  "added_entry s P name n t i e \<longleftrightarrow>
     i < 15 \<and> in_use (entries s P ! i) \<noteq> 1 \<and> (\<forall>j < i. in_use (entries s P ! j) = 1) \<and>
     in_use e = 1 \<and> einode e = n \<and> (\<forall>c. entry_has_name e c \<longleftrightarrow> c = name) \<and>
     0 \<in> set (ename e) \<and> (dir_block s P \<noteq> 0 \<longrightarrow> entries t P = cut_dir ((entries s P)[i := e]))"

definition fs_adds :: "fs \<Rightarrow> u32 \<Rightarrow> bytes \<Rightarrow> u32 \<Rightarrow> fs \<Rightarrow> bool" where
  "fs_adds s P name n t \<longleftrightarrow>
     fs_inv t \<and> root_inode (superblock t) = root_inode (superblock s) \<and> is_dir s P \<and>
     n < 200 \<and> itype (inode_of s n) = 0 \<and> itype (inode_of t n) \<noteq> 0 \<and>
     (\<forall>m. m \<noteq> n \<longrightarrow> inode_of t m = inode_of s m) \<and>
     (\<forall>b. \<not> is_block_free s b \<longrightarrow> \<not> is_block_free t b \<and>
        (b \<noteq> dir_block s P \<longrightarrow> data_block t b = data_block s b)) \<and>
     (\<exists>i e. added_entry s P name n t i e) \<and>
     (is_dir t n \<longrightarrow> (\<exists>d. dot_dir n P = Some d \<and>
        (dir_block t n \<noteq> 0 \<longrightarrow> entries t n = cut_dir d)))"

text \<open>There is a block, and room for an entry in the part of it that reaches the disk.\<close>

definition room :: "fs \<Rightarrow> u32 \<Rightarrow> bool" where
  "room s P \<longleftrightarrow> dir_block s P \<noteq> 0 \<and> (\<exists>i < 14. in_use (entries s P ! i) \<noteq> 1)"

lemma fs_addsD:
  assumes "fs_adds s P name n t"
  shows "fs_inv t" "root_inode (superblock t) = root_inode (superblock s)" "is_dir s P"
    "n < 200" "itype (inode_of s n) = 0" "itype (inode_of t n) \<noteq> 0"
    "m \<noteq> n \<Longrightarrow> inode_of t m = inode_of s m"
    "\<not> is_block_free s b \<Longrightarrow> \<not> is_block_free t b"
    "\<not> is_block_free s b \<Longrightarrow> b \<noteq> dir_block s P \<Longrightarrow> data_block t b = data_block s b"
    "P \<noteq> n" "is_dir s d \<Longrightarrow> d \<noteq> n"
  using assms unfolding fs_adds_def is_dir_def by auto

lemma fs_adds_is_dir: "fs_adds s P name n t \<Longrightarrow> d \<noteq> n \<Longrightarrow> is_dir t d = is_dir s d"
  by (simp add: is_dir_def fs_addsD)

lemma fs_adds_is_file: "fs_adds s P name n t \<Longrightarrow> d \<noteq> n \<Longrightarrow> is_file t d = is_file s d"
  by (simp add: is_file_def fs_addsD)

lemma fs_adds_entries_other:
  assumes "fs_inv s" "fs_adds s P name n t" "is_dir s d" "d \<noteq> P \<or> dir_block s P = 0"
  shows "entries t d = entries s d"
proof -
  note a = fs_addsD[OF assms(2)]
  have i: "inode_of t d = inode_of s d" using a(7,11) assms(3) by blast
  have "data_block t (dir_block s d) = data_block s (dir_block s d)"
  proof (cases "dir_block s d = 0")
    case False
    then have "dir_block s d \<noteq> dir_block s P"
      using dir_block_inj[OF assms(1), of d P] a(3) assms(3,4) by (auto simp: is_dir_def)
    with a(9) dir_block_cases[OF assms(1) is_dir_less[OF assms(3)]] False show ?thesis by blast
  qed simp
  with i show ?thesis unfolding entries_def by (simp add: read_dir_data)
qed

lemma in_use_cut: "length d = 15 \<Longrightarrow> in_use (cut_dir d ! 14) = 0"
  by (simp add: cut_dir_def cut_entry_def)

lemma cut_dir_nth: "length d = 15 \<Longrightarrow> i < 14 \<Longrightarrow> cut_dir d ! i = d ! i"
  by (simp add: cut_dir_def)

lemma dot_dir_eq:
  assumes "dot_dir self parent = Some d"
  obtains e0 e1 where "d = e0 # e1 # replicate 13 zero_entry" "in_use e0 = 1" "in_use e1 = 1"
    "einode e0 = self" "einode e1 = parent" "\<And>c. entry_has_name e0 c \<longleftrightarrow> c = lit ''.''"
    "\<And>c. entry_has_name e1 c \<longleftrightarrow> c = lit ''..''" "entry_shape e0" "entry_shape e1"
    "0 \<in> set (ename e0)" "0 \<in> set (ename e1)"
proof -
  from assms obtain e0 e1 where e: "set_entry zero_entry (lit ''.'') self = Some e0"
    "set_entry zero_entry (lit ''..'') parent = Some e1" "d = zero_dir[0 := e0, 1 := e1]"
    by (auto simp: dot_dir_def Option.bind_eq_Some_conv)
  have z: "zero_dir = zero_entry # zero_entry # replicate 13 zero_entry"
    by (simp add: zero_dir_def numeral_eq_Suc)
  have "d = e0 # e1 # replicate 13 zero_entry" unfolding e(3) z by simp
  then show ?thesis
    using that set_entry_facts[OF entry_shape_zero _ _ e(1)]
      set_entry_facts[OF entry_shape_zero _ _ e(2)] by simp
qed

lemma dot_dir_refers:
  assumes "dot_dir self parent = Some d" "i < 15" "in_use (d ! i) = 1"
  shows "(einode (d ! i) = self \<or> einode (d ! i) = parent) \<and> 0 \<in> set (ename (d ! i))"
proof -
  from assms(1) obtain e0 e1 where e: "d = e0 # e1 # replicate 13 zero_entry"
    "einode e0 = self" "einode e1 = parent" "0 \<in> set (ename e0)" "0 \<in> set (ename e1)"
    by (rule dot_dir_eq) blast
  consider "i = 0" | "i = 1" | k where "i = Suc (Suc k)"
    by (metis One_nat_def nat.exhaust)
  then show ?thesis using e assms(2,3) by cases (auto simp: zero_entry_def)
qed

lemma fs_adds_refers:
  assumes "fs_ok s" "fs_adds s P name n t" "added_entry s P name n t i e" "refers t d j m"
  shows "(d = n \<and> m \<in> {n, P} \<and> is_dir t n \<or> d = P \<and> j = i \<and> m = n \<or> refers s d j m) \<and>
    0 \<in> set (ename (entries t d ! j))"
proof -
  note inv = fs_okD(1)[OF assms(1)] and sh = fs_okD(2)[OF assms(1)] and a = fs_addsD[OF assms(2)]
  have j: "j < 15" "in_use (entries t d ! j) = 1" "einode (entries t d ! j) = m" "is_dir t d"
    using assms(4) by (simp_all add: refers_def)
  show ?thesis
  proof (cases "d = n")
    case True
    with j(4) assms(2) obtain x where x: "dot_dir n P = Some x"
      "dir_block t n \<noteq> 0 \<Longrightarrow> entries t n = cut_dir x"
      by (auto simp: fs_adds_def)
    have lx: "length x = 15" using x(1) by (rule dot_dir_eq) simp
    have "entries t n = cut_dir x" using x(2) refers_block[OF assms(4)] True by simp
    with j True in_use_cut[OF lx] have "j \<noteq> 14" "in_use (x ! j) = 1" "einode (x ! j) = m"
      "entries t n ! j = x ! j"
      using cut_dir_nth[OF lx, of j] by (auto simp: le_less_Suc_eq numeral_eq_Suc less_Suc_eq)
    with dot_dir_refers[OF x(1) j(1)] True j(4) show ?thesis by auto
  next
    case dn: False
    with j(4) have ds: "is_dir s d" using fs_adds_is_dir[OF assms(2)] by simp
    show ?thesis
    proof (cases "d \<noteq> P \<or> dir_block s P = 0")
      case True
      with j ds have "refers s d j m" "entries t d = entries s d"
        using fs_adds_entries_other[OF inv assms(2) ds] by (simp_all add: refers_def)
      with fs_okD(8)[OF assms(1)] show ?thesis by simp
    next
      case False
      let ?x = "(entries s P)[i := e]"
      have lx: "length ?x = 15" using sh by simp
      have "entries t P = cut_dir ?x" using assms(3) False by (simp add: added_entry_def)
      moreover from this j False in_use_cut[OF lx] have "j < 14"
        by (cases "j = 14") auto
      ultimately have xj: "in_use (?x ! j) = 1" "einode (?x ! j) = m" "entries t P ! j = ?x ! j"
        using j False cut_dir_nth[OF lx, of j] by simp_all
      show ?thesis
      proof (cases "j = i")
        case True
        with xj False assms(3) sh show ?thesis by (auto simp: added_entry_def)
      next
        case ji: False
        with xj ds j(1) False have "refers s d j m" "entries t d ! j = entries s d ! j"
          by (auto simp: refers_def)
        with fs_okD(8)[OF assms(1)] show ?thesis by simp
      qed
    qed
  qed
qed

lemma fs_adds_ok:
  assumes ok: "fs_ok s" and add: "fs_adds s P name n t"
  shows "fs_ok t"
proof -
  note a = fs_addsD[OF add]
  from add obtain i e where e: "added_entry s P name n t i e" by (auto simp: fs_adds_def)
  have r: "d = n \<and> m \<in> {n, P} \<and> is_dir t n \<or> d = P \<and> j = i \<and> m = n \<or> refers s d j m"
    if "refers t d j m" for d j m
    using fs_adds_refers[OF ok add e that] by blast
  have P: "P < 200" "itype (inode_of t P) = 2" using a(3) a(7)[of P] a(10) by (auto simp: is_dir_def)
  have t1: "m < 200 \<and> itype (inode_of t m) \<noteq> 0 \<and> 0 \<in> set (ename (entries t d ! j))"
    if "refers t d j m" for d j m
  proof -
    have nm: "0 \<in> set (ename (entries t d ! j))" using fs_adds_refers[OF ok add e that] by blast
    from r[OF that] consider "m = n" | "m = P" | "m \<noteq> n" "refers s d j m" by blast
    then show ?thesis
      using a(4,6,7) P fs_okD(5,6)[OF ok] nm by cases auto
  qed
  have t2: "d = d' \<and> j = j'" if m: "refers t d j m" "refers t d' j' m" "is_file t m" for d j d' j' m
  proof (cases "m = n")
    case True
    with m(3) have "\<not> is_dir t n" by (simp add: is_dir_def is_file_def)
    moreover have "\<not> refers s d j m" for d j using fs_okD(6)[OF ok, of d j m] a(5) True by blast
    ultimately show ?thesis using r[OF m(1)] r[OF m(2)] by blast
  next
    case False
    moreover have "m \<noteq> P" using m(3) P by (auto simp: is_file_def)
    moreover have "is_file s m" using m(3) fs_adds_is_file[OF add False] by simp
    ultimately show ?thesis using r[OF m(1)] r[OF m(2)] fs_okD(7)[OF ok] by blast
  qed
  have "is_dir t (root_inode (superblock t))"
    using fs_okD(4)[OF ok] a(2) a(11) fs_adds_is_dir[OF add] by simp
  with a(1) t1 t2 show ?thesis by (intro fs_okI)
qed

section \<open>Lookups after an addition\<close>

lemma take_14_last:
  "length d = 15 \<Longrightarrow> in_use (d ! 14) = 0 \<Longrightarrow> find_entry (take 14 d) c = find_entry d c"
proof -
  assume d: "length d = 15" "in_use (d ! 14) = 0"
  then have "d = take 14 d @ [d ! 14]"
    by (intro nth_equalityI) (auto simp: nth_append less_Suc_eq numeral_eq_Suc)
  then have "find_entry d c = find_entry (take 14 d @ [d ! 14]) c" by simp
  with d(2) show ?thesis by (simp add: find_entry_def find_append_eq split: option.split)
qed

lemma entries_last: "fs_shape s \<Longrightarrow> in_use (entries s d ! 14) = 0"
  by (simp add: entries_def read_dir_last)

lemma find_dot_dir:
  assumes "dot_dir self parent = Some d"
  shows "edge (cut_dir d) c =
    (if c = lit ''.'' then self else if c = lit ''..'' then parent else NONE32)"
proof -
  from assms obtain e0 e1 where e: "d = e0 # e1 # replicate 13 zero_entry" "in_use e0 = 1" "in_use e1 = 1"
    "einode e0 = self" "einode e1 = parent" "\<And>c. entry_has_name e0 c \<longleftrightarrow> c = lit ''.''"
    "\<And>c. entry_has_name e1 c \<longleftrightarrow> c = lit ''..''"
    by (rule dot_dir_eq) blast
  have "find_entry (cut_dir d) c = find_entry d c"
    using e(1) find_entry_cut[of d c] take_14_last[of d c] by (simp add: zero_entry_def nth_Cons')
  moreover have "find (\<lambda>e. in_use e = 1 \<and> entry_has_name e c) (replicate 13 zero_entry) = None"
    by (auto simp: find_None_iff zero_entry_def)
  ultimately show ?thesis using e by (simp add: find_entry_def edge_def)
qed

lemma lookup_None:
  assumes "fs_ok s" "is_dir s d" "length c < 28"
  shows "lookup s d c = NONE32 \<longleftrightarrow> find_entry (entries s d) c = None"
proof
  assume l: "lookup s d c = NONE32"
  show "find_entry (entries s d) c = None"
  proof (rule ccontr)
    assume "\<not> ?thesis"
    then obtain e where e: "find_entry (entries s d) c = Some e" by blast
    then have "einode e = NONE32"
      using l assms lookup_entries[OF fs_okD(1)[OF assms(1)], of d c] by (simp add: edge_def)
    moreover from e obtain i where "i < length (entries s d)" "entries s d ! i = e" "in_use e = 1"
      by (rule find_entry_Some)
    then have "refers s d i (einode e)"
      using assms(2) fs_okD(2)[OF assms(1)] by (simp add: refers_def)
    ultimately show False using fs_okD(5)[OF assms(1), of d i NONE32] by simp
  qed
qed (simp add: lookup_entries[OF fs_okD(1)[OF assms(1)]] assms edge_def)

text \<open>Where the new entry lands, when there is room for it.\<close>

lemma fs_adds_find:
  assumes ok: "fs_ok s" and add: "fs_adds s P name n t" and rm: "room s P"
    and new: "lookup s P name = NONE32" and len: "length name < 28"
  shows "edge (entries t P) c = (if c = name then n else edge (entries s P) c)"
proof -
  note sh = fs_okD(2)[OF ok]
  from add obtain i e where e: "added_entry s P name n t i e" by (auto simp: fs_adds_def)
  let ?D = "take 14 (entries s P)"
  from rm obtain j where j: "j < 14" "in_use (entries s P ! j) \<noteq> 1" by (auto simp: room_def)
  with e have "\<not> j < i" by (auto simp: added_entry_def)
  with j have i: "i < 14" by simp
  have f: "find_entry (entries t P) c = find_entry (?D[i := e]) c"
    using e rm sh find_entry_cut[of "(entries s P)[i := e]" c]
    by (simp add: added_entry_def room_def take_update_swap)
  have D: "find_entry ?D c = find_entry (entries s P) c"
    using sh by (intro take_14_last) (simp_all add: entries_last)
  have li: "i < length ?D" using i sh by simp
  have u: "in_use (?D ! i) \<noteq> 1" "in_use e = 1" "einode e = n" "entry_has_name e c \<longleftrightarrow> c = name"
    using e i sh by (simp_all add: added_entry_def)
  show ?thesis
  proof (cases "c = name")
    case True
    with new lookup_None[OF ok fs_addsD(3)[OF add] len] D have "find_entry ?D c = None" by simp
    with find_entry_update_new[OF li, of c e] u f True show ?thesis by (simp add: edge_def)
  next
    case False
    with find_entry_update_other[of ?D i c e] u f D show ?thesis by (simp add: edge_def)
  qed
qed

lemma fs_adds_lookup:
  assumes ok: "fs_ok s" and add: "fs_adds s P name n t" and new: "lookup s P name = NONE32"
    and rm: "room s P" and len: "length name < 28"
  shows "lookup t d c = (if d = P \<and> c = name then n
     else if d = n \<and> is_dir t n \<and> dir_block t n \<noteq> 0 then
       (if c = lit ''.'' then n else if c = lit ''..'' then P else NONE32)
     else lookup s d c)"
proof -
  note inv = fs_okD(1)[OF ok] and a = fs_addsD[OF add]
  note le = lookup_entries[OF inv, of d c] lookup_entries[OF a(1), of d c]
  consider "d = P" | "d = n" | "d \<noteq> P" "d \<noteq> n" by blast
  then show ?thesis
  proof cases
    case 1
    with fs_adds_find[OF ok add rm new len, of c] le len fs_adds_is_dir[OF add, of P] a(3,10)
    show ?thesis by (cases "c = name") simp_all
  next
    case 2
    have sn: "\<not> is_dir s n" using a(5) by (simp add: is_dir_def)
    show ?thesis
    proof (cases "is_dir t n \<and> dir_block t n \<noteq> 0")
      case True
      then obtain x where "dot_dir n P = Some x" "entries t n = cut_dir x"
        using add by (auto simp: fs_adds_def)
      with find_dot_dir[of n P x c] 2 True a(10) le show ?thesis by auto
    next
      case False
      with 2 sn le(1) a(10) have "lookup t n c = NONE32 \<longrightarrow> ?thesis" by auto
      moreover have "lookup t n c = NONE32"
        using False by (auto simp: lookup_def is_dir_def)
      ultimately show ?thesis by blast
    qed
  next
    case 3
    with le fs_adds_is_dir[OF add] fs_adds_entries_other[OF inv add] show ?thesis by simp
  qed
qed

text \<open>Every path that resolved before still resolves, to the same inode.\<close>

lemma fs_adds_mono:
  assumes "fs_ok s" "fs_adds s P name n t" "lookup s P name = NONE32" "room s P" "length name < 28"
    "resolve s cur cs \<noteq> NONE32"
  shows "resolve t cur cs = resolve s cur cs"
proof (rule resolve_mono[OF _ assms(6)])
  fix d c
  assume l: "lookup s d c \<noteq> NONE32"
  have "d \<noteq> n" using l fs_addsD(5)[OF assms(2)] lookup_entries[OF fs_okD(1)[OF assms(1)], of d c]
    by (auto simp: is_dir_def)
  moreover have "\<not> (d = P \<and> c = name)" using l assms(3) by blast
  ultimately show "lookup t d c = lookup s d c"
    unfolding fs_adds_lookup[OF assms(1-5), of d c] by (simp only: if_False simp_thms)
qed

end
