(* ===== verification/FsDir.thy ===== *)
theory FsDir
  imports FsTree
begin

text \<open>
  \<open>fs_create_dir\<close>: what a call does to the directory graph, on every branch; that it stays inside
  its buffers and keeps the invariants; and that the new path resolves to a directory holding
  \<open>.\<close> and \<open>..\<close> while every path that resolved before resolves as before.
\<close>

section \<open>Adding an entry to the parent\<close>

text \<open>The step shared with \<open>fs_create_file\<close>: the parent's block is read, changed and written.\<close>

lemma add_to_parent:
  assumes inv: "fs_inv u" and P: "P < 200" and name: "c_string name" "length name < 28"
  obtains i e d where "add_entry (read_dir u (dir_block u P)) name n = Some (True, d)"
    "dir_shape d" "i < 15" "in_use (entries u P ! i) \<noteq> 1" "\<And>j. j < i \<Longrightarrow> in_use (entries u P ! j) = 1"
    "in_use e = 1" "einode e = n" "\<And>c. entry_has_name e c \<longleftrightarrow> c = name" "d = (entries u P)[i := e]"
    "0 \<in> set (ename e)" "dir_block u P \<noteq> 0 \<Longrightarrow> entries (write_dir u (dir_block u P) d) P = cut_dir d"
proof -
  let ?b = "dir_block u P"
  have sh: "fs_shape u" using inv by (rule fs_invD)
  obtain i e where a: "add_entry (read_dir u ?b) name n = Some (True, (read_dir u ?b)[i := e])"
    "i < 15" "in_use (read_dir u ?b ! i) \<noteq> 1" "\<And>j. j < i \<Longrightarrow> in_use (read_dir u ?b ! j) = 1"
    "set_entry (read_dir u ?b ! i) name n = Some e" "dir_shape ((read_dir u ?b)[i := e])"
    using add_entry_read_dir[OF sh name, of ?b n] by metis
  have "entry_shape (read_dir u ?b ! i)" using dir_shape_nth[OF dir_shape_read_dir[OF sh] a(2)] .
  note f = set_entry_facts[OF this name a(5)]
  have "entries (write_dir u ?b d) P = cut_dir d" if "?b \<noteq> 0" "dir_shape d" for d
    using that dir_block_cases[OF inv P] by (simp add: entries_def read_write_dir)
  then show ?thesis using that[of "(entries u P)[i := e]" i e] a f by (simp add: entries_def)
qed

section \<open>\<open>create_dir_in\<close>\<close>

abbreviation (input) fresh_dir :: "u32 \<Rightarrow> u32 \<Rightarrow> fs_inode" where
  "fresh_dir P b \<equiv> \<lparr>itype = INODE_TYPE_DIR, isize = 0, iblocks = (replicate 12 0)[0 := b], parent_inode = P\<rparr>"

lemma create_dir_in_success:
  assumes inv: "fs_inv s" and P: "is_dir s P" and name: "c_string name" "length name < 28"
    and n: "allocate_inode s = (n, s1)" "n \<noteq> NONE32"
    and s2: "s2 = upd_inode s1 n (\<lambda>x. x\<lparr>itype := INODE_TYPE_DIR, isize := 0, parent_inode := P\<rparr>)"
    and b: "allocate_block s2 = (b, s3)" "b \<noteq> NONE32"
    and s4: "s4 = upd_inode s3 n (\<lambda>x. x\<lparr>iblocks := (iblocks x)[0 := b]\<rparr>)"
  shows "\<exists>t. create_dir_in P name s = Some (0, t) \<and> fs_adds s P name n t \<and> is_dir t n \<and>
    dir_block t n = b \<and> is_block_free s b \<and> (\<forall>c. is_block_free s c \<longrightarrow> b \<le> c) \<and> (\<forall>c. is_block_free t c \<longleftrightarrow> is_block_free s c \<and> c \<noteq> b) \<and>
    disk t 100 = disk s 100 \<and> synced_bm t"
proof -
  note f1 = allocate_inode_facts[OF inv n]
  have "fs_inv s2" unfolding s2 using f1 by (intro fs_inv_upd_fields) auto
  note f3 = allocate_block_facts[OF this b]
  have io2: "inode_of s2 m = (if m = n then \<lparr>itype = 2, isize = 0, iblocks = replicate 12 0, parent_inode = P\<rparr>
      else inode_of s m)" for m
    by (simp add: s2 inode_upd_inode[OF fs_invD(1)[OF f1(1)] f1(2)] f1(4))
  have b3: "b < 512" "is_block_free s b" "\<And>c. is_block_free s3 c \<longleftrightarrow> is_block_free s c \<and> c \<noteq> b"
    using f3(2-4) f1(5) by (simp_all add: s2)
  have io4: "inode_of s4 m = (if m = n then fresh_dir P b else inode_of s m)" for m
    by (simp add: s4 inode_upd_inode[OF fs_invD(1)[OF f3(1)] f1(2)] f3(5) io2)
  have bf4: "is_block_free s4 c \<longleftrightarrow> is_block_free s c \<and> c \<noteq> b" for c by (simp add: s4 b3)
  have d4: "disk s4 = disk s" "root_inode (superblock s4) = root_inode (superblock s)"
    using f1(6,8) f3(6,8) by (simp_all add: s4 s2)
  have inv4: "fs_inv s4" unfolding s4
    using f1(2) f3 io2 b3 by (intro fs_inv_set_block[OF f3(1)]) auto
  obtain nd where nd: "dot_dir n P = Some nd" "dir_shape nd" using dot_dir_Some by metis
  define s5 where "s5 = write_dir s4 b nd"
  have inv5: "fs_inv s5" unfolding s5_def using inv4 nd(2) by (rule fs_inv_write_dir)
  have P': "P < 200" "P \<noteq> n" using P f1(3) by (auto simp: is_dir_def)
  obtain i e d where a: "add_entry (read_dir s5 (dir_block s5 P)) name n = Some (True, d)"
    "dir_shape d" "i < 15" "in_use (entries s5 P ! i) \<noteq> 1" "\<And>j. j < i \<Longrightarrow> in_use (entries s5 P ! j) = 1"
    "in_use e = 1" "einode e = n" "\<And>c. entry_has_name e c \<longleftrightarrow> c = name" "d = (entries s5 P)[i := e]"
    "0 \<in> set (ename e)" "dir_block s5 P \<noteq> 0 \<Longrightarrow> entries (write_dir s5 (dir_block s5 P) d) P = cut_dir d"
    using add_to_parent[OF inv5 P'(1) name, of n] by metis
  define t where "t = sync_block_bitmap (sync_inode_table (write_dir s5 (dir_block s5 P) d))"
  have run: "create_dir_in P name s = Some (0, t)"
    using P n s2 b s4 nd(1) a(1) leD[of 200 P]
    by (auto simp: create_dir_in_def is_dir_def t_def s5_def Let_def)
  have invt: "fs_inv t" unfolding t_def using inv5 a(2) by (intro inv_intros)
  have iot: "inode_of t m = (if m = n then fresh_dir P b else inode_of s m)" for m
    by (simp add: t_def s5_def io4)
  have bft: "is_block_free t c \<longleftrightarrow> is_block_free s c \<and> c \<noteq> b" for c
    by (simp add: t_def s5_def bf4)
  have pb: "dir_block s5 P = dir_block s P" using P' by (simp add: s5_def io4)
  have pbb: "dir_block s P = 0 \<or> dir_block s P \<noteq> b"
    using dir_block_cases[OF inv P'(1)] b3(2) by auto
  have db5: "data_block s5 c = (if c = b \<and> b \<noteq> 0 then take 512 (enc_dir nd) else data_block s c)" for c
    using b3(1) data_block_cong[OF d4(1), of c] by (auto simp: s5_def write_dir_def data_block_write)
  have dbt: "data_block t c = (if c = dir_block s P \<and> c \<noteq> 0 then take 512 (enc_dir d) else data_block s5 c)" for c
    using dir_block_cases[OF inv P'(1)] by (auto simp: t_def write_dir_def data_block_write pb)
  have "data_block s5 (dir_block s P) = data_block s (dir_block s P)" using pbb by (auto simp: db5)
  with pb have e5: "entries s5 P = entries s P" unfolding entries_def by (simp add: read_dir_data)
  have et: "entries t P = entries (write_dir s5 (dir_block s5 P) d) P"
    by (simp add: t_def entries_def read_dir_data)
  have added: "added_entry s P name n t i e"
    using a e5 et pb by (simp add: added_entry_def)
  have "entries t n = cut_dir nd" if "b \<noteq> 0"
  proof -
    have "data_block t b = data_block s5 b" using pbb that by (auto simp: dbt)
    then have "entries t n = read_dir s5 b" unfolding entries_def by (simp add: read_dir_data iot)
    also have "\<dots> = cut_dir nd" unfolding s5_def using that b3(1) nd(2) by (rule read_write_dir)
    finally show ?thesis .
  qed
  then have new: "\<exists>d. dot_dir n P = Some d \<and> (dir_block t n \<noteq> 0 \<longrightarrow> entries t n = cut_dir d)"
    using nd(1) by (simp add: iot)
  have "data_block t c = data_block s c" if "\<not> is_block_free s c" "c \<noteq> dir_block s P" for c
    using that b3(2) by (auto simp: dbt db5)
  moreover have "root_inode (superblock t) = root_inode (superblock s)"
    using d4(2) by (simp add: t_def s5_def)
  ultimately have "fs_adds s P name n t"
    unfolding fs_adds_def using invt P f1(2,3) added new b3(2) bft iot by auto
  moreover have "b \<le> c" if "is_block_free s c" for c
    using allocate_block_least[OF fs_invD(1)[OF \<open>fs_inv s2\<close>] b, of c] that f1(5) by (simp add: s2)
  moreover have "disk t 100 = disk s 100" using d4(1)
    by (simp add: t_def s5_def write_dir_def write_inode_block_def sync_disk disk_write_apply)
  moreover have "synced_bm t" unfolding t_def
    using inv5 a(2) by (intro synced_sync) (auto intro!: inv_intros dest: fs_invD(1))
  ultimately show ?thesis using run b3(2) bft f1(2) by (simp add: is_dir_def iot)
qed

lemma fs_same_free_inode:
  assumes inv: "fs_inv u" and n: "n < 200" "itype (inode_of u n) \<noteq> 0" "itype (inode_of s n) = 0"
    and root: "root_inode (superblock u) = root_inode (superblock s)"
    and io: "\<And>m. m \<noteq> n \<Longrightarrow> inode_of u m = inode_of s m"
    and bf: "\<And>b. is_block_free u b \<or> (\<exists>j. owns u n j b) \<Longrightarrow> is_block_free s b"
    and bf0: "\<And>b. b \<noteq> 0 \<Longrightarrow> is_block_free s b \<Longrightarrow> is_block_free u b \<or> (\<exists>j. owns u n j b)"
    and db: "\<And>b. \<not> is_block_free s b \<Longrightarrow> data_block u b = data_block s b"
  shows "fs_same s (free_inode u n)"
proof -
  note f = free_inode_spec[OF inv n(1,2)]
  show ?thesis
    using f n io bf bf0 db root data_block_cong[OF f(5)]
    by (auto simp: fs_same_def) (metis f(3))+
qed

lemma create_dir_in_result:
  assumes inv: "fs_inv s" and P: "P < 200" and name: "c_string name" "length name < 28"
  obtains (failed) t where "create_dir_in P name s = Some (-1, t)" "fs_same s t"
      "\<not> (is_dir s P \<and> free_inode_set s \<noteq> {} \<and> free_block_set s \<noteq> {})"
    | (created) n t where "create_dir_in P name s = Some (0, t)" "fs_adds s P name n t" "is_dir t n"
        "is_block_free s (dir_block t n)" "\<And>c. is_block_free s c \<Longrightarrow> dir_block t n \<le> c"
        "\<And>c. is_block_free t c \<longleftrightarrow> is_block_free s c \<and> c \<noteq> dir_block t n"
        "disk t 100 = disk s 100" "synced_bm t"
proof -
  note sh = fs_invD(1)[OF inv]
  obtain n s1 where n: "allocate_inode s = (n, s1)" by fastforce
  define s2 where "s2 = upd_inode s1 n (\<lambda>x. x\<lparr>itype := INODE_TYPE_DIR, isize := 0, parent_inode := P\<rparr>)"
  obtain b s3 where b: "allocate_block s2 = (b, s3)" by fastforce
  consider "\<not> is_dir s P" | "is_dir s P" "n = NONE32" | "is_dir s P" "n \<noteq> NONE32" "b = NONE32"
    | "is_dir s P" "n \<noteq> NONE32" "b \<noteq> NONE32" by blast
  then show ?thesis
  proof cases
    case 1
    with P fs_same_refl[OF inv] show ?thesis
      by (intro failed[of s]) (auto simp: create_dir_in_def is_dir_def leD)
  next
    case 2
    then have "s1 = s" "free_inode_set s = {}"
      using allocate_inode_full[OF inv] n inodes.alloc_none_iff[OF sh] by auto
    with 2 P n fs_same_refl[OF inv] show ?thesis
      by (intro failed[of s]) (auto simp: create_dir_in_def is_dir_def leD)
  next
    case 3
    note f1 = allocate_inode_facts[OF inv n 3(2)]
    have inv2: "fs_inv s2" unfolding s2_def using f1 by (intro fs_inv_upd_fields) auto
    have s32: "s3 = s2" "free_block_set s2 = {}"
      using allocate_block_full[OF inv2] b 3 blocks.alloc_none_iff[OF fs_invD(1)[OF inv2]] by auto
    then have "free_block_set s = {}" using f1(5) by (simp add: free_block_set_def s2_def)
    moreover have io: "inode_of s2 m = (if m = n
        then \<lparr>itype = 2, isize = 0, iblocks = replicate 12 0, parent_inode = P\<rparr> else inode_of s m)" for m
      by (simp add: s2_def inode_upd_inode[OF fs_invD(1)[OF f1(1)] f1(2)] f1(4))
    moreover have "data_block s2 c = data_block s c" for c
      by (rule data_block_cong) (simp add: s2_def f1(6))
    moreover have "\<not> owns s2 n j c" for j c by (auto simp: owns_def io)
    ultimately have "fs_same s (free_inode s2 n)"
      using f1 inv2 by (intro fs_same_free_inode) (simp_all add: s2_def)
    with 3 P n b s32 \<open>free_block_set s = {}\<close> s2_def show ?thesis
      by (intro failed[of "free_inode s2 n"]) (auto simp: create_dir_in_def is_dir_def leD)
  next
    case 4
    from create_dir_in_success[OF inv 4(1) name n 4(2) s2_def b 4(3) refl] created
    show ?thesis by metis
  qed
qed

section \<open>Paths that fit\<close>

text \<open>A C string that fits the 256-byte buffers, whose components fit the 28-byte names.\<close>

definition good_path :: "bytes \<Rightarrow> bool" where
  "good_path p \<longleftrightarrow> c_string p \<and> length p \<le> 254 \<and> (\<forall>c \<in> set (components p). length c < 28)"

lemma components_root [simp]: "components [SLASH] = []"
  by (simp add: components_def)

lemma good_path_root [simp]: "good_path [SLASH]"
  by (simp add: good_path_def c_string_def)

lemma c_string_render: "\<forall>c \<in> set cs. c_string c \<Longrightarrow> c_string (render cs)"
  by (induction cs) (auto simp: c_string_def)

lemma c_string_abs_path: "\<forall>c \<in> set cs. c_string c \<Longrightarrow> c_string (abs_path cs)"
  using c_string_render[of cs] by (auto simp: abs_path_def c_string_def)

lemma length_render_components: "length (render (components p)) \<le> length p + 1"
  using length_comps[of p "[]"] by (simp add: components_def)

lemma good_path_split:
  assumes "good_path p"
  obtains (top) "components p = []" "split_path p 28 = Some ([SLASH], [])"
    | (below) cs c where "components p = cs @ [c]" "split_path p 28 = Some (abs_path cs, c)"
        "component c" "c_string c" "length c < 28" "good_path (abs_path cs)"
        "components (abs_path cs) = cs"
proof -
  have n: "normalize_path p = Some (abs_path (components p))"
    using assms by (simp add: good_path_def normalize_path_eq)
  show ?thesis
  proof (cases "components p" rule: rev_cases)
    case Nil
    with split_path_root[OF n] top show ?thesis by simp
  next
    case (snoc cs c)
    have comp: "\<forall>x \<in> set (cs @ [c]). component x \<and> c_string x \<and> length x < 28"
      using snoc components_component[of _ p] c_string_components[of p] assms
      by (auto simp: good_path_def)
    moreover from comp have "components (abs_path cs) = cs" by (intro components_abs_path) simp
    moreover have "length (abs_path cs) \<le> 254"
      using length_render_components[of p] assms snoc comp
      by (auto simp: abs_path_def good_path_def component_def)
    moreover have "c_string (abs_path cs)" using comp by (intro c_string_abs_path) simp
    ultimately show ?thesis
      using below[OF snoc] split_path_snoc[OF n snoc, of 28] by (simp add: good_path_def)
  qed
qed

lemma good_path_find:
  "good_path p \<Longrightarrow> find_inode_by_path s p = Some (resolve s (root_inode (superblock s)) (components p))"
  by (simp add: good_path_def find_inode_eq)

abbreviation resolves :: "fs \<Rightarrow> bytes list \<Rightarrow> u32" where
  "resolves s cs \<equiv> resolve s (root_inode (superblock s)) cs"

lemma resolves_ok:
  "fs_ok s \<Longrightarrow> resolves s cs \<noteq> NONE32 \<Longrightarrow> resolves s cs < 200 \<and> itype (inode_of s (resolves s cs)) \<noteq> 0"
  using resolve_ok[of s] fs_okD(4)[of s] by (simp add: is_dir_def)

section \<open>\<open>fs_create_dir\<close>\<close>

lemma fs_create_dir_top:
  "good_path p \<Longrightarrow> components p = [] \<Longrightarrow> fs_create_dir p s = Some (-1, s)"
  by (erule good_path_split; subst fs_create_dir.simps) simp_all

lemma fs_create_dir_exists:
  assumes "good_path p" "components p \<noteq> []" "resolves s (components p) \<noteq> NONE32"
  shows "fs_create_dir p s = Some (0, s)"
  using assms(1)
proof (cases rule: good_path_split)
  case (below cs c)
  with assms good_path_find[OF assms(1)] show ?thesis
    by (subst fs_create_dir.simps) (simp add: component_def)
qed (use assms in simp)

lemma fs_create_dir_below:
  assumes "good_path p" "components p = cs @ [c]" "resolves s (cs @ [c]) = NONE32"
    "resolves s cs \<noteq> NONE32"
  shows "fs_create_dir p s = create_dir_in (resolves s cs) c s"
  using assms(1)
proof (cases rule: good_path_split)
  case (below cs' c')
  with assms good_path_find[OF assms(1)] good_path_find[of "abs_path cs"] show ?thesis
    by (subst fs_create_dir.simps) (simp add: component_def)
qed (use assms in simp)

lemma fs_create_dir_rec:
  assumes "good_path p" "components p = cs @ [c]" "resolves s (cs @ [c]) = NONE32"
    "resolves s cs = NONE32" "cs \<noteq> []"
  shows "fs_create_dir p s = do {
    (r, s1) \<leftarrow> fs_create_dir (abs_path cs) s;
    if r \<noteq> 0 then Some (-1, s1)
    else if resolves s1 cs = NONE32 then Some (-1, s1)
    else create_dir_in (resolves s1 cs) c s1 }"
  using assms(1)
proof (cases rule: good_path_split)
  case (below cs' c')
  then have "components (abs_path cs) = cs" using assms(2) by simp
  then have "abs_path cs \<noteq> lit ''/''" using assms(5) by auto
  with assms good_path_find[OF assms(1)] good_path_find[of "abs_path cs"] below show ?thesis
    by (subst fs_create_dir.simps, cases "fs_create_dir (abs_path cs) s") (auto simp: component_def)
qed (use assms in simp)

text \<open>No file is longer than \<open>FS_MAX_FILE_SIZE\<close>.\<close>

definition sizes_ok :: "fs \<Rightarrow> bool" where
  "sizes_ok s \<longleftrightarrow> (\<forall>n. is_file s n \<longrightarrow> unat (isize (inode_of s n)) \<le> 16384)"

text \<open>Block 0, once taken, is never given back; and the sizes stay in their bound.\<close>

definition keeps_0 :: "fs \<Rightarrow> fs \<Rightarrow> bool" where
  "keeps_0 s t \<longleftrightarrow> (is_block_free t 0 \<longrightarrow> is_block_free s 0) \<and> (sizes_ok s \<longrightarrow> sizes_ok t)"

lemma keeps_0_refl: "keeps_0 s s" by (simp add: keeps_0_def)

lemma keeps_0_trans: "keeps_0 s t \<Longrightarrow> keeps_0 t u \<Longrightarrow> keeps_0 s u" by (simp add: keeps_0_def)

lemma keeps_0_same: "fs_same s t \<Longrightarrow> keeps_0 s t"
  using fs_sameD(4)[of s t] by (auto simp: keeps_0_def sizes_ok_def fs_same_is_file is_file_def fs_sameD(3) dest: fs_sameD(5))

lemma keeps_0_adds:
  assumes "fs_adds s P c n t" "is_dir t n \<or> unat (isize (inode_of t n)) \<le> 16384"
  shows "keeps_0 s t"
proof -
  have "unat (isize (inode_of t m)) \<le> 16384" if "sizes_ok s" "is_file t m" for m
    using that assms fs_addsD(7)[OF assms(1), of m]
    by (cases "m = n") (auto simp: sizes_ok_def is_file_def is_dir_def)
  then show ?thesis using fs_addsD(8)[OF assms(1)] by (auto simp: keeps_0_def sizes_ok_def)
qed

text \<open>
  Every branch: the call returns 0 or -1, keeps the invariants, and no path that resolved
  before becomes unresolvable.
\<close>

lemma fs_create_dir_total:
  assumes "fs_ok s" "good_path p"
  shows "\<exists>r t. fs_create_dir p s = Some (r, t) \<and> fs_ok t \<and> keeps_0 s t \<and> r \<in> {0, -1}"
  using assms
proof (induction "length (components p)" arbitrary: p)
  case 0
  then show ?case by (simp add: fs_create_dir_top keeps_0_refl)
next
  case (Suc k)
  have step: "\<exists>r t. create_dir_in P c u = Some (r, t) \<and> fs_ok t \<and> keeps_0 u t \<and> r \<in> {0, -1}"
    if "fs_ok u" "P < 200" "c_string c" "length c < 28" for u P c
    using fs_okD(1)[OF that(1)] that(2-4)
    by (cases rule: create_dir_in_result)
      (auto intro: fs_same_ok[OF that(1)] fs_adds_ok[OF that(1)] keeps_0_same keeps_0_adds)
  from \<open>good_path p\<close> show ?case
  proof (cases rule: good_path_split)
    case top
    with Suc show ?thesis by simp
  next
    case (below cs c)
    note root = fs_okD(4)[OF \<open>fs_ok s\<close>]
    show ?thesis
    proof (cases "resolves s (cs @ [c]) = NONE32")
      case False
      with fs_create_dir_exists[OF \<open>good_path p\<close>, of s] below Suc.prems show ?thesis by (simp add: keeps_0_refl)
    next
      case new: True
      show ?thesis
      proof (cases "resolves s cs = NONE32")
        case False
        with resolves_ok[OF \<open>fs_ok s\<close>] step[OF \<open>fs_ok s\<close> _ below(4,5)]
          fs_create_dir_below[OF \<open>good_path p\<close> below(1) new False] show ?thesis by simp
      next
        case True
        then have ne: "cs \<noteq> []" using root by (auto simp: is_dir_def)
        have "k = length (components (abs_path cs))" using Suc.hyps(2) below by simp
        from Suc.hyps(1)[OF this \<open>fs_ok s\<close> below(6)] obtain r t where
          rt: "fs_create_dir (abs_path cs) s = Some (r, t)" "fs_ok t" "keeps_0 s t" "r \<in> {0, -1}"
          by blast
        show ?thesis
          using rt resolves_ok[OF rt(2), of cs] step[OF rt(2) _ below(4,5), of "resolves t cs"]
          unfolding fs_create_dir_rec[OF \<open>good_path p\<close> below(1) new True ne] by (auto intro: keeps_0_trans)
      qed
    qed
  qed
qed

text \<open>A new directory in an existing one.\<close>

lemma fs_create_dir_new:
  assumes ok: "fs_ok s" and p: "good_path p" "components p = cs @ [c]"
    and new: "resolves s (cs @ [c]) = NONE32" and P: "is_dir s (resolves s cs)"
    and rm: "room s (resolves s cs)"
    and free: "free_inode_set s \<noteq> {}" "free_block_set s \<noteq> {}" "\<not> is_block_free s 0"
  obtains n t where "fs_create_dir p s = Some (0, t)" "fs_ok t" "itype (inode_of s n) = 0" "is_dir t n"
    "resolves t (cs @ [c]) = n" "\<And>d x. lookup t d x =
       (if d = resolves s cs \<and> x = c then n
        else if d = n then (if x = lit ''.'' then n else if x = lit ''..'' then resolves s cs else NONE32)
        else lookup s d x)"
    "\<And>ds. resolves s ds \<noteq> NONE32 \<Longrightarrow> resolves t ds = resolves s ds"
    "fs_adds s (resolves s cs) c n t" "dir_block t n \<noteq> 0"
proof -
  let ?P = "resolves s cs"
  from p(1) obtain "c_string c" "length c < 28"
    by (cases rule: good_path_split) (use p in auto)
  moreover have P': "?P < 200" "?P \<noteq> NONE32" using P by (auto simp: is_dir_def)
  ultimately obtain n t where c: "create_dir_in ?P c s = Some (0, t)" "fs_adds s ?P c n t" "is_dir t n"
    "is_block_free s (dir_block t n)"
    using create_dir_in_result[OF fs_okD(1)[OF ok] P'(1)] P free(1,2) by metis
  have l: "lookup s ?P c = NONE32" using new by (simp add: resolve_snoc)
  have b: "dir_block t n \<noteq> 0" using c(4) free(3) by auto
  have mono: "resolves t ds = resolves s ds" if "resolves s ds \<noteq> NONE32" for ds
    using fs_adds_mono[OF ok c(2) l rm \<open>length c < 28\<close> that] fs_addsD(2)[OF c(2)] by simp
  have lk: "lookup t d x = (if d = ?P \<and> x = c then n
        else if d = n then (if x = lit ''.'' then n else if x = lit ''..'' then ?P else NONE32)
        else lookup s d x)" for d x
    unfolding fs_adds_lookup[OF ok c(2) l rm \<open>length c < 28\<close>, of d x] using c(3) b by (simp only: simp_thms)
  have "resolves t (cs @ [c]) = n" using mono[OF P'(2)] lk by (simp add: resolve_snoc)
  with that[OF _ fs_adds_ok[OF ok c(2)] _ c(3) _ lk mono c(2) b]
    fs_create_dir_below[OF p new P'(2)] c(1) fs_addsD(5)[OF c(2)]
  show ?thesis by simp
qed

end
