(* ===== verification/FsDelete.thy ===== *)
theory FsDelete
  imports FsDir
begin

text \<open>
  \<open>fs_delete_file\<close>: on every branch, what a call does to the directory graph; a deleted file's
  blocks are free again, its inode is free and no entry refers to it.
\<close>

section \<open>One file has been removed\<close>

text \<open>The entry \<open>i\<close> of \<open>P\<close> referred to the file \<open>f\<close>; in \<open>t\<close> both are gone.\<close>

definition fs_removes :: "fs \<Rightarrow> u32 \<Rightarrow> nat \<Rightarrow> u32 \<Rightarrow> fs \<Rightarrow> bool" where
  "fs_removes s P i f t \<longleftrightarrow>
     fs_inv t \<and> root_inode (superblock t) = root_inode (superblock s) \<and> refers s P i f \<and> is_file s f \<and>
     (\<forall>m. m \<noteq> f \<longrightarrow> inode_of t m = inode_of s m) \<and> itype (inode_of t f) = 0 \<and>
     (\<forall>b. is_block_free t b \<longleftrightarrow> is_block_free s b \<or> (\<exists>j. owns s f j b)) \<and>
     (\<forall>b. b \<noteq> dir_block s P \<longrightarrow> data_block t b = data_block s b) \<and>
     (\<exists>e. in_use e = 0 \<and> entries t P = cut_dir ((entries s P)[i := e]))"

lemma fs_removesD:
  assumes "fs_removes s P i f t"
  shows "fs_inv t" "root_inode (superblock t) = root_inode (superblock s)" "refers s P i f" "is_file s f"
    "m \<noteq> f \<Longrightarrow> inode_of t m = inode_of s m" "itype (inode_of t f) = 0"
    "is_block_free t b \<longleftrightarrow> is_block_free s b \<or> (\<exists>j. owns s f j b)"
    "b \<noteq> dir_block s P \<Longrightarrow> data_block t b = data_block s b" "is_dir s P" "i < 15"
  using assms unfolding fs_removes_def refers_def by auto

lemma fs_removes_is_dir: "fs_removes s P i f t \<Longrightarrow> is_dir t d = is_dir s d"
  using fs_removesD(4-6)[of s P i f t] by (cases "d = f") (auto simp: is_dir_def is_file_def)

lemma fs_removes_is_file: "fs_removes s P i f t \<Longrightarrow> is_file t d \<longleftrightarrow> is_file s d \<and> d \<noteq> f"
  using fs_removesD(5,6)[of s P i f t] by (cases "d = f") (auto simp: is_file_def)

lemma fs_removes_entries:
  assumes "fs_inv s" "fs_removes s P i f t" "is_dir s d" "d \<noteq> P"
  shows "entries t d = entries s d"
proof -
  note a = fs_removesD[OF assms(2)]
  have "d \<noteq> f" using a(4) assms(3) by (auto simp: is_dir_def is_file_def)
  then have i: "inode_of t d = inode_of s d" by (rule a(5))
  have "data_block t (dir_block s d) = data_block s (dir_block s d)"
  proof (cases "dir_block s d = 0")
    case False
    then have "dir_block s d \<noteq> dir_block s P"
      using dir_block_inj[OF assms(1), of d P] a(9) assms(3,4) by (auto simp: is_dir_def)
    with a(8) show ?thesis by blast
  qed simp
  with i show ?thesis unfolding entries_def by (simp add: read_dir_data)
qed

lemma fs_removes_nth:
  assumes "fs_shape s" "fs_removes s P i f t" "j < 15"
  shows "in_use (entries t P ! j) = 1 \<longleftrightarrow> j \<noteq> i \<and> in_use (entries s P ! j) = 1"
    "j \<noteq> i \<Longrightarrow> in_use (entries s P ! j) = 1 \<Longrightarrow> entries t P ! j = entries s P ! j"
proof -
  from assms(2) obtain e where e: "in_use e = 0" "entries t P = cut_dir ((entries s P)[i := e])"
    by (auto simp: fs_removes_def)
  have l: "length ((entries s P)[i := e]) = 15" using assms(1) by simp
  have "j < 14 \<or> j = 14" using assms(3) by auto
  then show "in_use (entries t P ! j) = 1 \<longleftrightarrow> j \<noteq> i \<and> in_use (entries s P ! j) = 1"
    "j \<noteq> i \<Longrightarrow> in_use (entries s P ! j) = 1 \<Longrightarrow> entries t P ! j = entries s P ! j"
    using e l in_use_cut[OF l] cut_dir_nth[OF l, of j] entries_last[OF assms(1), of P] assms(3)
    by (cases "j = i"; auto)+
qed

lemma fs_removes_refers:
  assumes "fs_ok s" "fs_removes s P i f t"
  shows "refers t d j m \<longleftrightarrow> refers s d j m \<and> \<not> (d = P \<and> j = i)"
proof (cases "d = P")
  case True
  show ?thesis
    using fs_removes_nth[OF fs_okD(2)[OF assms(1)] assms(2), of j] True
    by (auto simp: refers_def fs_removes_is_dir[OF assms(2)])
next
  case False
  then show ?thesis
    using fs_removes_entries[OF fs_okD(1)[OF assms(1)] assms(2), of d]
    by (auto simp: refers_def fs_removes_is_dir[OF assms(2)])
qed

lemma fs_removes_ok:
  assumes ok: "fs_ok s" and rem: "fs_removes s P i f t"
  shows "fs_ok t"
proof -
  note a = fs_removesD[OF rem]
  have r: "refers s d j m" "m \<noteq> f" if "refers t d j m" for d j m
    using that fs_removes_refers[OF ok rem, of d j m] fs_okD(7)[OF ok a(3), of d j] a(4) by auto
  have "0 \<in> set (ename (entries t d ! j))" if "refers t d j m" for d j m
  proof (cases "d = P")
    case True
    have "refers s P j m" "j \<noteq> i" "j < 15" using that True fs_removes_refers[OF ok rem, of d j m]
      by (auto simp: refers_def)
    with True fs_removes_nth(2)[OF fs_okD(2)[OF ok] rem, of j] fs_okD(8)[OF ok] show ?thesis
      by (auto simp: refers_def)
  next
    case False
    with fs_removes_entries[OF fs_okD(1)[OF ok] rem, of d] r(1)[OF that] fs_okD(8)[OF ok]
    show ?thesis by (auto simp: refers_def)
  qed
  then have "m < 200 \<and> itype (inode_of t m) \<noteq> 0 \<and> 0 \<in> set (ename (entries t d ! j))"
    if "refers t d j m" for d j m
    using r[OF that] fs_okD(5,6)[OF ok] a(5)[of m] that by auto
  moreover have "d = d' \<and> j = j'" if "refers t d j m" "refers t d' j' m" "is_file t m" for d j d' j' m
    using r(1)[OF that(1)] r(1)[OF that(2)] that(3) fs_okD(7)[OF ok]
    by (simp add: fs_removes_is_file[OF rem])
  ultimately show ?thesis
    using a(1,2) fs_okD(4)[OF ok] by (intro fs_okI) (simp_all add: fs_removes_is_dir[OF rem])
qed

text \<open>No lookup finds the file any more, and other names are found as before.\<close>

lemma fs_removes_not_found:
  assumes ok: "fs_ok s" and rem: "fs_removes s P i f t"
  shows "lookup t d c \<noteq> f"
proof
  assume l: "lookup t d c = f"
  have "f < 200" using fs_removesD(4)[OF rem] by (simp add: is_file_def)
  with l have "lookup t d c \<noteq> NONE32" by auto
  then obtain j where "refers t d j f"
    using lookup_refers[OF fs_okD(1)[OF fs_removes_ok[OF ok rem]]] l by metis
  then show False
    using fs_okD(6)[OF fs_removes_ok[OF ok rem]] fs_removesD(6)[OF rem] by blast
qed

lemma fs_removes_lookup:
  assumes ok: "fs_ok s" and rem: "fs_removes s P i f t"
    and other: "d \<noteq> P \<or> \<not> entry_has_name (entries s P ! i) c"
  shows "lookup t d c = lookup s d c"
proof (cases "d = P")
  case False
  then show ?thesis
    using fs_removes_entries[OF fs_okD(1)[OF ok] rem, of d]
    by (simp add: lookup_entries fs_okD(1)[OF ok] fs_removesD(1)[OF rem] fs_removes_is_dir[OF rem])
next
  case True
  note sh = fs_okD(2)[OF ok]
  from rem obtain e where e: "in_use e = 0" "entries t P = cut_dir ((entries s P)[i := e])"
    by (auto simp: fs_removes_def)
  have "find_entry (entries t P) c = find_entry ((take 14 (entries s P))[i := e]) c"
    using e sh by (simp add: find_entry_cut take_update_swap)
  also have "\<dots> = find_entry (take 14 (entries s P)) c"
  proof (cases "i < 14")
    case True
    with other \<open>d = P\<close> e sh show ?thesis by (intro find_entry_update_other) auto
  next
    case False
    then have "length (take 14 (entries s P)) \<le> i" by simp
    then show ?thesis by (simp only: list_update_beyond)
  qed
  also have "\<dots> = find_entry (entries s P) c" using sh by (simp add: take_14_last entries_last)
  finally show ?thesis
    using True fs_removesD(9)[OF rem]
    by (simp add: lookup_entries fs_okD(1)[OF ok] fs_removesD(1)[OF rem] fs_removes_is_dir[OF rem] edge_def)
qed

section \<open>\<open>fs_delete_file\<close>\<close>

lemma remove_entry_unique:
  assumes "refers s P i f" "\<And>j. refers s P j f \<Longrightarrow> j = i"
  shows "remove_entry (entries s P) f =
    (entries s P)[i := (entries s P ! i)\<lparr>in_use := 0, ename := replicate 28 0\<rparr>]"
proof -
  have "find (\<lambda>j. in_use (entries s P ! j) = 1 \<and> einode (entries s P ! j) = f) [0..<15] = Some i"
    using assms unfolding find_index_Some refers_def by (metis order_less_trans nat_neq_iff)
  then show ?thesis by (simp add: remove_entry_def)
qed

lemma fs_delete_file_success:
  assumes ok: "fs_ok s" and p: "good_path p" "components p = cs @ [c]"
    and f: "is_file s (resolves s (cs @ [c]))"
  obtains t i where "fs_delete_file p s = Some (0, t)"
    "fs_removes s (resolves s cs) i (resolves s (cs @ [c])) t"
    "entry_has_name (entries s (resolves s cs) ! i) c"
proof -
  let ?P = "resolves s cs" and ?f = "resolves s (cs @ [c])"
  note inv = fs_okD(1)[OF ok] and sh = fs_okD(2)[OF ok]
  have f': "?f < 200" "itype (inode_of s ?f) = 1" "?f \<noteq> NONE32" "lookup s ?P c = ?f"
    using f by (auto simp: is_file_def resolve_snoc)
  obtain i where i: "refers s ?P i ?f" "entry_has_name (entries s ?P ! i) c"
    using lookup_refers[OF inv, of ?P c] f' by metis
  have u: "j = i" if "refers s ?P j ?f" for j using fs_okD(7)[OF ok that i(1) f] by simp
  have P: "is_dir s ?P" "?P \<noteq> NONE32" "?P < 200" "?P \<noteq> ?f"
    using i(1) f' by (auto simp: refers_def is_dir_def)
  let ?s1 = "free_inode s ?f" and ?b = "dir_block s ?P"
  have "itype (inode_of s ?f) \<noteq> 0" using f' by simp
  note fr = free_inode_spec[OF inv f'(1) this]
  let ?e = "(entries s ?P ! i)\<lparr>in_use := 0, ename := replicate 28 0\<rparr>"
  let ?d = "(entries s ?P)[i := ?e]"
  define t where "t = sync_block_bitmap (sync_inode_table (write_dir ?s1 ?b ?d))"
  have "read_dir ?s1 ?b = entries s ?P"
    using data_block_cong[OF fr(5)] unfolding entries_def by (rule read_dir_cong)
  then have "remove_entry (read_dir ?s1 ?b) ?f = ?d"
    using remove_entry_unique[OF i(1) u] by simp
  moreover from p(1) have "split_path p 28 = Some (abs_path cs, c) \<and> good_path (abs_path cs) \<and> components (abs_path cs) = cs"
    by (cases rule: good_path_split) (use p in auto)
  moreover have "\<not> 200 \<le> ?f" "\<not> 200 \<le> ?P" using f'(1) P(3) by (simp_all add: not_le)
  ultimately have run: "fs_delete_file p s = Some (0, t)"
    using p P f' good_path_find[OF p(1)] good_path_find[of "abs_path cs"]
    by (simp add: fs_delete_file_def fr(2) t_def Let_def)
  have "entry_shape (entries s ?P ! i)"
    using i(1) dir_shape_nth[OF dir_shape_read_dir[OF sh]] by (simp add: refers_def entries_def)
  then have ds: "dir_shape ?d"
    using dir_shape_read_dir[OF sh] unfolding entries_def by (intro dir_shape_update) (simp_all add: entry_shape_def)
  have b: "?b \<noteq> 0" "?b < 512" using refers_block[OF i(1)] dir_block_cases[OF inv P(3)] by auto
  have "entries t ?P = read_dir (write_dir ?s1 ?b ?d) ?b"
    unfolding entries_def t_def by (simp add: read_dir_data fr(2)[OF P(4)])
  also have "\<dots> = cut_dir ?d" using b ds by (rule read_write_dir)
  finally have et: "entries t ?P = cut_dir ?d" .
  have "fs_inv t" unfolding t_def using fr(1) ds by (intro inv_intros)
  moreover have "\<exists>e. in_use e = 0 \<and> entries t ?P = cut_dir ((entries s ?P)[i := e])"
    using et by (intro exI[of _ ?e]) simp
  moreover have "data_block t c = data_block s c" if "c \<noteq> ?b" for c
    using that data_block_cong[OF fr(5), of c] by (simp add: t_def write_dir_def data_block_write)
  moreover have "inode_of t m = inode_of ?s1 m" "is_block_free t x = is_block_free ?s1 x"
    "root_inode (superblock t) = root_inode (superblock ?s1)" for m x
    by (simp_all add: t_def)
  ultimately have "fs_removes s ?P i ?f t"
    unfolding fs_removes_def using fr f i(1) by auto
  with that run i(2) show ?thesis by blast
qed

lemma fs_delete_file_result:
  assumes ok: "fs_ok s" and p: "good_path p"
  obtains (failed) "fs_delete_file p s = Some (-1, s)" "\<not> is_file s (resolves s (components p))"
    | (deleted) t cs c i where "fs_delete_file p s = Some (0, t)" "components p = cs @ [c]"
        "fs_removes s (resolves s cs) i (resolves s (cs @ [c])) t"
        "entry_has_name (entries s (resolves s cs) ! i) c" "is_file s (resolves s (components p))"
proof (cases "is_file s (resolves s (components p))")
  case True
  have "components p \<noteq> []" using True fs_okD(4)[OF ok] by (auto simp: is_file_def is_dir_def)
  then obtain cs c where c: "components p = cs @ [c]" by (metis rev_exhaust)
  with fs_delete_file_success[OF ok p c] True deleted show ?thesis by metis
next
  case False
  from p obtain q nm where q: "split_path p 28 = Some (q, nm)" "good_path q"
    by (cases rule: good_path_split) auto
  have "fs_delete_file p s = Some (-1, s)"
    using False q good_path_find[OF p] good_path_find[OF q(2)] resolves_ok[OF ok, of "components p"]
    by (auto simp: fs_delete_file_def is_file_def leD)
  with False failed show ?thesis by blast
qed

lemma keeps_0_removes: "fs_removes s P i f t \<Longrightarrow> keeps_0 s t"
proof -
  assume r: "fs_removes s P i f t"
  have "is_file s m \<and> inode_of t m = inode_of s m" if "is_file t m" for m
    using that fs_removesD(5,6)[OF r] by (cases "m = f") (auto simp: is_file_def)
  with r show "keeps_0 s t" by (auto simp: keeps_0_def fs_removesD(7) owns_def sizes_ok_def)
qed

lemma fs_delete_file_total:
  assumes "fs_ok s" "good_path p"
  shows "\<exists>r t. fs_delete_file p s = Some (r, t) \<and> fs_ok t \<and> keeps_0 s t \<and> r \<in> {0, -1}"
  using assms
  by (cases rule: fs_delete_file_result) (auto intro: fs_removes_ok assms keeps_0_refl keeps_0_removes)

end
