(* ===== verification/FsFile.thy ===== *)
theory FsFile
  imports FsDelete
begin

text \<open>
  \<open>fs_create_file\<close> and \<open>fs_read_file\<close>: the block loop of each, what a call does on every branch,
  and that reading gives back what was written.
\<close>

section \<open>Contents\<close>

text \<open>Block \<open>j\<close> of a file of \<open>nb\<close> bytes: the bytes that are there, then zeros.\<close>

definition chunk :: "bytes \<Rightarrow> nat \<Rightarrow> nat \<Rightarrow> bytes" where
  "chunk data nb j = (let m = min 512 (nb - 512 * j) in
     take m (drop (512 * j) data) @ replicate (512 - m) 0)"

text \<open>What \<open>fs_read_file\<close> copies for an inode: the first \<open>n\<close> bytes of its first \<open>k\<close> blocks.\<close>

definition blocks_bytes :: "fs \<Rightarrow> u32 \<Rightarrow> nat \<Rightarrow> nat \<Rightarrow> bytes" where
  "blocks_bytes s ino i k = concat (map (\<lambda>j. data_block s (iblocks (inode_of s ino) ! j)) [i..<i + k])"

lemma length_chunk: "nb \<le> length data \<or> 512 * j + 512 \<le> length data \<Longrightarrow> length (chunk data nb j) = 512"
  by (auto simp: chunk_def Let_def min_def)

section \<open>Writing the blocks\<close>

text \<open>
  The state while a new file \<open>n\<close> is being filled, relative to the state \<open>s\<close> in which \<open>n\<close> was
  free: the first \<open>i\<close> blocks are there and hold their chunks.
\<close>

definition filling :: "fs \<Rightarrow> u32 \<Rightarrow> bytes \<Rightarrow> nat \<Rightarrow> nat \<Rightarrow> fs \<Rightarrow> bool" where
  "filling s n data nb i u \<longleftrightarrow>
     fs_inv u \<and> n < 200 \<and> itype (inode_of s n) = 0 \<and> itype (inode_of u n) = INODE_TYPE_FILE \<and>
     root_inode (superblock u) = root_inode (superblock s) \<and>
     unat (isize (inode_of u n)) = nb \<and>
     (\<forall>m. m \<noteq> n \<longrightarrow> inode_of u m = inode_of s m) \<and>
     (\<forall>b. is_block_free u b \<or> (\<exists>j. owns u n j b) \<longrightarrow> is_block_free s b) \<and>
     (\<forall>b. b \<noteq> 0 \<longrightarrow> is_block_free s b \<longrightarrow> is_block_free u b \<or> (\<exists>j. owns u n j b)) \<and>
     (\<forall>b. \<not> is_block_free s b \<longrightarrow> data_block u b = data_block s b) \<and>
     (\<forall>j < 12. i \<le> j \<longrightarrow> iblocks (inode_of u n) ! j = 0) \<and>
     (\<forall>j < i. iblocks (inode_of u n) ! j \<noteq> 0 \<longrightarrow>
        data_block u (iblocks (inode_of u n) ! j) = chunk data nb j) \<and>
     (\<forall>j < i. iblocks (inode_of u n) ! j = 0 \<longrightarrow> is_block_free s 0)"

lemma fillingD:
  assumes "filling s n data nb i u"
  shows "fs_inv u" "n < 200" "itype (inode_of s n) = 0" "itype (inode_of u n) = INODE_TYPE_FILE"
    "root_inode (superblock u) = root_inode (superblock s)" "unat (isize (inode_of u n)) = nb"
    "m \<noteq> n \<Longrightarrow> inode_of u m = inode_of s m"
    "is_block_free u b \<or> (\<exists>j. owns u n j b) \<Longrightarrow> is_block_free s b"
    "b \<noteq> 0 \<Longrightarrow> is_block_free s b \<Longrightarrow> is_block_free u b \<or> (\<exists>j. owns u n j b)"
    "\<not> is_block_free s b \<Longrightarrow> data_block u b = data_block s b"
    "j < 12 \<Longrightarrow> i \<le> j \<Longrightarrow> iblocks (inode_of u n) ! j = 0"
    "j < i \<Longrightarrow> iblocks (inode_of u n) ! j \<noteq> 0 \<Longrightarrow>
       data_block u (iblocks (inode_of u n) ! j) = chunk data nb j"
    "j < i \<Longrightarrow> iblocks (inode_of u n) ! j = 0 \<Longrightarrow> is_block_free s 0"
  using assms unfolding filling_def by auto

lemma filling_fails:
  assumes "filling s n data nb i u"
  shows "fs_same s (free_inode u n)"
proof -
  note d = fillingD[OF assms]
  have "itype (inode_of u n) \<noteq> 0" using d(4) by simp
  from fs_same_free_inode[OF d(1,2) this d(3,5,7-10)] show ?thesis .
qed

lemma filling_step:
  assumes fl: "filling s n data nb i u" and i: "i < 12"
    and b: "allocate_block u = (b, v)" "b \<noteq> NONE32"
    and w: "length w = 512" "w = chunk data nb i"
  defines "v2 \<equiv> upd_inode v n (\<lambda>x. x\<lparr>iblocks := (iblocks x)[i := b]\<rparr>)"
  shows "filling s n data nb (Suc i) (write_inode_block (v2\<lparr>sector_buffer := w\<rparr>) b w)"
    "\<And>c. is_block_free (write_inode_block (v2\<lparr>sector_buffer := w\<rparr>) b w) c \<longleftrightarrow> is_block_free u c \<and> c \<noteq> b"
proof -
  let ?t = "write_inode_block (v2\<lparr>sector_buffer := w\<rparr>) b w"
  note d = fillingD[OF fl]
  note a = allocate_block_facts[OF d(1) b]
  have il: "length (iblocks (inode_of u n)) = 12"
    using inode_shape_of[OF fs_invD(1)[OF d(1)] d(2)] by (simp add: inode_shape_def)
  have io: "inode_of v2 m = (if m = n then (inode_of u n)\<lparr>iblocks := (iblocks (inode_of u n))[i := b]\<rparr>
      else inode_of u m)" for m
    by (simp add: v2_def inode_upd_inode[OF fs_invD(1)[OF a(1)] d(2)] a(5))
  have "fs_inv v2" unfolding v2_def
    using d(2,4) i a by (intro fs_inv_set_block[OF a(1)]) auto
  then have "fs_inv (v2\<lparr>sector_buffer := w\<rparr>)" using w(1) by (rule fs_inv_sector_buffer)
  then have inv: "fs_inv ?t" using w(1) by (intro fs_inv_write_inode_block) simp_all
  show bf: "is_block_free ?t c \<longleftrightarrow> is_block_free u c \<and> c \<noteq> b" for c by (simp add: v2_def a(4))
  have bs: "is_block_free s b" using d(8)[of b] a(3) by blast
  have db: "data_block ?t c = (if c = b \<and> b \<noteq> 0 then w else data_block u c)" for c
    using w(1) a(2,6) data_block_cong[of "v2\<lparr>sector_buffer := w\<rparr>" u c]
    by (auto simp: data_block_write v2_def)
  have own: "owns ?t n j c \<longleftrightarrow> (if j = i then c = b \<and> b \<noteq> 0 else owns u n j c)" for j c
    using d(2) i il by (auto simp: owns_def io nth_list_update)
  have no: "\<not> owns u n i c" for c using d(11)[of i] i by (simp add: owns_def)
  have ub: "iblocks (inode_of u n) ! j \<noteq> b" if "j < 12" "b \<noteq> 0" for j
    using allocate_block_not_owned[OF d(1) a(3), of n j] that d(2) by (simp add: owns_def)
  have nth: "iblocks (inode_of v2 n) ! j = (if j = i then b else iblocks (inode_of u n) ! j)" for j
    using il i by (simp add: io nth_list_update)
  have c1: "\<forall>c. is_block_free ?t c \<or> (\<exists>j. owns ?t n j c) \<longrightarrow> is_block_free s c"
    unfolding bf own using d(8) bs by (auto split: if_splits)
  have c2: "\<forall>c. c \<noteq> 0 \<longrightarrow> is_block_free s c \<longrightarrow> is_block_free ?t c \<or> (\<exists>j. owns ?t n j c)"
    using d(9) no unfolding bf own by metis
  have c3: "\<forall>c. \<not> is_block_free s c \<longrightarrow> data_block ?t c = data_block s c"
    using d(10) bs by (auto simp: db)
  have c4: "\<forall>j < Suc i. iblocks (inode_of ?t n) ! j \<noteq> 0 \<longrightarrow>
        data_block ?t (iblocks (inode_of ?t n) ! j) = chunk data nb j"
  proof (intro allI impI)
    fix j assume j: "j < Suc i" "iblocks (inode_of ?t n) ! j \<noteq> 0"
    show "data_block ?t (iblocks (inode_of ?t n) ! j) = chunk data nb j"
    proof (cases "j = i")
      case True
      with j have "data_block ?t (iblocks (inode_of ?t n) ! j) = w" by (simp add: nth db)
      then show ?thesis unfolding True w(2) .
    next
      case False
      with j i ub[of j] d(12)[of j] show ?thesis by (auto simp: nth db)
    qed
  qed
  have c5: "\<forall>j < Suc i. iblocks (inode_of ?t n) ! j = 0 \<longrightarrow> is_block_free s 0"
    using d(13) bs by (auto simp: nth less_Suc_eq)
  have c6: "\<forall>j < 12. Suc i \<le> j \<longrightarrow> iblocks (inode_of ?t n) ! j = 0"
    using d(11) by (auto simp: nth)
  have c7: "root_inode (superblock ?t) = root_inode (superblock s)" using d(5) a(8) by (simp add: v2_def)
  show "filling s n data nb (Suc i) ?t"
    unfolding filling_def using inv d(2-4,6,7) c1 c2 c3 c4 c5 c6 c7
    by (intro conjI) (auto simp: io simp del: write_inode_block_simps)
qed

lemma write_blocks_spec:
  assumes "filling s n data nb i u" "i + k \<le> 12" "min nb (512 * (i + k)) \<le> length data"
    "k = 0 \<or> 512 * (i + k - 1) < nb"
  shows "\<exists>v. (if k \<le> card (free_block_set u)
    then write_blocks n data i k (nb - 512 * i) u = Some (True, v) \<and> filling s n data nb (i + k) v
    else write_blocks n data i k (nb - 512 * i) u = Some (False, v) \<and> fs_same s v)"
  using assms
proof (induction k arbitrary: i u)
  case 0
  then show ?case by simp
next
  case (Suc k)
  note d = fillingD[OF Suc.prems(1)] and sh = fs_invD(1)[OF fillingD(1)[OF Suc.prems(1)]]
  obtain b v where b: "allocate_block u = (b, v)" by fastforce
  show ?case
  proof (cases "b = NONE32")
    case True
    with b have "v = u" "free_block_set u = {}"
      using allocate_block_full[OF d(1)] blocks.alloc_none_iff[OF sh] by auto
    with True b filling_fails[OF Suc.prems(1)] show ?thesis by simp
  next
    case False
    define c where "c = (if 512 < nb - 512 * i then 512 else nb - 512 * i)"
    define w where "w = take c (drop (i * 512) data) @ replicate (512 - c) 0"
    define v2 where "v2 = upd_inode v n (\<lambda>x. x\<lparr>iblocks := (iblocks x)[i := b]\<rparr>)"
    define t where "t = write_inode_block (v2\<lparr>sector_buffer := w\<rparr>) b w"
    have lt: "512 * i < nb" using Suc.prems(4) by (cases k) auto
    have le: "i * 512 + c \<le> length data" using Suc.prems(3) lt by (auto simp: c_def min_def split: if_splits)
    have w: "length w = 512" "w = chunk data nb i"
      using le lt by (auto simp: w_def c_def chunk_def Let_def min_def mult.commute)
    have i: "i < 12" using Suc.prems(2) by simp
    note st = filling_step[OF Suc.prems(1) i b False w, folded v2_def, folded t_def]
    have rem: "nb - (512 * i + c) = nb - (512 + 512 * i)" by (auto simp: c_def)
    have run: "write_blocks n data i (Suc k) (nb - 512 * i) u = write_blocks n data (Suc i) k (nb - 512 * Suc i) t"
      using b False le by (simp add: Let_def c_def[symmetric] w_def[symmetric] v2_def[symmetric] t_def rem)
    have "free_block_set t = free_block_set u - {b}" using st(2) by (auto simp: free_block_set_def)
    moreover have "b \<in> free_block_set u"
      using allocate_block_facts(3)[OF d(1) b False] by (simp add: free_block_set_def)
    ultimately have card: "card (free_block_set u) = Suc (card (free_block_set t))"
      by (metis card_Suc_Diff1 finite_u32)
    have "\<exists>v. if k \<le> card (free_block_set t)
      then write_blocks n data (Suc i) k (nb - 512 * Suc i) t = Some (True, v) \<and> filling s n data nb (Suc i + k) v
      else write_blocks n data (Suc i) k (nb - 512 * Suc i) t = Some (False, v) \<and> fs_same s v"
      using Suc.prems by (intro Suc.IH[OF st(1)]) auto
    then show ?thesis unfolding run card by (simp only: Suc_le_mono add_Suc_right add_Suc)
  qed
qed

section \<open>A new file in a directory\<close>

lemma blocks_needed_nat:
  assumes "unat nb \<le> 16384"
  shows "blocks_needed nb = min 12 ((unat nb + 511) div 512)"
proof -
  have "unat (511 + nb) = unat nb + 511" using assms by (simp add: unat_word_ariths)
  then have "unat ((511 + nb) div 512) = (unat nb + 511) div 512" by (simp add: unat_div)
  then show ?thesis by (auto simp: blocks_needed_def Let_def word_less_nat_alt min_def)
qed

lemma blocks_needed_facts:
  assumes "unat nb \<le> 16384"
  shows "blocks_needed nb \<le> 12" "blocks_needed nb = 0 \<or> 512 * (blocks_needed nb - 1) < unat nb"
    "min (unat nb) (512 * blocks_needed nb) = min (unat nb) 6144"
  using assms by (auto simp: blocks_needed_nat min_def)

text \<open>
  A file that has been written: its size, the contents of its blocks, and where they came from.
\<close>

definition holds :: "fs \<Rightarrow> u32 \<Rightarrow> bytes \<Rightarrow> u32 \<Rightarrow> fs \<Rightarrow> bool" where
  "holds s n data nb t \<longleftrightarrow> is_file t n \<and> isize (inode_of t n) = nb \<and>
     (\<forall>j < blocks_needed nb. iblocks (inode_of t n) ! j \<noteq> 0 \<longrightarrow>
        data_block t (iblocks (inode_of t n) ! j) = chunk data (unat nb) j) \<and>
     (\<forall>j < blocks_needed nb. iblocks (inode_of t n) ! j = 0 \<longrightarrow> is_block_free s 0) \<and>
     (\<forall>b. b \<noteq> 0 \<longrightarrow> (is_block_free s b \<longleftrightarrow> is_block_free t b \<or> (\<exists>j. owns t n j b)))"

lemma finish_file:
  assumes fl: "filling s n data (unat nb) (blocks_needed nb) u" and inv: "fs_inv s"
    and P: "is_dir s P" and name: "c_string name" "length name < 28"
  obtains t d where "add_entry (read_dir u (dir_block u P)) name n = Some (True, d)"
    "t = sync_superblock (sync_block_bitmap (sync_inode_table (write_dir u (dir_block u P) d)))"
    "fs_adds s P name n t" "holds s n data nb t"
    "\<And>b. is_block_free t b = is_block_free u b" "fs_init t = t"
proof -
  note f = fillingD[OF fl]
  have P': "P < 200" "P \<noteq> n" using P f(3) by (auto simp: is_dir_def)
  obtain i e d where a: "add_entry (read_dir u (dir_block u P)) name n = Some (True, d)"
    "dir_shape d" "i < 15" "in_use (entries u P ! i) \<noteq> 1" "\<And>j. j < i \<Longrightarrow> in_use (entries u P ! j) = 1"
    "in_use e = 1" "einode e = n" "\<And>c. entry_has_name e c \<longleftrightarrow> c = name" "d = (entries u P)[i := e]"
    "0 \<in> set (ename e)" "dir_block u P \<noteq> 0 \<Longrightarrow> entries (write_dir u (dir_block u P) d) P = cut_dir d"
    using add_to_parent[OF f(1) P'(1) name, of n] by metis
  define t where "t = sync_superblock (sync_block_bitmap (sync_inode_table (write_dir u (dir_block u P) d)))"
  have io: "inode_of t m = inode_of u m" and bf: "is_block_free t b = is_block_free u b" for m b
    by (simp_all add: t_def)
  have db: "data_block t c = (if c = dir_block s P \<and> c \<noteq> 0 then take 512 (enc_dir d) else data_block u c)" for c
    using dir_block_cases[OF inv P'(1)] f(7)[OF P'(2)] by (auto simp: t_def write_dir_def data_block_write)
  have "data_block u (dir_block s P) = data_block s (dir_block s P)"
    using dir_block_cases[OF inv P'(1)] f(10) by fastforce
  then have eu: "entries u P = entries s P"
    unfolding entries_def by (simp add: read_dir_data f(7)[OF P'(2)])
  have et: "entries t P = entries (write_dir u (dir_block u P) d) P"
    by (simp add: t_def entries_def read_dir_data)
  have "added_entry s P name n t i e"
    using a eu et f(7)[OF P'(2)] by (simp add: added_entry_def)
  moreover have "fs_inv t" unfolding t_def using f(1) a(2) by (intro inv_intros)
  moreover have "root_inode (superblock t) = root_inode (superblock s)" using f(5) by (simp add: t_def)
  moreover have "\<not> is_dir t n" "itype (inode_of t n) \<noteq> 0" using f(4) by (simp_all add: is_dir_def io)
  moreover have "\<not> is_block_free t b \<and> (b \<noteq> dir_block s P \<longrightarrow> data_block t b = data_block s b)"
    if "\<not> is_block_free s b" for b
    using that f(8)[of b] f(10)[of b] by (auto simp: bf db)
  ultimately have add: "fs_adds s P name n t"
    unfolding fs_adds_def using P f(2,3,7) io by auto
  have "iblocks (inode_of u n) ! j \<noteq> dir_block s P"
    if "iblocks (inode_of u n) ! j \<noteq> 0" "j < 12" for j
  proof -
    have "owns u n j (iblocks (inode_of u n) ! j)" using that f(2) by (simp add: owns_def)
    then have "is_block_free s (iblocks (inode_of u n) ! j)" using f(8) by blast
    then show ?thesis using that(1) dir_block_cases[OF inv P'(1)] by auto
  qed
  moreover have "j < blocks_needed nb \<Longrightarrow> j < 12" for j
    by (auto simp: blocks_needed_def Let_def word_less_nat_alt split: if_splits)
  moreover have "b \<noteq> 0 \<Longrightarrow> is_block_free s b \<longleftrightarrow> is_block_free t b \<or> (\<exists>j. owns t n j b)" for b
    using f(8,9)[of b] by (simp add: bf owns_def io) blast
  ultimately have "holds s n data nb t"
    unfolding holds_def using f(2,4,6,12,13) by (auto simp: is_file_def io db word_unat_eq_iff)
  moreover have "fs_init t = t"
  proof (rule fs_init_synced)
    have sh: "fs_shape (write_dir u (dir_block u P) d)"
      using f(1) a(2) by (auto intro!: inv_intros dest: fs_invD(1))
    then show "fs_shape t" unfolding t_def by (simp add: fs_shape_sync_superblock fs_shape_sync_block_bitmap fs_shape_sync_inode_table)
    show "synced_sb t" "synced_it t" "synced_bm t" unfolding t_def
      using sh by (simp_all add: synced_sync synced_frame
          fs_shape_sync_superblock fs_shape_sync_block_bitmap fs_shape_sync_inode_table)
  qed
  ultimately show ?thesis using that[OF a(1) t_def add _ bf] by blast
qed

lemma start_file:
  fixes nb P :: u32
  assumes inv: "fs_inv s" and n: "allocate_inode s = (n, s1)" "n \<noteq> NONE32"
  defines "s2 \<equiv> upd_inode s1 n (\<lambda>x. x\<lparr>itype := INODE_TYPE_FILE, isize := nb, parent_inode := P\<rparr>)"
  shows "filling s n data (unat nb) 0 s2" "free_block_set s2 = free_block_set s"
proof -
  note f1 = allocate_inode_facts[OF inv n]
  have inv2: "fs_inv s2" unfolding s2_def using f1 by (intro fs_inv_upd_fields) auto
  have io: "inode_of s2 m = (if m = n
      then \<lparr>itype = 1, isize = nb, iblocks = replicate 12 0, parent_inode = P\<rparr> else inode_of s m)" for m
    by (simp add: s2_def inode_upd_inode[OF fs_invD(1)[OF f1(1)] f1(2)] f1(4))
  have bf: "is_block_free s2 c = is_block_free s c" and db: "data_block s2 c = data_block s c" for c
    using data_block_cong[of s2 s] by (simp_all add: s2_def f1)
  have "\<not> owns s2 n j c" for j c by (auto simp: owns_def io)
  then show "filling s n data (unat nb) 0 s2"
    using inv2 f1 by (auto simp: filling_def io bf db) (simp_all add: s2_def f1)
  show "free_block_set s2 = free_block_set s" by (simp add: free_block_set_def bf)
qed

lemma new_file_result:
  assumes inv: "fs_inv s" and P: "is_dir s P" and name: "c_string name" "length name < 28"
    and nb: "unat nb \<le> 16384" "min (unat nb) 6144 \<le> length data"
  obtains (failed) t where "new_file P name data nb s = Some (-1, t)" "fs_same s t"
      "free_inode_set s = {} \<or> card (free_block_set s) < blocks_needed nb"
    | (created) n t where "new_file P name data nb s = Some (0, t)" "fs_adds s P name n t"
        "holds s n data nb t" "fs_init t = t"
proof -
  obtain n s1 where n: "allocate_inode s = (n, s1)" by fastforce
  show ?thesis
  proof (cases "n = NONE32")
    case True
    with n have "s1 = s" "free_inode_set s = {}"
      using allocate_inode_full[OF inv] inodes.alloc_none_iff[OF fs_invD(1)[OF inv]] by auto
    with n True fs_same_refl[OF inv] show ?thesis
      by (intro failed[of s]) (auto simp: new_file_def)
  next
    case False
    define s2 where "s2 = upd_inode s1 n (\<lambda>x. x\<lparr>itype := INODE_TYPE_FILE, isize := nb, parent_inode := P\<rparr>)"
    note st = start_file[OF inv n False, where nb = nb and P = P, folded s2_def]
    have "\<exists>v. if blocks_needed nb \<le> card (free_block_set s2)
      then write_blocks n data 0 (blocks_needed nb) (unat nb - 512 * 0) s2 = Some (True, v) \<and>
        filling s n data (unat nb) (0 + blocks_needed nb) v
      else write_blocks n data 0 (blocks_needed nb) (unat nb - 512 * 0) s2 = Some (False, v) \<and> fs_same s v"
      using blocks_needed_facts[OF nb(1)] nb(2) by (intro write_blocks_spec[OF st(1)]) simp_all
    then obtain v where v: "if blocks_needed nb \<le> card (free_block_set s)
      then write_blocks n data 0 (blocks_needed nb) (unat nb) s2 = Some (True, v) \<and>
        filling s n data (unat nb) (blocks_needed nb) v
      else write_blocks n data 0 (blocks_needed nb) (unat nb) s2 = Some (False, v) \<and> fs_same s v"
      unfolding st(2) by (simp only: add_0 mult_0_right diff_zero) blast
    show ?thesis
    proof (cases "blocks_needed nb \<le> card (free_block_set s)")
      case False
      with v n \<open>n \<noteq> NONE32\<close> s2_def show ?thesis
        by (intro failed[of v]) (auto simp: new_file_def)
    next
      case True
      with v have w: "write_blocks n data 0 (blocks_needed nb) (unat nb) s2 = Some (True, v)"
        and fl: "filling s n data (unat nb) (blocks_needed nb) v" by simp_all
      obtain t d where t: "add_entry (read_dir v (dir_block v P)) name n = Some (True, d)"
        "t = sync_superblock (sync_block_bitmap (sync_inode_table (write_dir v (dir_block v P) d)))"
        "fs_adds s P name n t" "holds s n data nb t" "fs_init t = t"
        using finish_file[OF fl inv P name] by metis
      have "new_file P name data nb s = Some (0, t)"
        using n False w t(1,2) s2_def by (simp add: new_file_def Let_def)
      with created t show ?thesis by blast
    qed
  qed
qed

section \<open>\<open>fs_create_file\<close>\<close>

text \<open>The data buffer holds the bytes the loop copies: \<open>nb\<close>, at most twelve blocks.\<close>

definition good_data :: "bytes \<Rightarrow> u32 \<Rightarrow> bool" where
  "good_data data nb \<longleftrightarrow> unat nb \<le> 16384 \<longrightarrow> min (unat nb) 6144 \<le> length data"

lemma create_file_in_total:
  assumes ok: "fs_ok s" and p: "good_path p" and P: "P < 200" and name: "c_string name" "length name < 28"
    and nb: "unat nb \<le> 16384" "min (unat nb) 6144 \<le> length data"
  shows "\<exists>r t. create_file_in P p name data nb s = Some (r, t) \<and> fs_ok t \<and> keeps_0 s t \<and> r \<in> {0, -1} \<and> (r = 0 \<longrightarrow> fs_init t = t)"
proof (cases "is_dir s P")
  case False
  with P ok show ?thesis by (auto simp: create_file_in_def is_dir_def leD keeps_0_refl)
next
  case True
  have np: "\<not> 200 \<le> P" using P by (simp add: not_le)
  have small: "holds u n data nb t \<Longrightarrow> unat (isize (inode_of t n)) \<le> 16384" for u n t
    using nb(1) by (simp add: holds_def)
  have body: "\<exists>r t. new_file P name data nb u = Some (r, t) \<and> fs_ok t \<and> keeps_0 u t \<and> r \<in> {0, -1} \<and> (r = 0 \<longrightarrow> fs_init t = t)"
    if "fs_ok u" "is_dir u P" for u
    using fs_okD(1)[OF that(1)] that(2) name nb
    by (cases rule: new_file_result)
      (auto intro: fs_same_ok[OF that(1)] fs_adds_ok[OF that(1)] keeps_0_same keeps_0_adds dest: small)
  show ?thesis
  proof (cases "resolves s (components p) = NONE32")
    case True
    with body[OF ok \<open>is_dir s P\<close>] np \<open>is_dir s P\<close> good_path_find[OF p, of s] show ?thesis
      by (simp add: create_file_in_def is_dir_def)
  next
    case False
    obtain r u where u: "fs_delete_file p s = Some (r, u)" "fs_ok u" "is_dir u P" "keeps_0 s u"
      using ok p
    proof (cases rule: fs_delete_file_result)
      case failed
      with ok True that keeps_0_refl show ?thesis by blast
    next
      case (deleted t cs c i)
      with fs_removes_ok[OF ok deleted(3)] fs_removes_is_dir[OF deleted(3)]
        keeps_0_removes[OF deleted(3)] True that show ?thesis by blast
    qed
    from body[OF u(2,3)] u False np True good_path_find[OF p, of s] show ?thesis
      by (auto simp: create_file_in_def is_dir_def intro: keeps_0_trans)
  qed
qed

lemma fs_create_file_total:
  assumes ok: "fs_ok s" and p: "good_path p" and d: "good_data data nb"
  shows "\<exists>r t. fs_create_file p data nb s = Some (r, t) \<and> fs_ok t \<and> keeps_0 s t \<and> r \<in> {0, -1} \<and> (r = 0 \<longrightarrow> fs_init t = t)"
proof (cases "16384 < unat nb")
  case True
  with ok show ?thesis by (simp add: fs_create_file_def keeps_0_refl)
next
  case False
  then have nb: "unat nb \<le> 16384" "min (unat nb) 6144 \<le> length data" using d by (auto simp: good_data_def)
  from p show ?thesis
  proof (cases rule: good_path_split)
    case top
    with ok False show ?thesis by (simp add: fs_create_file_def keeps_0_refl)
  next
    case (below cs c)
    have ne: "c \<noteq> []" using below by (simp add: component_def)
    note find = good_path_find[OF below(6)] and tot = create_file_in_total[OF _ p _ below(4,5) nb]
    show ?thesis
    proof (cases "resolves s cs = NONE32")
      case False
      with tot[OF ok, of "resolves s cs"] resolves_ok[OF ok False] find below \<open>\<not> 16384 < unat nb\<close> ne
      show ?thesis by (simp add: fs_create_file_def)
    next
      case True
      obtain r u where u: "fs_create_dir (abs_path cs) s = Some (r, u)" "fs_ok u" "keeps_0 s u"
        "r \<in> {0, -1}"
        using fs_create_dir_total[OF ok below(6)] by blast
      with True tot[OF u(2), of "resolves u cs"] resolves_ok[OF u(2), of cs] find below False ne
      show ?thesis by (auto simp: fs_create_file_def intro: keeps_0_trans)
    qed
  qed
qed

text \<open>A new file in an existing directory that has room.\<close>

lemma fs_create_file_new:
  assumes ok: "fs_ok s" and p: "good_path p" "components p = cs @ [c]"
    and new: "resolves s (cs @ [c]) = NONE32" and P: "is_dir s (resolves s cs)"
    and nb: "unat nb \<le> 16384" "min (unat nb) 6144 \<le> length data"
    and free: "free_inode_set s \<noteq> {}" "blocks_needed nb \<le> card (free_block_set s)"
  obtains n t where "fs_create_file p data nb s = Some (0, t)" "fs_ok t"
    "fs_adds s (resolves s cs) c n t" "holds s n data nb t" "length c < 28"
proof -
  let ?P = "resolves s cs"
  from p(1) have b: "c_string c \<and> length c < 28 \<and> c \<noteq> [] \<and> split_path p 28 = Some (abs_path cs, c)
      \<and> good_path (abs_path cs) \<and> components (abs_path cs) = cs"
    by (cases rule: good_path_split) (use p in \<open>auto simp: component_def\<close>)
  have P': "?P < 200" "\<not> 200 \<le> ?P" "?P \<noteq> NONE32" "itype (inode_of s ?P) = 2"
    using P by (auto simp: is_dir_def not_le)
  obtain n t where t: "new_file ?P c data nb s = Some (0, t)" "fs_adds s ?P c n t" "holds s n data nb t"
    using new_file_result[OF fs_okD(1)[OF ok] P _ _ nb, of c] b free by (metis not_le)
  have "fs_create_file p data nb s = Some (0, t)"
    using b nb(1) P' t(1) new p good_path_find[OF p(1)] good_path_find[of "abs_path cs"]
    by (simp add: fs_create_file_def create_file_in_def)
  with that[OF _ fs_adds_ok[OF ok t(2)] t(2,3)] b show ?thesis by blast
qed

section \<open>\<open>fs_read_file\<close>\<close>

lemma read_blocks_spec:
  assumes "\<And>b. length (data_block s b) = 512" "length (sector_buffer s) = 512"
    "k = 0 \<or> 512 * i + min rem (512 * k) \<le> length buf" "k = 0 \<or> 512 * (k - 1) < rem"
  shows "\<exists>w. length w = 512 \<and> read_blocks ino i k rem buf s =
    Some (take (512 * i) buf @ take rem (blocks_bytes s ino i k) @ drop (512 * i + min rem (512 * k)) buf,
      s\<lparr>sector_buffer := w\<rparr>)"
  using assms
proof (induction k arbitrary: i rem buf s)
  case 0
  then show ?case by (intro exI[of _ "sector_buffer s"]) (simp add: blocks_bytes_def)
next
  case (Suc k)
  let ?b = "data_block s (iblocks (inode_of s ino) ! i)"
  let ?s = "s\<lparr>sector_buffer := ?b\<rparr>"
  define c where "c = (if 512 < rem then 512 else rem)"
  define buf1 where "buf1 = take (512 * i) buf @ take c ?b @ drop (512 * i + c) buf"
  have lb: "length ?b = 512" using Suc.prems(1) by blast
  have len: "512 * i + c \<le> length buf" using Suc.prems(3) by (auto simp: c_def min_def split: if_splits)
  have r: "read_inode_block s (iblocks (inode_of s ino) ! i) (sector_buffer s) = ?b"
    using Suc.prems(2) by (simp add: read_inode_block_data)
  have run: "read_blocks ino i (Suc k) rem buf s = read_blocks ino (Suc i) k (rem - c) buf1 ?s"
    using len by (simp add: Let_def r c_def[symmetric] buf1_def mult.commute)
  have c512: "c \<le> 512" by (simp add: c_def)
  have lb1: "length buf1 = length buf" using len lb c512 by (simp add: buf1_def)
  have "\<exists>w. length w = 512 \<and> read_blocks ino (Suc i) k (rem - c) buf1 ?s =
    Some (take (512 * Suc i) buf1 @ take (rem - c) (blocks_bytes ?s ino (Suc i) k) @
      drop (512 * Suc i + min (rem - c) (512 * k)) buf1, ?s\<lparr>sector_buffer := w\<rparr>)"
    using Suc.prems(3,4) lb lb1 Suc.prems(1) data_block_cong[of ?s s]
    by (intro Suc.IH) (auto simp: c_def min_def split: if_splits)
  then obtain w where w: "length w = 512" "read_blocks ino (Suc i) k (rem - c) buf1 ?s =
    Some (take (512 * Suc i) buf1 @ take (rem - c) (blocks_bytes ?s ino (Suc i) k) @
      drop (512 * Suc i + min (rem - c) (512 * k)) buf1, s\<lparr>sector_buffer := w\<rparr>)" by auto
  have bb: "blocks_bytes ?s ino (Suc i) k = blocks_bytes s ino (Suc i) k"
    using data_block_cong[of ?s s] by (simp add: blocks_bytes_def)
  have bs: "blocks_bytes s ino i (Suc k) = ?b @ blocks_bytes s ino (Suc i) k"
    by (simp add: blocks_bytes_def upt_conv_Cons del: upt_Suc)
  have "take (512 * Suc i) buf1 @ take (rem - c) (blocks_bytes s ino (Suc i) k) @
      drop (512 * Suc i + min (rem - c) (512 * k)) buf1 =
    take (512 * i) buf @ take rem (blocks_bytes s ino i (Suc k)) @ drop (512 * i + min rem (512 * Suc k)) buf"
  proof (cases k)
    case 0
    then have c: "min rem (512 * Suc k) = c" "take rem ?b = take c ?b" using lb by (auto simp: c_def)
    have e: "blocks_bytes s ino j 0 = []" for j by (simp add: blocks_bytes_def)
    have "take (512 * Suc i) buf1 @ [] @ drop (512 * Suc i + 0) buf1 = buf1" by simp
    with c show ?thesis unfolding bs by (simp add: 0 e) (simp add: buf1_def)
  next
    case (Suc k')
    then have "c = 512" "512 < rem" using Suc.prems(4) by (auto simp: c_def)
    moreover have "512 * i + 512 + min (rem - 512) (512 * k) = 512 * i + min rem (512 * Suc k)"
      using \<open>512 < rem\<close> by (auto simp: min_def)
    moreover have "length (take (512 * i) buf) = 512 * i" using len by simp
    ultimately show ?thesis using lb by (simp add: buf1_def bs add.commute)
  qed
  with w show ?case unfolding run bb by auto
qed

lemma concat_file_chunks:
  "k = 0 \<or> 512 * (k - 1) < nb \<Longrightarrow> min nb (512 * k) \<le> length data \<Longrightarrow>
   concat (map (chunk data nb) [0..<k]) =
     take (min nb (512 * k)) data @ replicate (512 * k - min nb (512 * k)) 0"
proof (induction k)
  case (Suc k)
  then have nb: "512 * k < nb" by simp
  then have IH: "concat (map (chunk data nb) [0..<k]) = take (512 * k) data"
    using Suc by (cases k) auto
  let ?m = "min 512 (nb - 512 * k)"
  have "min nb (512 * Suc k) = 512 * k + ?m" using nb by (auto simp: min_def)
  moreover have "512 * Suc k - (512 * k + ?m) = 512 - ?m" by simp
  ultimately show ?case by (simp add: IH) (simp add: chunk_def Let_def take_add)
qed simp

lemma sint_small: "unat (x::u32) \<le> 16384 \<Longrightarrow> sint x = uint x"
proof -
  assume "unat x \<le> 16384"
  then have u: "uint x \<le> 16384" unfolding uint_nat by linarith
  have "0 \<le> uint x" by simp
  then have "- (2 ^ 31) \<le> uint x" by (rule order_trans[rotated]) simp
  with u show ?thesis unfolding sint_uint by (intro signed_take_bit_int_eq_self) simp_all
qed

text \<open>Reading a file that holds the chunks of \<open>data\<close>, into a buffer that is large enough.\<close>

lemma fs_read_file_holds:
  assumes inv: "fs_inv t" and p: "good_path p" "resolves t (components p) = n"
    and h: "holds s n data nb t" and b0: "\<not> is_block_free s 0"
    and nb: "unat nb \<le> 16384" "min (unat nb) 6144 \<le> length data"
    and buf: "min (unat (min max_size nb)) 6144 \<le> length buf"
  shows "\<exists>w. fs_read_file p buf max_size t = Some (int (unat nb),
    (let m = min (unat (min max_size nb)) 6144 in take m data @ drop m buf), t\<lparr>sector_buffer := w\<rparr>)
    \<and> length w = 512"
proof -
  define sz where "sz = min max_size nb"
  let ?k = "blocks_needed sz"
  have sz: "unat sz \<le> unat nb" "unat sz \<le> 16384" using nb(1) by (auto simp: sz_def min_def word_le_nat_alt)
  note bk = blocks_needed_facts[OF sz(2)]
  have k: "?k \<le> blocks_needed nb"
    using sz nb(1) by (simp add: blocks_needed_nat div_le_mono min.coboundedI2)
  have n: "n < 200" "\<not> 200 \<le> n" "itype (inode_of t n) = 1" "isize (inode_of t n) = nb" "n \<noteq> NONE32"
    using h by (auto simp: holds_def is_file_def not_le)
  have sint: "sint nb = uint nb" using nb(1) by (rule sint_small)
  have sh: "fs_shape t" using inv by (rule fs_invD)
  have lsb: "length (sector_buffer t) = 512" using sh by (simp add: fs_shape_def)
  have "\<exists>w. length w = 512 \<and> read_blocks n 0 ?k (unat sz) buf t =
    Some (take (512 * 0) buf @ take (unat sz) (blocks_bytes t n 0 ?k) @
      drop (512 * 0 + min (unat sz) (512 * ?k)) buf, t\<lparr>sector_buffer := w\<rparr>)"
    using length_data_block[OF sh] lsb bk buf
    by (intro read_blocks_spec) (simp_all add: sz_def)
  then obtain w where w: "length w = 512" "read_blocks n 0 ?k (unat sz) buf t =
    Some (take (unat sz) (blocks_bytes t n 0 ?k) @ drop (min (unat sz) 6144) buf, t\<lparr>sector_buffer := w\<rparr>)"
    unfolding bk(3) by auto
  have nz: "iblocks (inode_of t n) ! j \<noteq> 0" "data_block t (iblocks (inode_of t n) ! j) = chunk data (unat nb) j"
    if "j < ?k" for j
    using h that k b0 by (auto simp: holds_def)
  have "blocks_bytes t n 0 ?k = concat (map (chunk data (unat nb)) [0..<?k])"
    unfolding blocks_bytes_def using nz(2) by (intro arg_cong[of _ _ concat] map_cong) auto
  also have "\<dots> = take (min (unat nb) (512 * ?k)) data @ replicate (512 * ?k - min (unat nb) (512 * ?k)) 0"
    using bk sz nb(2) by (intro concat_file_chunks) auto
  finally have "take (unat sz) (blocks_bytes t n 0 ?k) = take (min (unat sz) 6144) data"
    using bk sz nb(2) by (auto simp: min_def split: if_splits)
  with w p(2) n good_path_find[OF p(1), of t] show ?thesis
    by (intro exI[of _ w]) (auto simp: fs_read_file_def sint sz_def Let_def min_def split: if_splits)
qed

lemma blocks_needed_pred: "blocks_needed nb = 0 \<or> 512 * (blocks_needed nb - 1) < unat nb"
proof (cases "unat nb + 511 < 2 ^ 32")
  case True
  then have "unat (511 + nb) = unat nb + 511" by (simp add: unat_word_ariths)
  then have u: "unat ((511 + nb) div 512) = (unat nb + 511) div 512" by (simp add: unat_div)
  then have "blocks_needed nb \<le> (unat nb + 511) div 512"
    by (auto simp: blocks_needed_def Let_def word_less_nat_alt)
  then have "blocks_needed nb * 512 \<le> unat nb + 511" by (simp add: less_eq_div_iff_mult_less_eq)
  then show ?thesis by (cases "blocks_needed nb") auto
next
  case False
  have "unat nb < 2 ^ 32" using unsigned_less[where 'a = nat, of nb] by simp
  with False have "(unat nb + 511) mod 2 ^ 32 < 512" by (auto simp: mod_if)
  moreover have "unat (nb + 511) = (unat nb + 511) mod 2 ^ 32" by (simp add: unat_word_ariths)
  ultimately have "unat (511 + nb) < 512" by (simp only: add.commute[of 511 nb])
  then have "unat ((511 + nb) div 512) = 0" by (simp add: unat_div)
  then show ?thesis by (simp add: blocks_needed_def Let_def word_less_nat_alt)
qed

text \<open>Every read stays inside a buffer of \<open>max_size\<close> bytes and leaves the file system alone.\<close>

lemma fs_read_file_total:
  assumes ok: "fs_ok s" and p: "good_path p" and buf: "min (unat max_size) 6144 \<le> length buf"
  obtains r buf' w where "fs_read_file p buf max_size s = Some (r, buf', s\<lparr>sector_buffer := w\<rparr>)" "length w = 512"
    "length buf' = length buf"
    "r = -1 \<or> is_file s (resolves s (components p)) \<and> r = sint (isize (inode_of s (resolves s (components p))))"
proof -
  note sh = fs_okD(2)[OF ok]
  let ?n = "resolves s (components p)"
  define sz where "sz = min max_size (isize (inode_of s ?n))"
  have lsb: "length (sector_buffer s) = 512" using sh by (simp add: fs_shape_def)
  have "unat sz \<le> unat max_size" by (simp add: sz_def word_le_nat_alt min_def)
  moreover have "blocks_needed sz \<le> 12"
    by (auto simp: blocks_needed_def Let_def word_less_nat_alt)
  ultimately have "min (unat sz) (512 * blocks_needed sz) \<le> length buf" using buf by linarith
  then have "\<exists>w. length w = 512 \<and> read_blocks ?n 0 (blocks_needed sz) (unat sz) buf s =
    Some (take (512 * 0) buf @ take (unat sz) (blocks_bytes s ?n 0 (blocks_needed sz)) @
      drop (512 * 0 + min (unat sz) (512 * blocks_needed sz)) buf, s\<lparr>sector_buffer := w\<rparr>)"
    using length_data_block[OF sh] lsb blocks_needed_pred[of sz] by (intro read_blocks_spec) auto
  moreover have "length (blocks_bytes s ?n 0 (blocks_needed sz)) = 512 * blocks_needed sz"
    using length_data_block[OF sh] by (simp add: blocks_bytes_def length_concat o_def sum_list_triv)
  ultimately obtain w b where w: "length w = 512" "read_blocks ?n 0 (blocks_needed sz) (unat sz) buf s =
    Some (b, s\<lparr>sector_buffer := w\<rparr>)" "length b = length buf"
    using \<open>min (unat sz) (512 * blocks_needed sz) \<le> length buf\<close> by auto
  have s: "s = s\<lparr>sector_buffer := sector_buffer s\<rparr>" by simp
  have cond: "(if max_size < isize (inode_of s ?n) then max_size else isize (inode_of s ?n)) = sz"
    by (auto simp: sz_def min_def not_less)
  show ?thesis
  proof (cases "is_file s ?n")
    case True
    then have "?n \<noteq> NONE32" "\<not> 200 \<le> ?n" "itype (inode_of s ?n) = 1" by (auto simp: is_file_def not_le)
    then show ?thesis
      using that[OF _ w(1,3)] w(2) good_path_find[OF p, of s] cond True by (simp add: fs_read_file_def)
  next
    case False
    then have "fs_read_file p buf max_size s = Some (-1, buf, s)"
      using good_path_find[OF p, of s] by (auto simp: fs_read_file_def is_file_def not_le)
    then show ?thesis using that[of _ _ "sector_buffer s"] lsb s by simp
  qed
qed

end
