(* ===== verification/FsView.thy ===== *)
theory FsView
  imports FsFile
begin

text \<open>
  The abstract file system: a graph of nodes, each a directory (a map from names to inode
  numbers) or a file (its size and the bytes stored for it). \<open>node_of\<close> abstracts a state to its
  graph, and the operations are refinements of updates of it.
\<close>

section \<open>The abstraction\<close>

datatype node = Dir "bytes \<Rightarrow> u32" | File u32 bytes

definition file_bytes :: "fs \<Rightarrow> u32 \<Rightarrow> bytes" where
  "file_bytes s n = take (unat (isize (inode_of s n)))
     (blocks_bytes s n 0 (blocks_needed (isize (inode_of s n))))"

definition node_of :: "fs \<Rightarrow> u32 \<Rightarrow> node option" where
  "node_of s n =
     (if is_dir s n then Some (Dir (lookup s n))
      else if is_file s n then Some (File (isize (inode_of s n)) (file_bytes s n)) else None)"

text \<open>The lookups of a directory that has just been created.\<close>

definition dots :: "u32 \<Rightarrow> u32 \<Rightarrow> bytes \<Rightarrow> u32" where
  "dots self parent c = (if c = lit ''.'' then self else if c = lit ''..'' then parent else NONE32)"

lemma file_bytes_cong:
  assumes "inode_of t n = inode_of s n"
    "\<And>j. j < blocks_needed (isize (inode_of s n)) \<Longrightarrow>
       data_block t (iblocks (inode_of s n) ! j) = data_block s (iblocks (inode_of s n) ! j)"
  shows "file_bytes t n = file_bytes s n"
  unfolding file_bytes_def blocks_bytes_def assms(1)
  using assms(2) by (intro arg_cong[of _ _ "take _"] arg_cong[of _ _ concat] map_cong) auto

lemma blocks_needed_12: "j < blocks_needed nb \<Longrightarrow> j < 12"
  by (auto simp: blocks_needed_def Let_def word_less_nat_alt split: if_splits)

text \<open>A file's blocks are in use and are no directory's block.\<close>

lemma file_block_cases:
  assumes "fs_inv s" "is_file s n" "j < 12"
  shows "iblocks (inode_of s n) ! j = 0 \<or>
    \<not> is_block_free s (iblocks (inode_of s n) ! j) \<and>
    (\<forall>d. is_dir s d \<longrightarrow> iblocks (inode_of s n) ! j \<noteq> dir_block s d)"
proof (cases "iblocks (inode_of s n) ! j = 0")
  case False
  let ?b = "iblocks (inode_of s n) ! j"
  have o: "owns s n j ?b" using assms False by (simp add: owns_def is_file_def)
  have "?b \<noteq> dir_block s d" if d: "is_dir s d" for d
  proof
    assume "?b = dir_block s d"
    with d False have "owns s d 0 ?b" by (simp add: owns_def is_dir_def)
    with fs_invD(5)[OF assms(1) o] have "n = d" by blast
    with d assms(2) show False by (simp add: is_dir_def is_file_def)
  qed
  with fs_invD(3)[OF assms(1) o] show ?thesis by blast
qed simp

section \<open>Operations as updates of the graph\<close>

lemma fs_same_node:
  assumes inv: "fs_inv s" and same: "fs_same s t"
  shows "node_of t n = node_of s n"
proof (cases "is_file s n")
  case True
  then have i: "inode_of t n = inode_of s n" using fs_sameD(4)[OF same] by (simp add: is_file_def)
  have "file_bytes t n = file_bytes s n"
  proof (rule file_bytes_cong[OF i])
    fix j assume "j < blocks_needed (isize (inode_of s n))"
    then show "data_block t (iblocks (inode_of s n) ! j) = data_block s (iblocks (inode_of s n) ! j)"
      using file_block_cases[OF inv True blocks_needed_12] fs_sameD(6)[OF same] by fastforce
  qed
  then show ?thesis using i by (simp add: node_of_def fs_same_is_dir[OF same] fs_same_is_file[OF same]
      fs_same_lookup[OF inv same, abs_def])
next
  case False
  then show ?thesis
    by (simp add: node_of_def fs_same_is_dir[OF same] fs_same_is_file[OF same]
      fs_same_lookup[OF inv same, abs_def])
qed

lemma fs_adds_file_bytes:
  assumes inv: "fs_inv s" and add: "fs_adds s P name n t" and m: "is_file s m"
  shows "file_bytes t m = file_bytes s m"
proof -
  note a = fs_addsD[OF add]
  have "m \<noteq> n" using m a(5) by (auto simp: is_file_def)
  show ?thesis
  proof (rule file_bytes_cong[OF a(7)[OF \<open>m \<noteq> n\<close>]])
    fix j assume "j < blocks_needed (isize (inode_of s m))"
    then show "data_block t (iblocks (inode_of s m) ! j) = data_block s (iblocks (inode_of s m) ! j)"
      using file_block_cases[OF inv m blocks_needed_12] a(3,9) by fastforce
  qed
qed

lemma fs_adds_node:
  assumes ok: "fs_ok s" and add: "fs_adds s P name n t" and new: "lookup s P name = NONE32"
    and rm: "room s P" and len: "length name < 28" and blk: "is_dir t n \<Longrightarrow> dir_block t n \<noteq> 0"
  shows "node_of t = (node_of s)(n := (if is_dir t n then Some (Dir (dots n P))
      else if is_file t n then Some (File (isize (inode_of t n)) (file_bytes t n)) else None),
    P := Some (Dir ((lookup s P)(name := n))))"
proof
  fix m
  note a = fs_addsD[OF add] and lk = fs_adds_lookup[OF ok add new rm len]
  consider "m = P" | "m = n" | "m \<noteq> n" "m \<noteq> P" by blast
  then show "node_of t m = ((node_of s)(n := (if is_dir t n then Some (Dir (dots n P))
      else if is_file t n then Some (File (isize (inode_of t n)) (file_bytes t n)) else None),
    P := Some (Dir ((lookup s P)(name := n))))) m"
  proof cases
    case 1
    have "lookup t P = (lookup s P)(name := n)" using lk[of P] a(10) by auto
    with 1 a(3) fs_adds_is_dir[OF add a(10)] show ?thesis by (simp add: node_of_def)
  next
    case 2
    have "lookup t n = dots n P" if "is_dir t n"
      using lk[of n] that blk a(10) by (auto simp: dots_def)
    with 2 a(10) show ?thesis by (auto simp: node_of_def)
  next
    case 3
    then have "lookup t m = lookup s m" using lk[of m] by auto
    moreover have "is_file s m \<Longrightarrow> file_bytes t m = file_bytes s m"
      using fs_adds_file_bytes[OF fs_okD(1)[OF ok] add] .
    ultimately show ?thesis
      using 3 a(7)[OF 3(1)] fs_adds_is_dir[OF add 3(1)] fs_adds_is_file[OF add 3(1)]
      by (simp add: node_of_def)
  qed
qed

text \<open>The name of an entry occurs once in its directory.\<close>

definition single :: "fs \<Rightarrow> u32 \<Rightarrow> bytes \<Rightarrow> bool" where
  "single s P name \<longleftrightarrow> (\<forall>i < 15. \<forall>j < 15. in_use (entries s P ! i) = 1 \<longrightarrow> in_use (entries s P ! j) = 1 \<longrightarrow>
     entry_has_name (entries s P ! i) name \<longrightarrow> entry_has_name (entries s P ! j) name \<longrightarrow> i = j)"

lemma fs_removes_lookup_name:
  assumes ok: "fs_ok s" and rem: "fs_removes s P i f t"
    and name: "entry_has_name (entries s P ! i) c" and one: "single s P c"
  shows "lookup t P c = NONE32"
proof (rule ccontr)
  note inv' = fs_removesD(1)[OF rem]
  assume "lookup t P c \<noteq> NONE32"
  then obtain j where j: "refers t P j (lookup t P c)" "entry_has_name (entries t P ! j) c"
    using lookup_refers[OF inv'] by metis
  then have "refers s P j (lookup t P c)" "j \<noteq> i" using fs_removes_refers[OF ok rem] by auto
  moreover from this j fs_removes_nth(2)[OF fs_okD(2)[OF ok] rem, of j]
  have "entry_has_name (entries s P ! j) c" by (simp add: refers_def)
  ultimately show False
    using one name fs_removesD(3)[OF rem] unfolding single_def refers_def by blast
qed

lemma fs_removes_node:
  assumes ok: "fs_ok s" and rem: "fs_removes s P i f t"
    and name: "entry_has_name (entries s P ! i) c" and one: "single s P c"
  shows "node_of t = (node_of s)(f := None, P := Some (Dir ((lookup s P)(c := NONE32))))"
proof
  fix m
  note a = fs_removesD[OF rem] and inv = fs_okD(1)[OF ok]
  have Pf: "P \<noteq> f" using a(4,9) by (auto simp: is_dir_def is_file_def)
  have only: "entry_has_name (entries s P ! i) x \<longleftrightarrow> x = c" for x
    using name by (auto simp: entry_has_name_def)
  have lP: "lookup t P x = ((lookup s P)(c := NONE32)) x" for x
    using fs_removes_lookup[OF ok rem, of P x] fs_removes_lookup_name[OF ok rem name one] only
    by (cases "x = c") auto
  have lo: "m \<noteq> P \<Longrightarrow> lookup t m x = lookup s m x" for x
    using fs_removes_lookup[OF ok rem, of m x] by simp
  consider "m = P" | "m = f" | "m \<noteq> f" "m \<noteq> P" by blast
  then show "node_of t m = ((node_of s)(f := None, P := Some (Dir ((lookup s P)(c := NONE32))))) m"
  proof cases
    case 1
    have "lookup t P = (lookup s P)(c := NONE32)" by (rule ext) (rule lP)
    with 1 a(9) show ?thesis by (simp add: node_of_def fs_removes_is_dir[OF rem])
  next
    case 2
    then show ?thesis using Pf a(6) by (simp add: node_of_def is_dir_def is_file_def)
  next
    case 3
    have "file_bytes t m = file_bytes s m" if "is_file s m"
    proof (rule file_bytes_cong[OF a(5)[OF 3(1)]])
      fix j assume "j < blocks_needed (isize (inode_of s m))"
      then show "data_block t (iblocks (inode_of s m) ! j) = data_block s (iblocks (inode_of s m) ! j)"
        using file_block_cases[OF inv that blocks_needed_12] a(8,9) by fastforce
    qed
    moreover have "lookup t m = lookup s m" by (rule ext) (rule lo[OF 3(2)])
    ultimately show ?thesis
      using 3 a(5)[OF 3(1)] fs_removes_is_dir[OF rem] fs_removes_is_file[OF rem]
      by (simp add: node_of_def)
  qed
qed

text \<open>The bytes of a file that holds its data, when no block is missing.\<close>

lemma holds_file_bytes:
  assumes h: "holds s n data nb t" and b0: "\<not> is_block_free s 0"
    and nb: "unat nb \<le> 16384" "min (unat nb) 6144 \<le> length data"
  shows "file_bytes t n = take (min (unat nb) 6144) data"
proof -
  let ?k = "blocks_needed nb"
  note bk = blocks_needed_facts[OF nb(1)]
  have d: "data_block t (iblocks (inode_of t n) ! j) = chunk data (unat nb) j" if "j < ?k" for j
    using h that b0 by (auto simp: holds_def)
  have "blocks_bytes t n 0 ?k = concat (map (chunk data (unat nb)) [0..<?k])"
    unfolding blocks_bytes_def using d by (intro arg_cong[of _ _ concat] map_cong) auto
  also have "\<dots> = take (min (unat nb) 6144) data @ replicate (512 * ?k - min (unat nb) 6144) 0"
    using bk nb(2) concat_file_chunks[of ?k "unat nb" data] by simp
  finally show ?thesis
    using bk nb(2) h by (auto simp: file_bytes_def holds_def min_def split: if_splits)
qed

end
