(* ===== verification/FsInstall.thy ===== *)
theory FsInstall
  imports FsView
begin

text \<open>
  \<open>fs_install\<close>: the empty file system it builds satisfies all invariants, the directories it then
  creates keep them, and the host name, user name and password hash stay what they were set to.
\<close>

section \<open>What the superblock says of the installation\<close>

definition sb_id :: "fs_superblock \<Rightarrow> u32 \<times> u32 \<times> u32 \<times> u32 \<times> bytes \<times> bytes \<times> bytes" where
  "sb_id sb = (magic sb, version sb, installed sb, root_inode sb, hostname sb, username sb, password_hash sb)"

lemma sb_id_mark [simp]:
  "sb_id (superblock (mark_block_used s b)) = sb_id (superblock s)"
  "sb_id (superblock (mark_block_free s b)) = sb_id (superblock s)"
  by (simp_all add: mark_block_used_def mark_block_free_def sb_id_def Let_def)

lemma sb_id_allocate_block: "sb_id (superblock (snd (allocate_block s))) = sb_id (superblock s)"
  by (simp add: allocate_block_def split: option.split)

lemma sb_id_allocate_inode: "sb_id (superblock (snd (allocate_inode s))) = sb_id (superblock s)"
  by (simp add: allocate_inode_def sb_id_def Let_def split: option.split)

lemma sb_id_free_inode [simp]: "sb_id (superblock (free_inode s n)) = sb_id (superblock s)"
proof -
  have "sb_id (superblock (fold (free_inode_step n) ks s)) = sb_id (superblock s)" for ks
    by (induction ks arbitrary: s) (auto simp: free_inode_step_def Let_def)
  then show ?thesis by (simp add: free_inode_def Let_def sb_id_def)
qed

lemma create_dir_in_sb_id:
  assumes "create_dir_in P c s = Some (r, t)"
  shows "sb_id (superblock t) = sb_id (superblock s)"
proof -
  obtain n s1 where n: "allocate_inode s = (n, s1)" by fastforce
  let ?s2 = "upd_inode s1 n (\<lambda>x. x\<lparr>itype := INODE_TYPE_DIR, isize := 0, parent_inode := P\<rparr>)"
  obtain b s3 where b: "allocate_block ?s2 = (b, s3)" by fastforce
  have "sb_id (superblock s1) = sb_id (superblock s)" "sb_id (superblock s3) = sb_id (superblock s)"
    using sb_id_allocate_inode[of s] sb_id_allocate_block[of ?s2] n b by simp_all
  with assms n b show ?thesis
    by (auto simp: create_dir_in_def Let_def Option.bind_eq_Some_conv split: if_splits)
qed

lemma fs_create_dir_sb_id:
  "fs_create_dir p s = Some (r, t) \<Longrightarrow> sb_id (superblock t) = sb_id (superblock s)"
proof (induction "length p" arbitrary: p r t rule: less_induct)
  case less
  note e = less.prems[unfolded fs_create_dir.simps[of p s]]
  then obtain q nm where q: "split_path p 28 = Some (q, nm)" by (auto split: option.splits)
  from e q consider "t = s" | P where "create_dir_in P nm s = Some (r, t)"
    | r1 u P where "q \<noteq> [SLASH]" "fs_create_dir q s = Some (r1, u)"
        "t = u \<or> create_dir_in P nm u = Some (r, t)"
    by (auto simp: Option.bind_eq_Some_conv split: if_splits)
  then show ?case
  proof cases
    case 3
    with less.hyps[OF split_path_shorter[OF q] 3(2)] show ?thesis
      by (auto simp: create_dir_in_sb_id)
  qed (simp_all add: create_dir_in_sb_id)
qed

section \<open>The empty file system\<close>

lemma card_u32_lessThan: "k \<le> 512 \<Longrightarrow> card {b::u32. b < of_nat k} = k"
proof -
  assume k: "k \<le> 512"
  have u: "unat (of_nat i :: u32) = i" if "i < k \<or> i = k" for i
    using k that by (auto simp: unat_of_nat take_bit_nat_eq_self)
  have "{b::u32. b < of_nat k} = of_nat ` {..<k}"
  proof (intro set_eqI iffI)
    fix b :: u32
    assume "b \<in> {b. b < of_nat k}"
    then have "unat b < k" using u by (simp add: word_less_nat_alt)
    moreover have "b = of_nat (unat b)" by simp
    ultimately show "b \<in> of_nat ` {..<k}" by (metis imageI lessThan_iff)
  qed (auto simp: word_less_nat_alt u)
  moreover have "inj_on (of_nat :: nat \<Rightarrow> u32) {..<k}"
    using u by (intro inj_onI) (metis lessThan_iff)
  ultimately show ?thesis by (simp add: card_image)
qed

abbreviation (input) root_node :: fs_inode where
  "root_node \<equiv> zero_inode\<lparr>itype := INODE_TYPE_DIR, iblocks := (replicate 12 0)[0 := 1]\<rparr>"

definition fresh_superblock :: "bytes \<Rightarrow> bytes \<Rightarrow> bytes \<Rightarrow> fs_superblock" where
  "fresh_superblock host user password = new_superblock\<lparr>
     hostname := host @ 0 # replicate (63 - length host) 0,
     username := user @ 0 # replicate (63 - length user) 0,
     password_hash := hash_bytes (simple_hash password),
     free_inodes := 199, free_blocks := 511, installed := 1\<rparr>"

lemma superblock_shape_fresh:
  "length host < 64 \<Longrightarrow> length user < 64 \<Longrightarrow> superblock_shape (fresh_superblock host user password)"
  by (simp add: fresh_superblock_def superblock_shape_def new_superblock_def hash_bytes_def)

lemma strcpy_zero:
  assumes "c_string x" "length x < 64"
  shows "strcpy (replicate 64 0) (zstr x) = Some (x @ 0 # replicate (63 - length x) 0)"
proof -
  have "0 \<in> set (zstr x)" "cstr (zstr x) = x" using assms by (simp_all add: zstr_def)
  with assms strcpy_eq[of "zstr x" "replicate 64 0"] show ?thesis by simp
qed

text \<open>The state \<open>install_root\<close> ends in, field by field.\<close>

lemma install_root_Some:
  assumes sh: "fs_shape s" and host: "c_string host" "length host < 64"
    and user: "c_string user" "length user < 64"
  obtains t d where "install_root host user password s = Some t" "fs_shape t"
    "superblock t = fresh_superblock host user password"
    "inode_table t = (replicate 200 zero_inode)[0 := root_node]"
    "block_bitmap t = (replicate 64 0)[0 := 2]"
    "dot_dir 0 0 = Some d" "read_dir t 1 = cut_dir d"
    "t = fs_init t"
proof -
  obtain d where d: "dot_dir 0 0 = Some d" "dir_shape d" using dot_dir_Some by metis
  define s3 where "s3 = s\<lparr>superblock := (fresh_superblock host user password)\<lparr>installed := 0\<rparr>,
    block_bitmap := (replicate 64 0)[0 := 2],
    inode_table := (replicate 200 zero_inode)[0 := root_node]\<rparr>"
  define s4 where "s4 = (write_dir s3 1 d)\<lparr>superblock := fresh_superblock host user password\<rparr>"
  define s5 where "s5 = sync_block_bitmap (sync_inode_table (sync_superblock s4))"
  have run: "install_root host user password s =
      Some (load_block_bitmap (load_inode_table (load_superblock s5)))"
    using d host user
    by (simp add: install_root_def wipe_def new_superblock_def strcpy_zero s5_def s4_def s3_def
        fresh_superblock_def upd_inode_def zero_inode_def)
  note fresh = superblock_shape_fresh[OF host(2) user(2), of password]
  have inodes: "\<forall>i \<in> set ((replicate 200 zero_inode)[0 := root_node]). inode_shape i"
    using set_update_subset_insert[of "replicate 200 zero_inode" 0 root_node]
    by (auto simp: inode_shape_def zero_inode_def)
  have "fs_shape s3" using sh fresh inodes by (simp add: s3_def fs_shape_def superblock_shape_def)
  then have sh4: "fs_shape s4" unfolding s4_def using fresh d(2)
    by (intro fs_shape_superblock fs_shape_write_dir)
  have sh5: "fs_shape (sync_superblock s4)" "fs_shape (sync_inode_table (sync_superblock s4))"
    "fs_shape s5"
    using sh4 by (simp_all add: s5_def fs_shape_sync_superblock fs_shape_sync_inode_table
        fs_shape_sync_block_bitmap)
  have "synced_sb s5" "synced_it s5" "synced_bm s5"
    unfolding s5_def using synced_sync sh4 sh5 by (simp_all add: synced_frame)
  then have "fs_init s5 = s5" by (rule fs_init_synced[OF sh5(3)])
  moreover have "data_block s5 1 = data_block (write_dir s3 1 d) 1"
    using data_block_cong[of s4 "write_dir s3 1 d" 1] by (simp add: s5_def s4_def)
  then have "read_dir s5 1 = cut_dir d"
    using read_write_dir[of 1 d s3] d(2) by (simp add: read_dir_data)
  ultimately show ?thesis
    using that[of s5 d] run sh5(3) d(1) by (simp add: fs_init_def s5_def s4_def s3_def)
qed

text \<open>The invariants of the empty file system: the root holds \<open>.\<close> and \<open>..\<close>, block 1 is its block.\<close>

lemma install_root_ok:
  assumes sh: "fs_shape s" and host: "c_string host" "length host < 64"
    and user: "c_string user" "length user < 64"
  obtains t where "install_root host user password s = Some t" "fs_ok t"
    "superblock t = fresh_superblock host user password" "t = fs_init t"
    "\<And>b. is_block_free t b \<longleftrightarrow> b < 512 \<and> b \<noteq> 1"
    "\<And>n. n < 200 \<Longrightarrow> inode_of t n = (if n = 0 then root_node else zero_inode)"
    "\<And>c. lookup t 0 c = dots 0 0 c" "room t 0"
    "\<And>i. i < 15 \<Longrightarrow> in_use (entries t 0 ! i) = 1 \<Longrightarrow> i < 2" "sizes_ok t"
proof -
  obtain t d where t: "install_root host user password s = Some t" "fs_shape t"
    "superblock t = fresh_superblock host user password"
    "inode_table t = (replicate 200 zero_inode)[0 := root_node]"
    "block_bitmap t = (replicate 64 0)[0 := 2]" "dot_dir 0 0 = Some d" "read_dir t 1 = cut_dir d"
    "t = fs_init t"
    by (rule install_root_Some[OF sh host user])
  have io: "inode_of t n = (if n = 0 then root_node else zero_inode)" if "n < 200" for n
    using that t(4) by (simp add: inode_of_def word_less_nat_alt nth_list_update word_unat_eq_iff)
  have bf: "is_block_free t b \<longleftrightarrow> b < 512 \<and> b \<noteq> 1" for b
  proof -
    have two: "bit (2 :: u8) k \<longleftrightarrow> k = 1" for k
      using bit_exp_iff[of 1 k, where 'a = "8 word"] bit_imp_le_length[of "2 :: u8" k] by auto
    have m: "block_bitmap t ! k = (if k = 0 then 2 else 0)" if "k < 64" for k
      using that by (simp add: t(5) nth_list_update)
    have "bit (block_bitmap t ! (unat b div 8)) (unat b mod 8) \<longleftrightarrow> unat b = 1" if "unat b < 512"
    proof (cases "unat b < 8")
      case True
      then show ?thesis using m[of 0] two[of "unat b"] by (simp only: div_less mod_less if_True) simp
    next
      case False
      then have "unat b div 8 \<noteq> 0" "unat b div 8 < 64" using that by (auto simp: div_eq_0_iff)
      then show ?thesis using m[of "unat b div 8"] False by simp
    qed
    then show ?thesis by (auto simp: is_block_free_bit word_less_nat_alt word_unat_eq_iff)
  qed
  have own: "owns t n i b \<longleftrightarrow> n = 0 \<and> i = 0 \<and> b = 1" for n i b
    by (auto simp: owns_def io zero_inode_def nth_list_update split: if_splits)
  have fb: "free_block_set t = {b. b < 512} - {1}" by (auto simp: free_block_set_def bf)
  have fi: "free_inode_set t = {n. n < 200} - {0}"
    by (auto simp: free_inode_set_def io zero_inode_def)
  have c: "card {b::u32. b < 512} = 512" "card {n::u32. n < 200} = 200"
    using card_u32_lessThan[of 512] card_u32_lessThan[of 200] by simp_all
  have "card ({b::u32. b < 512} - {1}) = 511" "card ({n::u32. n < 200} - {0}) = 199"
    by (simp_all add: card_Diff_singleton c)
  then have cs: "unat (free_blocks (superblock t)) = card (free_block_set t)"
    "unat (free_inodes (superblock t)) = card (free_inode_set t)"
    unfolding fb fi by (simp_all add: t(3) fresh_superblock_def)
  have inv: "fs_inv t"
    using t(2) cs by (intro fs_invI) (auto simp: own bf io zero_inode_def)
  have dir: "is_dir t n \<longleftrightarrow> n = 0" for n by (auto simp: is_dir_def io zero_inode_def split: if_splits)
  have nofile: "\<not> is_file t n" for n by (auto simp: is_file_def io zero_inode_def split: if_splits)
  have e0: "entries t 0 = cut_dir d" using t(7) by (simp add: entries_def io)
  have ld: "length d = 15" using t(6) by (rule dot_dir_eq) simp
  have refs: "m = 0" "0 \<in> set (ename (entries t k ! i))" if "refers t k i m" for k i m
  proof -
    from that have r: "k = 0" "i < 15" "in_use (cut_dir d ! i) = 1" "einode (cut_dir d ! i) = m"
      by (auto simp: refers_def dir e0)
    then have "i < 14" using in_use_cut[OF ld] by (cases "i = 14") auto
    with r dot_dir_refers[OF t(6) r(2)] cut_dir_nth[OF ld, of i]
    show "m = 0" "0 \<in> set (ename (entries t k ! i))" by (auto simp: e0)
  qed
  have root: "root_inode (superblock t) = 0" by (simp add: t(3) fresh_superblock_def new_superblock_def)
  have live: "m < 200 \<and> itype (inode_of t m) \<noteq> 0 \<and> 0 \<in> set (ename (entries t k ! i))"
    if "refers t k i m" for k i m
    using refs[OF that] by (simp add: io)
  have "is_dir t (root_inode (superblock t))" by (simp add: root dir)
  then have ok: "fs_ok t" unfolding fs_ok_def tree_inv_def using inv live nofile by blast
  have "lookup t 0 c = dots 0 0 c" for c
    unfolding lookup_entries[OF inv, of 0 c] e0 find_dot_dir[OF t(6), of c] dots_def
    using dir[of 0] by auto
  moreover have "room t 0"
  proof -
    from t(6) have "in_use (d ! 2) = 0" by (rule dot_dir_eq) (simp add: zero_entry_def)
    then have "in_use (entries t 0 ! 2) \<noteq> 1" using cut_dir_nth[OF ld, of 2] by (simp add: e0)
    then show ?thesis unfolding room_def by (auto simp: io intro!: exI[of _ 2])
  qed
  moreover have "i < 2" if i: "i < 15" "in_use (entries t 0 ! i) = 1" for i
  proof -
    obtain a b where d: "d = a # b # replicate 13 zero_entry" using t(6) by (rule dot_dir_eq) blast
    have "i \<noteq> 14" using i in_use_cut[OF ld] e0 by auto
    then have "in_use (d ! i) = 1" using i e0 cut_dir_nth[OF ld, of i] by simp
    then show ?thesis using i(1) unfolding d by (cases i; cases "i - 1") (auto simp: zero_entry_def)
  qed
  moreover have "sizes_ok t" using nofile by (simp add: sizes_ok_def)
  ultimately show ?thesis using that[OF t(1) ok t(3,8) bf io] by blast
qed

section \<open>The first directory gets block 0\<close>

lemma mkdir_takes_0:
  assumes ok: "fs_ok s" and p: "good_path p" "components p = [c]" and new: "lookup s 0 c = NONE32"
    and root: "root_inode (superblock s) = 0" and free: "free_inode_set s \<noteq> {}" "is_block_free s 0"
  obtains n t where "fs_create_dir p s = Some (0, t)" "fs_adds s 0 c n t" "is_dir t n" "dir_block t n = 0"
    "\<not> is_block_free t 0" "length c < 28" "\<And>x. is_block_free t x \<longleftrightarrow> is_block_free s x \<and> x \<noteq> 0"
proof -
  have b: "c_string c \<and> length c < 28"
    using p(1) by (cases rule: good_path_split) (use p in auto)
  have P: "is_dir s 0" using fs_okD(4)[OF ok] root by simp
  have fb: "free_block_set s \<noteq> {}" using free(2) by (auto simp: free_block_set_def)
  obtain n t where t: "create_dir_in 0 c s = Some (0, t)" "fs_adds s 0 c n t" "is_dir t n"
    "\<And>x. is_block_free s x \<Longrightarrow> dir_block t n \<le> x"
    "\<And>x. is_block_free t x \<longleftrightarrow> is_block_free s x \<and> x \<noteq> dir_block t n"
    using fs_okD(1)[OF ok] is_dir_less[OF P] conjunct1[OF b] conjunct2[OF b]
  proof (cases rule: create_dir_in_result)
    case (failed t)
    with P free(1) fb show ?thesis by blast
  next
    case (created n t)
    from that[OF created(1,2,3,5,6)] show ?thesis .
  qed
  have d0: "dir_block t n = 0" using t(4)[OF free(2)] by simp
  moreover have "fs_create_dir p s = create_dir_in 0 c s"
    using fs_create_dir_below[OF p(1), of "[]" c s] p(2) new root by (simp add: NONE32_def)
  ultimately show ?thesis using that[OF _ t(2,3) d0] t(1,5) b by simp
qed

section \<open>The whole installation\<close>

text \<open>A user name that can be a directory under \<open>/home\<close>.\<close>

definition good_user :: "bytes \<Rightarrow> bool" where
  "good_user user \<longleftrightarrow> c_string user \<and> SLASH \<notin> set user \<and> user \<noteq> [] \<and> length user < 28"

lemma components_lit:
  "components (lit ''/bin'') = [lit ''bin'']" "components (lit ''/home'') = [lit ''home'']"
  "components (lit ''/tmp'') = [lit ''tmp'']" "components (lit ''/etc'') = [lit ''etc'']"
  "components (lit ''/var'') = [lit ''var'']"
  by (simp_all add: components_def)

lemma components_home:
  assumes "SLASH \<notin> set user" "user \<noteq> []"
  shows "components (lit ''/home/'' @ user) = [lit ''home'', user]"
    "components ((lit ''/home/'' @ user) @ lit ''/documents'') = [lit ''home'', user, lit ''documents'']"
    "components ((lit ''/home/'' @ user) @ lit ''/downloads'') = [lit ''home'', user, lit ''downloads'']"
  using assms by (simp_all add: components_def comps_prefix)
    (use comps_prefix[of user "[]" "[]"] in simp)

lemma good_install_paths:
  "good_path (lit ''/bin'')" "good_path (lit ''/home'')" "good_path (lit ''/tmp'')"
  "good_path (lit ''/etc'')" "good_path (lit ''/var'')"
  by (simp_all add: good_path_def components_def)

lemma good_home_paths:
  assumes "good_user user"
  shows "good_path (lit ''/home/'' @ user)" "good_path ((lit ''/home/'' @ user) @ lit ''/documents'')"
    "good_path ((lit ''/home/'' @ user) @ lit ''/downloads'')"
  using assms components_home[of user] by (auto simp: good_path_def good_user_def)

lemma mkdir_ignore_ok:
  assumes "fs_ok s" "good_path p"
  obtains t where "mkdir_ignore p s = Some t" "fs_ok t" "keeps_0 s t"
    "sb_id (superblock t) = sb_id (superblock s)"
proof -
  obtain r t where t: "fs_create_dir p s = Some (r, t)" "fs_ok t" "keeps_0 s t"
    using fs_create_dir_total[OF assms] by blast
  from that[OF _ t(2,3) fs_create_dir_sb_id[OF t(1)]] t(1) show ?thesis by (simp add: mkdir_ignore_def)
qed

lemma fs_ok_sync:
  assumes "fs_ok s"
  shows "fs_ok (sync_superblock s)" "fs_ok (sync_inode_table s)" "fs_ok (sync_block_bitmap s)"
proof -
  have "fs_same s (sync_superblock s)" "fs_same s (sync_inode_table s)" "fs_same s (sync_block_bitmap s)"
    using fs_okD(1)[OF assms] by (simp_all add: fs_same_def fs_inv_sync)
  then show "fs_ok (sync_superblock s)" "fs_ok (sync_inode_table s)" "fs_ok (sync_block_bitmap s)"
    using fs_same_ok[OF assms] by blast+
qed

lemma fs_init_sync_all:
  assumes "fs_shape s"
  defines "t \<equiv> sync_block_bitmap (sync_inode_table (sync_superblock s))"
  shows "fs_init t = t" "synced_sb t"
proof -
  have "fs_shape t" unfolding t_def using assms by (simp add: inv_intros)
  moreover show s: "synced_sb t" unfolding t_def using assms by (simp add: synced_sync synced_frame inv_intros)
  moreover have "synced_it t" "synced_bm t" unfolding t_def
    using assms by (simp_all add: synced_sync synced_frame inv_intros)
  ultimately show "fs_init t = t" by (rule fs_init_synced)
qed

lemma fs_install_ok:
  assumes sh: "fs_shape s" and host: "c_string host" "length host < 64" and user: "good_user user"
  obtains t where "fs_install host user password s = Some t" "fs_ok t" "\<not> is_block_free t 0"
    "sb_id (superblock t) = sb_id (fresh_superblock host user password)" "fs_init t = t" "sizes_ok t" "synced_sb t"
proof -
  have u: "c_string user" "length user < 64" "length user < 28" using user by (auto simp: good_user_def)
  obtain s1 where s1: "install_root host user password s = Some s1" "fs_ok s1"
    "superblock s1 = fresh_superblock host user password"
    "\<And>b. is_block_free s1 b \<longleftrightarrow> b < 512 \<and> b \<noteq> 1"
    "\<And>n. n < 200 \<Longrightarrow> inode_of s1 n = (if n = 0 then root_node else zero_inode)"
    "\<And>c. lookup s1 0 c = dots 0 0 c" "sizes_ok s1"
    by (rule install_root_ok[OF sh host u(1,2), of password]) (rule that)
  have fi: "free_inode_set s1 \<noteq> {}"
    using s1(5)[of 1] by (auto simp: free_inode_set_def zero_inode_def intro!: exI[of _ 1])
  have ri: "root_inode (superblock s1) = 0"
    by (simp add: s1(3) fresh_superblock_def new_superblock_def)
  have l0: "lookup s1 0 (lit ''bin'') = NONE32" and b0: "is_block_free s1 0"
    by (simp_all add: s1(4,6) dots_def)
  obtain n s2 where "fs_create_dir (lit ''/bin'') s1 = Some (0, s2)"
    "fs_adds s1 0 (lit ''bin'') n s2" "\<not> is_block_free s2 0"
    by (rule mkdir_takes_0[OF s1(2) good_install_paths(1) components_lit(1) l0 ri fi b0])
  then have s2: "mkdir_ignore (lit ''/bin'') s1 = Some s2" "fs_ok s2" "\<not> is_block_free s2 0"
    "sb_id (superblock s2) = sb_id (superblock s1)" "keeps_0 s1 s2"
    using fs_adds_ok[OF s1(2)] fs_create_dir_sb_id fs_create_dir_total[OF s1(2) good_install_paths(1)]
    by (auto simp: mkdir_ignore_def)
  obtain s3 where s3: "mkdir_ignore (lit ''/home'') s2 = Some s3" "fs_ok s3" "keeps_0 s2 s3"
    "sb_id (superblock s3) = sb_id (superblock s2)"
    by (rule mkdir_ignore_ok[OF s2(2) good_install_paths(2)])
  obtain s4 where s4: "mkdir_ignore (lit ''/tmp'') s3 = Some s4" "fs_ok s4" "keeps_0 s3 s4"
    "sb_id (superblock s4) = sb_id (superblock s3)"
    by (rule mkdir_ignore_ok[OF s3(2) good_install_paths(3)])
  obtain s5 where s5: "mkdir_ignore (lit ''/etc'') s4 = Some s5" "fs_ok s5" "keeps_0 s4 s5"
    "sb_id (superblock s5) = sb_id (superblock s4)"
    by (rule mkdir_ignore_ok[OF s4(2) good_install_paths(4)])
  obtain s6 where s6: "mkdir_ignore (lit ''/var'') s5 = Some s6" "fs_ok s6" "keeps_0 s5 s6"
    "sb_id (superblock s6) = sb_id (superblock s5)"
    by (rule mkdir_ignore_ok[OF s5(2) good_install_paths(5)])
  obtain s7 where s7: "mkdir_ignore (lit ''/home/'' @ user) s6 = Some s7" "fs_ok s7" "keeps_0 s6 s7"
    "sb_id (superblock s7) = sb_id (superblock s6)"
    by (rule mkdir_ignore_ok[OF s6(2) good_home_paths(1)[OF user]])
  obtain s8 where s8: "mkdir_ignore ((lit ''/home/'' @ user) @ lit ''/documents'') s7 = Some s8" "fs_ok s8"
    "keeps_0 s7 s8" "sb_id (superblock s8) = sb_id (superblock s7)"
    by (rule mkdir_ignore_ok[OF s7(2) good_home_paths(2)[OF user]])
  obtain s9 where s9: "mkdir_ignore ((lit ''/home/'' @ user) @ lit ''/downloads'') s8 = Some s9" "fs_ok s9"
    "keeps_0 s8 s9" "sb_id (superblock s9) = sb_id (superblock s8)"
    by (rule mkdir_ignore_ok[OF s8(2) good_home_paths(3)[OF user]])
  let ?t = "sync_block_bitmap (sync_inode_table (sync_superblock s9))"
  have fit: "fits 128 (lit ''/home/'' @ user) = Some (lit ''/home/'' @ user)"
    "fits 128 ((lit ''/home/'' @ user) @ lit ''/documents'') = Some ((lit ''/home/'' @ user) @ lit ''/documents'')"
    "fits 128 ((lit ''/home/'' @ user) @ lit ''/downloads'') = Some ((lit ''/home/'' @ user) @ lit ''/downloads'')"
    using u(3) by (simp_all add: fits_def)
  have "fs_install host user password s = Some ?t"
    unfolding fs_install_def s1(1) by (simp only: bind.bind_lunit s2(1) s3(1) s4(1) s5(1) s6(1) s7(1)
        s8(1) s9(1) fit)
  moreover have "fs_ok ?t" using s9(2) by (simp add: fs_ok_sync)
  moreover have "keeps_0 s9 ?t"
    using fs_okD(1)[OF s9(2)] by (intro keeps_0_same) (simp add: fs_same_def fs_inv_sync)
  with s1(7) s2(5) s3(3) s4(3) s5(3) s6(3) s7(3) s8(3) s9(3) have "sizes_ok ?t"
    unfolding keeps_0_def by blast
  moreover have "\<not> is_block_free ?t 0"
    using s2(3) s3(3) s4(3) s5(3) s6(3) s7(3) s8(3) s9(3) by (auto simp: keeps_0_def)
  ultimately show ?thesis
    using that[of ?t] fs_init_sync_all[OF fs_okD(2)[OF s9(2)]] s1(3) s2(4) s3(4) s4(4) s5(4) s6(4) s7(4) s8(4) s9(4)
    by simp
qed

end
