(* ===== verification/FsList.thy ===== *)
theory FsList
  imports FsInstall
begin

text \<open>
  \<open>fs_list_dir\<close>: its output fits the caller's buffer and is one line for each printable entry;
  \<open>fs_change_dir\<close>: the new current directory exists and has the components the path says;
  \<open>fs_verify_password\<close>: it compares hashes.
\<close>

section \<open>\<open>fs_list_dir\<close>\<close>

definition printable :: "bytes \<Rightarrow> bool" where
  "printable name \<longleftrightarrow> name \<noteq> [] \<and> (\<forall>c \<in> set name. 32 \<le> sint c \<and> sint c \<le> 126)"

text \<open>The line of an entry in the listing, without bounds.\<close>

definition line :: "fs \<Rightarrow> fs_dir_entry \<Rightarrow> bytes" where
  "line s e = (let name = cstr (ename e) in
     if in_use e \<noteq> 1 \<or> name = lit ''.'' \<or> name = lit ''..'' \<or> \<not> printable name then []
     else name @ (if is_dir s (einode e) then [SLASH] else []) @ [10])"

lemma name_length_spec:
  "name_length m n = (if \<forall>c \<in> set (cstr m). 32 \<le> sint c \<and> sint c \<le> 126 then n + length (cstr m) else 0)"
  by (induction m arbitrary: n) auto

lemma name_length_0: "name_length m 0 = 0 \<longleftrightarrow> \<not> printable (cstr m)"
  by (auto simp: name_length_spec printable_def)

lemma name_length_le: "name_length m 0 \<le> length m"
  using length_takeWhile_le[of "\<lambda>c. c \<noteq> 0" m] by (auto simp: name_length_spec cstr_def)

lemma take_name_length: "printable (cstr m) \<Longrightarrow> take (name_length m 0) m = cstr m"
  by (simp add: name_length_spec printable_def cstr_def takeWhile_eq_take[symmetric])

text \<open>An entry that is listed is written to the buffer behind what is there.\<close>

definition appends :: "bytes \<Rightarrow> nat \<Rightarrow> bytes \<Rightarrow> bytes \<Rightarrow> bool" where
  "appends l w buf buf' \<longleftrightarrow> length buf' = length buf \<and> w + length l \<le> length buf \<and> take (w + length l) buf' = take w buf @ l"

lemma appends_nil [simp]: "w \<le> length buf \<Longrightarrow> appends [] w buf buf"
  by (simp add: appends_def)

lemma appends_trans: "appends l w buf b1 \<Longrightarrow> appends l' (w + length l) b1 b2 \<Longrightarrow> appends (l @ l') w buf b2"
  by (simp add: appends_def add.assoc)

lemma appends_wr:
  assumes "appends l w buf b1" "w + length l < length buf"
  shows "appends (l @ [c]) w buf (b1[w + length l := c])"
  using assms by (simp add: appends_def take_Suc_conv_app_nth take_update_cancel)

lemma list_entry_line:
  assumes "entry_shape (d ! i)" "in_use (d ! i) = 1 \<Longrightarrow> 0 \<in> set (ename (d ! i))" "w \<le> length buf" "mx \<le> int (length buf)"
  shows "if line s (d ! i) \<noteq> [] \<and> mx \<le> int w + int (length (cstr (ename (d ! i)))) + 2 then list_entry s mx d i w buf = Some (False, w, buf)
     else \<exists>b. list_entry s mx d i w buf = Some (True, w + length (line s (d ! i)), b) \<and> appends (line s (d ! i)) w buf b"
proof (cases "line s (d ! i) = []")
  case True
  then show ?thesis using assms name_length_0[of "ename (d ! i)"]
    by (auto simp: list_entry_def line_def entry_has_name_def Let_def split: if_splits)
next
  case False
  let ?m = "ename (d ! i)"
  have e: "in_use (d ! i) = 1" "cstr ?m \<noteq> lit ''.''" "cstr ?m \<noteq> lit ''..''" "printable (cstr ?m)"
    using False by (auto simp: line_def Let_def split: if_splits)
  then have n: "name_length ?m 0 = length (cstr ?m)" "name_length ?m 0 \<noteq> 0" using name_length_0[of ?m]
    by (simp_all add: name_length_spec printable_def)
  show ?thesis
  proof (cases "mx \<le> int w + int (length (cstr ?m)) + 2")
    case True
    with False e n show ?thesis by (simp add: list_entry_def entry_has_name_def Let_def)
  next
    case fits: False
    then have room: "w + length (cstr ?m) + 2 < length buf" using assms(4) by linarith
    let ?b1 = "take w buf @ cstr ?m @ 0 # drop (length (cstr ?m) + 1) (drop w buf)"
    have cp: "strcpy (drop w buf) ?m = Some (cstr ?m @ 0 # drop (length (cstr ?m) + 1) (drop w buf))"
      using strcpy_eq[OF assms(2)[OF e(1)], of "drop w buf"] room by simp
    have a1: "appends (cstr ?m) w buf ?b1" using room by (simp add: appends_def min_absorb2)
    have a2: "appends (cstr ?m @ [10]) w buf (?b1[w + length (cstr ?m) := 10])"
      "appends (cstr ?m @ [SLASH]) w buf (?b1[w + length (cstr ?m) := SLASH])"
      by (rule appends_wr[OF a1], use room in simp)+
    have a3: "appends ((cstr ?m @ [SLASH]) @ [10]) w buf
        (?b1[w + length (cstr ?m) := SLASH, w + length (cstr ?m @ [SLASH]) := 10])"
      by (rule appends_wr[OF a2(2)]) (use room in simp)
    have lb: "length ?b1 = length buf" using a1 unfolding appends_def by (elim conjE)
    have line: "line s (d ! i) = cstr ?m @ (if is_dir s (einode (d ! i)) then [SLASH] else []) @ [10]"
      using e by (simp add: line_def Let_def)
    have "list_entry s mx d i w buf = Some (True, w + length (line s (d ! i)),
        if is_dir s (einode (d ! i)) then ?b1[w + length (cstr ?m) := SLASH, w + length (cstr ?m @ [SLASH]) := 10]
        else ?b1[w + length (cstr ?m) := 10])"
      using e n fits cp room lb unfolding line
      by (simp add: list_entry_def entry_has_name_def is_dir_def Let_def wr_def del: append_assoc append_Cons)
    then show ?thesis using False fits a2(1) a3 line by simp
  qed
qed

lemma length_line: "length (line s e) \<le> length (cstr (ename e)) + 2"
  by (simp add: line_def Let_def)

lemma list_loop_bound:
  assumes "\<And>i. i \<in> set is \<Longrightarrow> entry_shape (d ! i)"
    "\<And>i. i \<in> set is \<Longrightarrow> in_use (d ! i) = 1 \<Longrightarrow> 0 \<in> set (ename (d ! i))" "w \<le> length buf" "mx \<le> int (length buf)"
  shows "\<exists>w' b. list_loop s mx d is w buf = Some (w', b) \<and> length b = length buf \<and> (w' = w \<or> int w' < mx)"
  using assms
proof (induction "is" arbitrary: w buf)
  case (Cons i "is")
  note e = list_entry_line[OF Cons.prems(1)[of i] Cons.prems(2)[of i] Cons.prems(3,4), of s]
  show ?case
  proof (cases "line s (d ! i) \<noteq> [] \<and> mx \<le> int w + int (length (cstr (ename (d ! i)))) + 2")
    case True
    with e show ?thesis by simp
  next
    case False
    with e obtain b where b: "list_entry s mx d i w buf = Some (True, w + length (line s (d ! i)), b)"
      "length b = length buf" "w + length (line s (d ! i)) \<le> length buf"
      by (auto simp: appends_def)
    obtain w2 b2 where "list_loop s mx d is (w + length (line s (d ! i))) b = Some (w2, b2)" "length b2 = length buf"
      "w2 = w + length (line s (d ! i)) \<or> int w2 < mx"
      using Cons.IH[of "w + length (line s (d ! i))" b] Cons.prems b by auto
    moreover have "line s (d ! i) = [] \<or> int w + int (length (line s (d ! i))) < mx"
      using False length_line[of s "d ! i"] by linarith
    ultimately show ?thesis using b(1) by auto
  qed
qed simp

lemma list_loop_all:
  assumes "\<And>i. i \<in> set is \<Longrightarrow> entry_shape (d ! i)"
    "\<And>i. i \<in> set is \<Longrightarrow> in_use (d ! i) = 1 \<Longrightarrow> 0 \<in> set (ename (d ! i))" "mx \<le> int (length buf)"
    "int w + 30 * int (length is) + 66 \<le> mx"
  shows "\<exists>b. list_loop s mx d is w buf = Some (w + length (concat (map (\<lambda>i. line s (d ! i)) is)), b) \<and>
    appends (concat (map (\<lambda>i. line s (d ! i)) is)) w buf b"
  using assms
proof (induction "is" arbitrary: w buf)
  case (Cons i "is")
  have w: "w \<le> length buf" using Cons.prems(3,4) by simp
  note e = list_entry_line[OF Cons.prems(1)[of i] Cons.prems(2)[of i] w Cons.prems(3), of s]
  have l: "length (cstr (ename (d ! i))) \<le> 28"
    using Cons.prems(1)[of i] length_takeWhile_le[of "\<lambda>c. c \<noteq> 0" "ename (d ! i)"]
    by (simp add: entry_shape_def cstr_def)
  obtain b where b: "list_entry s mx d i w buf = Some (True, w + length (line s (d ! i)), b)"
    "appends (line s (d ! i)) w buf b"
    using e l Cons.prems(4) by (auto split: if_splits)
  have "int (w + length (line s (d ! i))) + 30 * int (length is) + 66 \<le> mx"
    using l length_line[of s "d ! i"] Cons.prems(4) by simp
  then obtain b2 where "list_loop s mx d is (w + length (line s (d ! i))) b =
      Some (w + length (line s (d ! i)) + length (concat (map (\<lambda>i. line s (d ! i)) is)), b2)"
    "appends (concat (map (\<lambda>i. line s (d ! i)) is)) (w + length (line s (d ! i))) b b2"
    using Cons.IH[of b "w + length (line s (d ! i))"] Cons.prems b(2) by (auto simp: appends_def)
  with b Cons.prems(4) appends_trans[OF b(2)] show ?case by (auto simp: add.assoc)
qed simp

lemma entries_listable:
  assumes "fs_ok s" "is_dir s d" "i < 15"
  shows "entry_shape (entries s d ! i)" "in_use (entries s d ! i) = 1 \<Longrightarrow> 0 \<in> set (ename (entries s d ! i))"
proof -
  show "entry_shape (entries s d ! i)"
    using dir_shape_nth[OF dir_shape_read_dir[OF fs_okD(2)[OF assms(1)]] assms(3)] by (simp add: entries_def)
  show "in_use (entries s d ! i) = 1 \<Longrightarrow> 0 \<in> set (ename (entries s d ! i))"
    using fs_okD(8)[OF assms(1), of d i] assms by (simp add: refers_def)
qed

lemma fs_list_dir_eq:
  assumes ok: "fs_ok s" and p: "good_path p"
  shows "fs_list_dir s p buf mx = (let d = resolves s (components p) in
    if is_dir s d \<and> dir_block s d \<noteq> 0 then do {
      buf0 \<leftarrow> wr buf 0 0;
      (w, buf1) \<leftarrow> list_loop s mx (entries s d) [0..<15] 0 buf0;
      buf2 \<leftarrow> wr buf1 w 0;
      Some (int w, buf2) }
    else map_option (Pair (-1)) (wr buf 0 0))"
proof -
  let ?d = "resolves s (components p)"
  have "is_dir s ?d \<Longrightarrow> dir_block s ?d \<noteq> 0 \<Longrightarrow> \<not> 512 \<le> dir_block s ?d"
    using dir_block_cases[OF fs_okD(1)[OF ok] is_dir_less[of s ?d]] by (auto simp: not_le)
  then show ?thesis
    using good_path_find[OF p, of s]
    by (cases "dir_block s ?d = 0") (auto simp: fs_list_dir_def Let_def is_dir_def entries_def not_le not_less
        dest: leD)
qed

lemma fs_list_dir_total:
  assumes "fs_ok s" "good_path p" "buf \<noteq> []" "mx \<le> int (length buf)"
  obtains r b where "fs_list_dir s p buf mx = Some (r, b)" "length b = length buf" "0 \<in> set b" "r < mx \<or> r \<le> 0"
proof (cases "is_dir s (resolves s (components p)) \<and> dir_block s (resolves s (components p)) \<noteq> 0")
  case True
  let ?d = "resolves s (components p)"
  obtain w b where w: "list_loop s mx (entries s ?d) [0..<15] 0 (buf[0 := 0]) = Some (w, b)" "length b = length buf" "w = 0 \<or> int w < mx"
    using list_loop_bound[of "[0..<15]" "entries s ?d" 0 "buf[0 := 0]" mx s] entries_listable[OF assms(1), of ?d] True assms(4)
    by auto
  then have l: "w < length b" using assms(3,4) by auto
  then have "fs_list_dir s p buf mx = Some (int w, b[w := 0])"
    unfolding fs_list_dir_eq[OF assms(1,2)] Let_def using True w(1) assms(3) by (simp add: wr_def)
  moreover have "length (b[w := 0]) = length buf" "0 \<in> set (b[w := 0])" "int w < mx \<or> int w \<le> 0"
    using w(2,3) l by (auto simp: set_update_memI)
  ultimately show ?thesis by (rule that)
next
  case False
  then have "fs_list_dir s p buf mx = Some (-1, buf[0 := 0])"
    unfolding fs_list_dir_eq[OF assms(1,2)] Let_def if_not_P[OF False] using assms(3) by (simp add: wr_def)
  then show ?thesis using that assms(3) by (simp add: set_update_memI)
qed

section \<open>\<open>fs_change_dir\<close>\<close>

lemma comps_append_slash: "comps (a @ SLASH # b) cur = comps a cur @ comps b []"
  by (induction a arbitrary: cur) auto

lemma components_append_slash: "components (a @ SLASH # b) = components a @ components b"
  by (simp add: components_def comps_append_slash)

lemma components_slash: "components (SLASH # b) = components b"
  by (simp add: components_def)

lemma fs_change_dir_down:
  assumes "path \<noteq> lit ''..''" "fs_change_dir s path cap cwd = Some (0, d)"
  shows "fs_dir_exists s d = Some True" "length d < cap"
    "components d = (if path \<noteq> [] \<and> hd path = SLASH then components path
       else components cwd @ components path)"
proof -
  let ?d = "if path \<noteq> [] \<and> hd path = SLASH then path
     else if cwd = lit ''/'' then lit ''/'' @ path else cwd @ lit ''/'' @ path"
  from assms have d: "d = ?d" "fs_dir_exists s d = Some True" "length d < cap"
    by (auto simp: fs_change_dir_def fits_def Option.bind_eq_Some_conv split: if_splits)
  show "fs_dir_exists s d = Some True" "length d < cap" using d by simp_all
  show "components d = (if path \<noteq> [] \<and> hd path = SLASH then components path
       else components cwd @ components path)"
    unfolding d(1) by (simp add: components_append_slash components_slash) (simp add: components_def)
qed

lemma fs_change_dir_up:
  assumes cs: "\<forall>c \<in> set (cs @ [c]). component c" and cap: "2 \<le> cap"
  shows "fs_change_dir s (lit ''..'') cap (abs_path (cs @ [c])) = Some (0, abs_path cs)"
proof -
  have a: "abs_path (cs @ [c]) = render cs @ SLASH # c" by (simp add: abs_path_def)
  have "SLASH \<notin> set c" "c \<noteq> []" using cs by (simp_all add: component_def)
  then have "last_slash (render cs @ SLASH # c) 0 0 = length (render cs)" "render cs @ SLASH # c \<noteq> [SLASH]"
    using abs_path_ne_slash[of c cs] cs by (simp_all add: last_slash_append)
  moreover have "render cs = [] \<longleftrightarrow> cs = []" by (cases cs) auto
  ultimately show ?thesis
    using cap unfolding a by (auto simp: fs_change_dir_def fits_def abs_path_def)
qed

text \<open>With a slash at its end, the last component stays.\<close>

lemma fs_change_dir_up_slash:
  assumes "cs \<noteq> []" "\<forall>c \<in> set cs. component c"
  shows "fs_change_dir s (lit ''..'') cap (abs_path cs @ lit ''/'') = Some (0, abs_path cs)"
proof -
  have "render cs \<noteq> []" using assms(1) by (cases cs) auto
  moreover have "last_slash (render cs @ [SLASH]) 0 0 = length (render cs)"
    using last_slash_append[of "[]" "render cs"] by simp
  ultimately show ?thesis using assms(1) by (auto simp: fs_change_dir_def abs_path_def)
qed

section \<open>Passwords\<close>

lemma hash_bytes_nth: "i < 32 \<Longrightarrow> hash_bytes h ! i = ucast (drop_bit i h AND 0xFF)"
  by (simp add: hash_bytes_def)

lemma hash_bytes_inj: "hash_bytes h = hash_bytes h' \<longleftrightarrow> h = h'"
proof
  assume eq: "hash_bytes h = hash_bytes h'"
  show "h = h'"
  proof (rule bit_word_eqI)
    fix n
    assume "n < LENGTH(32)"
    then have n: "n < 32" by simp
    have b: "bit (hash_bytes x ! n) 0 \<longleftrightarrow> bit x n" for x
      using n by (simp add: hash_bytes_nth bit_simps)
    show "bit h n \<longleftrightarrow> bit h' n" using b[of h] b[of h'] eq by simp
  qed
qed simp

lemma fs_verify_password_eq:
  assumes "password_hash (superblock s) = hash_bytes h"
  shows "fs_verify_password s password = Some (simple_hash password = h)"
proof -
  have l: "length (hash_bytes x) = 32" for x by (simp add: hash_bytes_def)
  show ?thesis
    using memcmp_defined[of 32 "hash_bytes (simple_hash password)" "hash_bytes h"]
      memcmp_zero[of 32 "hash_bytes (simple_hash password)" "hash_bytes h"] l assms
    by (auto simp: fs_verify_password_def hash_bytes_inj)
qed

end
