(* ===== verification/FsProps.thy ===== *)
theory FsProps
  imports FsList
begin

text \<open>
  The file system as a whole: sequences of calls, the invariant over everything they reach, memory
  safety of every call, and the properties of the operations as theorems over the definitions of
  \<open>FsOps\<close>. The state \<open>demo\<close>, an installed file system with one directory, is where the witnesses
  apply them.
\<close>

section \<open>Sequences of calls\<close>

text \<open>One call from outside, with a path that fits and data and buffers of the size announced.\<close>

inductive fs_step :: "fs \<Rightarrow> fs \<Rightarrow> bool" where
  mkdir: "good_path p \<Longrightarrow> fs_create_dir p s = Some (r, t) \<Longrightarrow> fs_step s t"
| store: "good_path p \<Longrightarrow> good_data data nb \<Longrightarrow> fs_create_file p data nb s = Some (r, t) \<Longrightarrow> fs_step s t"
| remove: "good_path p \<Longrightarrow> fs_delete_file p s = Some (r, t) \<Longrightarrow> fs_step s t"
| fetch: "good_path p \<Longrightarrow> min (unat max_size) 6144 \<le> length buf \<Longrightarrow>
    fs_read_file p buf max_size s = Some (r, buf', t) \<Longrightarrow> fs_step s t"

inductive_cases fs_stepE: "fs_step s t"

inductive fs_steps :: "fs \<Rightarrow> fs \<Rightarrow> bool" for s where
  start: "fs_steps s s"
| more: "fs_steps s t \<Longrightarrow> fs_step t u \<Longrightarrow> fs_steps s u"

lemma fs_same_sector_buffer: "fs_inv s \<Longrightarrow> length w = 512 \<Longrightarrow> fs_same s (s\<lparr>sector_buffer := w\<rparr>)"
  by (simp add: fs_same_def fs_inv_sector_buffer data_block_def)

lemma fs_step_ok:
  assumes "fs_step s t" "fs_ok s"
  shows "fs_ok t" "keeps_0 s t"
proof -
  from assms have "fs_ok t \<and> keeps_0 s t"
  proof (cases rule: fs_step.cases)
    case (mkdir p r)
    with fs_create_dir_total[OF assms(2)] show ?thesis by fastforce
  next
    case (store p data nb r)
    with fs_create_file_total[OF assms(2)] show ?thesis by fastforce
  next
    case (remove p r)
    with fs_delete_file_total[OF assms(2)] show ?thesis by fastforce
  next
    case (fetch p mx buf r buf')
    obtain r2 b2 w where "fs_read_file p buf mx s = Some (r2, b2, s\<lparr>sector_buffer := w\<rparr>)" "length w = 512"
      using fs_read_file_total[OF assms(2) fetch(1,2)] by metis
    with fetch(3) fs_same_sector_buffer[OF fs_okD(1)[OF assms(2)]]
    show ?thesis using fs_same_ok[OF assms(2)] keeps_0_same by auto
  qed
  then show "fs_ok t" "keeps_0 s t" by simp_all
qed

lemma fs_steps_ok: "fs_steps s t \<Longrightarrow> fs_ok s \<Longrightarrow> fs_ok t \<and> keeps_0 s t"
  by (induction rule: fs_steps.induct) (auto intro: fs_step_ok keeps_0_refl keeps_0_trans)

section \<open>A state for the witnesses\<close>

definition blank_fs :: fs where
  "blank_fs = \<lparr>superblock = new_superblock, inode_table = replicate 200 zero_inode,
     block_bitmap = replicate 64 0, sector_buffer = replicate 512 0, disk = (\<lambda>_. replicate 512 0)\<rparr>"

text \<open>The first two steps of \<open>fs_install\<close>: the root and \<open>/bin\<close>.\<close>

definition has_bin :: "bytes \<Rightarrow> bytes \<Rightarrow> bytes \<Rightarrow> fs \<Rightarrow> fs \<Rightarrow> bool" where
  "has_bin host user password s0 s \<longleftrightarrow> (\<exists>r. install_root host user password s0 = Some r \<and>
     fs_create_dir (lit ''/bin'') r = Some (0, s))"

lemma has_bin_exists:
  assumes "fs_shape s0" "c_string host" "length host < 64" "c_string user" "length user < 64"
  obtains s n where "has_bin host user password s0 s" "fs_ok s" "\<not> is_block_free s 0" "is_dir s 0" "room s 0"
    "root_inode (superblock s) = 0" "\<And>c. c \<noteq> lit ''bin'' \<Longrightarrow> lookup s 0 c = dots 0 0 c"
    "free_inode_set s \<noteq> {}" "free_block_set s = {b. b < 512} - {0, 1}" "lookup s 0 (lit ''bin'') = n"
    "is_dir s n" "dir_block s n = 0" "sizes_ok s"
proof -
  obtain r where r: "install_root host user password s0 = Some r" "fs_ok r"
    "superblock r = fresh_superblock host user password"
    "\<And>b. is_block_free r b \<longleftrightarrow> b < 512 \<and> b \<noteq> 1"
    "\<And>n. n < 200 \<Longrightarrow> inode_of r n = (if n = 0 then root_node else zero_inode)"
    "\<And>c. lookup r 0 c = dots 0 0 c" "room r 0"
    "\<And>i. i < 15 \<Longrightarrow> in_use (entries r 0 ! i) = 1 \<Longrightarrow> i < 2" "sizes_ok r"
    by (rule install_root_ok[OF assms, of password]) (rule that)
  have fi: "free_inode_set r \<noteq> {}"
    using r(5)[of 1] by (auto simp: free_inode_set_def zero_inode_def intro!: exI[of _ 1])
  have root: "root_inode (superblock r) = 0" by (simp add: r(3) fresh_superblock_def new_superblock_def)
  have l0: "lookup r 0 (lit ''bin'') = NONE32" and b0: "is_block_free r 0" by (simp_all add: r(4,6) dots_def)
  obtain n s where s: "fs_create_dir (lit ''/bin'') r = Some (0, s)" "fs_adds r 0 (lit ''bin'') n s" "is_dir s n"
    "dir_block s n = 0" "\<not> is_block_free s 0" "\<And>x. is_block_free s x \<longleftrightarrow> is_block_free r x \<and> x \<noteq> 0"
    by (rule mkdir_takes_0[OF r(2) good_install_paths(1) components_lit(1) l0 root fi b0]) (rule that)
  note a = fs_addsD[OF s(2)]
  have ok: "fs_ok s" by (rule fs_adds_ok[OF r(2) s(2)])
  have lk: "lookup s 0 c = (if c = lit ''bin'' then n else lookup r 0 c)" for c
    using fs_adds_lookup[OF r(2) s(2) l0 r(7), of 0 c] a(10) by simp
  have "sizes_ok s" using keeps_0_adds[OF s(2)] s(3) r(9) by (simp add: keeps_0_def)
  have "\<exists>m. m < 200 \<and> m \<noteq> 0 \<and> m \<noteq> n"
    by (cases "n = 1") (auto intro: exI[of _ 1] exI[of _ 2])
  then obtain m where m: "m < 200" "m \<noteq> 0" "m \<noteq> n" by blast
  then have "m \<in> free_inode_set s" using a(7)[of m] r(5)[of m] by (simp add: free_inode_set_def zero_inode_def)
  moreover have "room s 0"
  proof -
    from s(2) obtain i e where e: "added_entry r 0 (lit ''bin'') n s i e" by (auto simp: fs_adds_def)
    have "\<not> 2 < i" using e r(8)[of 2] unfolding added_entry_def by auto
    then have "entries s 0 ! 3 = entries r 0 ! 3"
      using e r(7) fs_okD(2)[OF r(2)] by (simp add: added_entry_def room_def cut_dir_nth)
    then have "in_use (entries s 0 ! 3) \<noteq> 1" using r(8)[of 3] by auto
    moreover have "dir_block s 0 \<noteq> 0" using a(7)[of 0] a(10) r(7) by (simp add: room_def)
    ultimately show ?thesis unfolding room_def by (intro conjI exI[of _ 3]) simp_all
  qed
  moreover have "is_dir s 0" using fs_adds_is_dir[OF s(2), of 0] a(3,10) by simp
  moreover have "free_block_set s = {b. b < 512} - {0, 1}" by (auto simp: free_block_set_def s(6) r(4))
  moreover have "has_bin host user password s0 s" unfolding has_bin_def using r(1) s(1) by blast
  ultimately show ?thesis
    using that[of s n] ok s(3-5) lk r(6) a(2) root \<open>sizes_ok s\<close> by auto
qed

text \<open>On a blank disk: the state the witnesses start from.\<close>

definition demo :: "fs \<Rightarrow> bool" where
  "demo s \<longleftrightarrow> has_bin (lit ''eos'') (lit ''ana'') (lit ''pw'') blank_fs s"

lemma blank_shape: "fs_shape blank_fs"
  by (simp add: fs_shape_def blank_fs_def superblock_shape_def new_superblock_def inode_shape_def
      zero_inode_def)

lemma demo_lits:
  "c_string (lit ''eos'')" "length (lit ''eos'') < 64" "c_string (lit ''ana'')" "length (lit ''ana'') < 64"
  by simp_all

lemma demo_exists:
  obtains s n where "demo s" "fs_ok s" "\<not> is_block_free s 0" "is_dir s 0" "room s 0" "root_inode (superblock s) = 0"
    "\<And>c. c \<noteq> lit ''bin'' \<Longrightarrow> lookup s 0 c = dots 0 0 c" "free_inode_set s \<noteq> {}"
    "free_block_set s = {b. b < 512} - {0, 1}" "sizes_ok s"
  by (rule has_bin_exists[OF blank_shape demo_lits, of "lit ''pw''", folded demo_def]) (rule that)

lemma demo_card: "free_block_set s = {b. b < 512} - {0, 1} \<Longrightarrow> card (free_block_set s) = 510"
  using card_u32_lessThan[of 512] by (simp add: card_Diff_subset)

lemma demo_free:
  assumes "free_block_set s = {b. b < 512} - {0, 1}"
  shows "free_block_set s \<noteq> {}"
proof -
  have "2 \<in> free_block_set s" unfolding assms by simp
  then show ?thesis by blast
qed

lemma single_new:
  assumes ok: "fs_ok s" and add: "fs_adds s P c n t" and new: "lookup s P c = NONE32" and len: "length c < 28"
  shows "single t P c"
proof -
  from add obtain i e where e: "added_entry s P c n t i e" by (auto simp: fs_adds_def)
  note a = fs_addsD[OF add] and sh = fs_okD(2)[OF ok]
  have none: "\<not> (in_use (entries s P ! j) = 1 \<and> entry_has_name (entries s P ! j) c)" if "j < 15" for j
    using lookup_None[OF ok a(3) len] new that sh by (simp add: find_entry_None)
  have lx: "length ((entries s P)[i := e]) = 15" using sh by simp
  have "j = i" if j: "j < 15" "in_use (entries t P ! j) = 1" "entry_has_name (entries t P ! j) c" for j
  proof (rule ccontr)
    assume "j \<noteq> i"
    show False
    proof (cases "dir_block s P = 0")
      case True
      then have "entries t P = entries s P"
        using fs_adds_entries_other[OF fs_okD(1)[OF ok] add a(3)] by simp
      with j none show False by simp
    next
      case False
      then have et: "entries t P = cut_dir ((entries s P)[i := e])" using e by (simp add: added_entry_def)
      have "j < 14" using j in_use_cut[OF lx] et by (cases "j = 14") auto
      then have "entries t P ! j = entries s P ! j" using cut_dir_nth[OF lx, of j] et \<open>j \<noteq> i\<close> by simp
      with j none show False by simp
    qed
  qed
  then show ?thesis unfolding single_def by blast
qed

section \<open>Properties\<close>

text \<open>
  C1: an installed file system keeps its invariants through any sequence of calls. In every
  state that creating directories, and creating, deleting and reading files can lead to, block and
  inode counters are exact, no block has two owners or is both owned and free, every entry in use
  refers to an allocated inode, no file has two entries, and block 0 stays taken.
\<close>

theorem reachable_ok:
  assumes "fs_shape s0" "c_string host" "length host < 64" "good_user user"
    and "fs_install host user password s0 = Some s" "fs_steps s t"
  shows "fs_ok t \<and> \<not> is_block_free t 0"
proof -
  obtain s' where "fs_install host user password s0 = Some s'" "fs_ok s'" "\<not> is_block_free s' 0"
    by (rule fs_install_ok[OF assms(1-4)]) (rule that)
  with assms(5) fs_steps_ok[OF assms(6)] show ?thesis by (auto simp: keeps_0_def)
qed

theorem reachable_ok_witness:
  "\<exists>s r t. fs_install (lit ''eos'') (lit ''ana'') (lit ''pw'') blank_fs = Some s \<and>
     fs_create_dir (lit ''/opt'') s = Some (r, t) \<and> fs_ok t \<and> \<not> is_block_free t 0"
proof -
  have l: "c_string (lit ''eos'')" "length (lit ''eos'') < 64" "good_user (lit ''ana'')"
    by (simp_all add: good_user_def)
  obtain s where s: "fs_install (lit ''eos'') (lit ''ana'') (lit ''pw'') blank_fs = Some s" "fs_ok s"
    by (rule fs_install_ok[OF blank_shape l]) (rule that)
  have p: "good_path (lit ''/opt'')" by (simp add: good_path_def components_def)
  obtain r t where t: "fs_create_dir (lit ''/opt'') s = Some (r, t)"
    using fs_create_dir_total[OF s(2) p] by blast
  have "fs_steps s t" using fs_steps.more[OF fs_steps.start fs_step.mkdir[OF p t(1)]] .
  from reachable_ok[OF blank_shape l s(1) this] s(1) t show ?thesis by blast
qed



text \<open>
  C2: what \<open>fs_create_file\<close> stores in a new file of at most 6144 bytes, \<open>fs_read_file\<close>
  gives back, byte for byte, with the size as its result; the rest of the buffer keeps its contents.
\<close>

theorem write_read:
  assumes "fs_ok s" "good_path p" "components p = cs @ [c]" "resolves s (cs @ [c]) = NONE32"
    and "is_dir s (resolves s cs)" "room s (resolves s cs)" "\<not> is_block_free s 0"
    and "free_inode_set s \<noteq> {}" "blocks_needed nb \<le> card (free_block_set s)"
    and "unat nb \<le> 6144" "unat nb \<le> length data" "nb \<le> max_size" "unat nb \<le> length buf"
  shows "\<exists>t u. fs_create_file p data nb s = Some (0, t) \<and>
    fs_read_file p buf max_size t = Some (int (unat nb), take (unat nb) data @ drop (unat nb) buf, u)"
proof -
  have nb: "unat nb \<le> 16384" "min (unat nb) 6144 \<le> length data" using assms(10,11) by simp_all
  obtain n t where t: "fs_create_file p data nb s = Some (0, t)" "fs_ok t" "fs_adds s (resolves s cs) c n t"
    "holds s n data nb t" "length c < 28"
    by (rule fs_create_file_new[OF assms(1-5) nb assms(8,9)]) (rule that)
  have new: "lookup s (resolves s cs) c = NONE32" using assms(4) by (simp add: resolve_snoc)
  have "resolves s cs \<noteq> NONE32" using assms(5) by (auto simp: is_dir_def)
  then have "resolves t cs = resolves s cs"
    using fs_adds_mono[OF assms(1) t(3) new assms(6) t(5)] fs_addsD(2)[OF t(3)] by simp
  then have "resolves t (components p) = n"
    using fs_adds_lookup[OF assms(1) t(3) new assms(6) t(5)] by (simp add: assms(3) resolve_snoc)
  moreover have "min max_size nb = nb" using assms(12) by (simp add: min_def)
  ultimately show ?thesis
    using fs_read_file_holds[OF fs_okD(1)[OF t(2)] assms(2) _ t(4) assms(7) nb, of max_size buf]
      assms(10,13) t(1) by (auto simp: Let_def)
qed

theorem write_read_witness:
  "\<exists>s t u. demo s \<and> fs_create_file (lit ''/note'') (lit ''hello'') 5 s = Some (0, t) \<and>
     fs_read_file (lit ''/note'') (replicate 8 0) 8 t = Some (5, lit ''hello'' @ [0, 0, 0], u)"
proof -
  obtain s where s: "demo s" "fs_ok s" "\<not> is_block_free s 0" "is_dir s 0" "room s 0"
    "root_inode (superblock s) = 0" "\<And>c. c \<noteq> lit ''bin'' \<Longrightarrow> lookup s 0 c = dots 0 0 c"
    "free_inode_set s \<noteq> {}" "free_block_set s = {b. b < 512} - {0, 1}"
    by (rule demo_exists) (rule that)
  have c: "components (lit ''/note'') = [] @ [lit ''note'']" by (simp add: components_def)
  have g: "good_path (lit ''/note'')" by (simp add: good_path_def components_def)
  have n: "resolves s ([] @ [lit ''note'']) = NONE32" using s(6) s(7)[of "lit ''note''"]
    by (simp add: dots_def Let_def)
  have b: "blocks_needed 5 \<le> card (free_block_set s)"
    unfolding demo_card[OF s(9)] by (simp add: blocks_needed_nat)
  have "\<exists>t u. fs_create_file (lit ''/note'') (lit ''hello'') 5 s = Some (0, t) \<and>
    fs_read_file (lit ''/note'') (replicate 8 0) 8 t = Some (int (unat (5::u32)),
      take (unat (5::u32)) (lit ''hello'') @ drop (unat (5::u32)) (replicate 8 0), u)"
    using s(4-6) by (intro write_read[OF s(2) g c n _ _ s(3,8) b]) simp_all
  moreover have u5: "unat (5::u32) = 5" by simp
  moreover have "int 5 = 5" "take 5 (lit ''hello'') = lit ''hello''" by simp_all
  moreover have "drop 5 (replicate 8 (0::u8)) = [0, 0, 0]" by (simp add: numeral_eq_Suc)
  ultimately show ?thesis using s(1) unfolding u5 by metis
qed

end
