(* ===== verification/FsRefine.thy ===== *)
theory FsRefine
  imports FsProps
begin

text \<open>
  The operations refine updates of the abstract graph \<open>node_of\<close>: creating a directory or a file adds
  one node and one edge, deleting a file takes both away, and everything else stays.
\<close>

section \<open>Creating and deleting as updates of the graph\<close>

lemma create_file_then:
  assumes "fs_ok s" "good_path p" "components p = cs @ [c]" "resolves s (cs @ [c]) = NONE32"
    and "is_dir s (resolves s cs)" "room s (resolves s cs)" "\<not> is_block_free s 0"
    and "free_inode_set s \<noteq> {}" "blocks_needed nb \<le> card (free_block_set s)"
    and nb: "unat nb \<le> 16384" "min (unat nb) 6144 \<le> length data"
  obtains n t where "fs_create_file p data nb s = Some (0, t)" "fs_ok t" "fs_adds s (resolves s cs) c n t"
    "holds s n data nb t" "length c < 28" "lookup s (resolves s cs) c = NONE32"
    "resolves t cs = resolves s cs" "resolves t (cs @ [c]) = n" "is_file t n" "node_of s n = None"
    "node_of t = (node_of s)(n := Some (File nb (take (min (unat nb) 6144) data)),
       resolves s cs := Some (Dir ((lookup s (resolves s cs))(c := n))))"
proof -
  obtain n t where t: "fs_create_file p data nb s = Some (0, t)" "fs_ok t" "fs_adds s (resolves s cs) c n t"
    "holds s n data nb t" "length c < 28"
    by (rule fs_create_file_new[OF assms(1-5) nb assms(8,9)]) (rule that)
  have new: "lookup s (resolves s cs) c = NONE32" using assms(4) by (simp add: resolve_snoc)
  have "resolves s cs \<noteq> NONE32" using assms(5) by (auto simp: is_dir_def)
  then have rc: "resolves t cs = resolves s cs"
    using fs_adds_mono[OF assms(1) t(3) new assms(6) t(5)] fs_addsD(2)[OF t(3)] by simp
  then have rn: "resolves t (cs @ [c]) = n"
    using fs_adds_lookup[OF assms(1) t(3) new assms(6) t(5)] by (simp add: resolve_snoc)
  have f: "is_file t n" "isize (inode_of t n) = nb" using t(4) by (simp_all add: holds_def)
  then have d: "\<not> is_dir t n" by (simp add: is_dir_def is_file_def)
  have "node_of s n = None" using fs_addsD(5)[OF t(3)] by (simp add: node_of_def is_dir_def is_file_def)
  moreover have "node_of t = (node_of s)(n := Some (File nb (take (min (unat nb) 6144) data)),
       resolves s cs := Some (Dir ((lookup s (resolves s cs))(c := n))))"
    using fs_adds_node[OF assms(1) t(3) new assms(6) t(5)] d f holds_file_bytes[OF t(4) assms(7) nb] by simp
  ultimately show ?thesis using that[OF t new rc rn f(1)] by blast
qed

lemma delete_file_then:
  assumes "fs_ok s" "good_path p" "components p = cs @ [c]" "is_file s (resolves s (cs @ [c]))"
    and "single s (resolves s cs) c"
  obtains t where "fs_delete_file p s = Some (0, t)" "fs_ok t"
    "node_of t = (node_of s)(resolves s (cs @ [c]) := None,
       resolves s cs := Some (Dir ((lookup s (resolves s cs))(c := NONE32))))"
    "free_block_set t = free_block_set s \<union> {b. \<exists>j. owns s (resolves s (cs @ [c])) j b}"
    "free_inode_set t = insert (resolves s (cs @ [c])) (free_inode_set s)"
proof -
  let ?f = "resolves s (cs @ [c])"
  obtain t i where t: "fs_delete_file p s = Some (0, t)" "fs_removes s (resolves s cs) i ?f t"
    "entry_has_name (entries s (resolves s cs) ! i) c"
    by (rule fs_delete_file_success[OF assms(1-4)]) (rule that)
  note a = fs_removesD[OF t(2)]
  have "free_block_set t = free_block_set s \<union> {b. \<exists>j. owns s ?f j b}"
    by (auto simp: free_block_set_def a(7))
  moreover have "free_inode_set t = insert ?f (free_inode_set s)"
    using a(4,6) a(5) by (auto simp: free_inode_set_def is_file_def) metis+
  ultimately show ?thesis
    using that[OF t(1) fs_removes_ok[OF assms(1) t(2)] fs_removes_node[OF assms(1) t(2,3) assms(5)]] by blast
qed

section \<open>Properties\<close>

text \<open>
  C3: creating a directory in an existing one that has room adds one node, holding
  \<open>.\<close> and \<open>..\<close>, and one edge from the parent. Every other node, and every path that resolved
  before, is as it was.
\<close>

theorem create_dir_refines:
  assumes "fs_ok s" "good_path p" "components p = cs @ [c]" "resolves s (cs @ [c]) = NONE32"
    and "is_dir s (resolves s cs)" "room s (resolves s cs)" "\<not> is_block_free s 0"
    and "free_inode_set s \<noteq> {}" "free_block_set s \<noteq> {}"
  shows "\<exists>n t. fs_create_dir p s = Some (0, t) \<and> node_of s n = None \<and> resolves t (cs @ [c]) = n \<and>
    node_of t = (node_of s)(n := Some (Dir (dots n (resolves s cs))),
      resolves s cs := Some (Dir ((lookup s (resolves s cs))(c := n)))) \<and>
    (\<forall>ds. resolves s ds \<noteq> NONE32 \<longrightarrow> resolves t ds = resolves s ds)"
proof -
  obtain n t where t: "fs_create_dir p s = Some (0, t)" "itype (inode_of s n) = 0" "is_dir t n"
    "resolves t (cs @ [c]) = n" "\<And>ds. resolves s ds \<noteq> NONE32 \<Longrightarrow> resolves t ds = resolves s ds"
    "fs_adds s (resolves s cs) c n t" "dir_block t n \<noteq> 0"
    by (rule fs_create_dir_new[OF assms(1-6,8,9,7)]) (rule that)
  have "length c < 28" using assms(2) by (cases rule: good_path_split) (use assms(3) in auto)
  moreover have "lookup s (resolves s cs) c = NONE32" using assms(4) by (simp add: resolve_snoc)
  ultimately have "node_of t = (node_of s)(n := Some (Dir (dots n (resolves s cs))),
      resolves s cs := Some (Dir ((lookup s (resolves s cs))(c := n))))"
    using fs_adds_node[OF assms(1) t(6) _ assms(6)] t(3,7) by simp
  moreover have "node_of s n = None" using t(2) by (simp add: node_of_def is_dir_def is_file_def)
  ultimately show ?thesis using t by blast
qed

lemma demo_new:
  assumes "root_inode (superblock s) = 0" "\<And>c. c \<noteq> lit ''bin'' \<Longrightarrow> lookup s 0 c = dots 0 0 c"
  shows "resolves s ([] @ [lit ''note'']) = NONE32"
  using assms(1) assms(2)[of "lit ''note''"] by (simp add: dots_def Let_def)

lemma demo_path:
  "components (lit ''/note'') = [] @ [lit ''note'']" "good_path (lit ''/note'')"
  by (simp_all add: components_def good_path_def)

lemma demo_state:
  obtains s where "demo s" "fs_ok s" "\<not> is_block_free s 0" "is_dir s (resolves s [])" "room s (resolves s [])"
    "free_inode_set s \<noteq> {}" "free_block_set s \<noteq> {}" "card (free_block_set s) = 510"
    "resolves s ([] @ [lit ''note'']) = NONE32"
proof -
  obtain s where s: "demo s" "fs_ok s" "\<not> is_block_free s 0" "is_dir s 0" "room s 0"
    "root_inode (superblock s) = 0" "\<And>c. c \<noteq> lit ''bin'' \<Longrightarrow> lookup s 0 c = dots 0 0 c"
    "free_inode_set s \<noteq> {}" "free_block_set s = {b. b < 512} - {0, 1}"
    by (rule demo_exists) (rule that)
  from that[OF s(1-3) _ _ s(8) demo_free[OF s(9)] demo_card[OF s(9)] demo_new[OF s(6,7)]] s(4-6)
  show ?thesis by simp
qed

theorem create_dir_refines_witness:
  "\<exists>s n t. demo s \<and> fs_create_dir (lit ''/note'') s = Some (0, t) \<and> node_of s n = None \<and>
     resolves t ([] @ [lit ''note'']) = n"
proof -
  obtain s where s: "demo s" "fs_ok s" "\<not> is_block_free s 0" "is_dir s (resolves s [])" "room s (resolves s [])"
    "free_inode_set s \<noteq> {}" "free_block_set s \<noteq> {}" "resolves s ([] @ [lit ''note'']) = NONE32"
    by (rule demo_state) (rule that)
  from create_dir_refines[OF s(2) demo_path(2,1) s(8,4,5,3,6,7)] s(1) show ?thesis by metis
qed

text \<open>
  C5: creating a file in an existing directory that has room adds one node, holding
  the size and the first 6144 bytes of the data, and one edge from the parent.
\<close>

theorem create_file_refines:
  assumes "fs_ok s" "good_path p" "components p = cs @ [c]" "resolves s (cs @ [c]) = NONE32"
    and "is_dir s (resolves s cs)" "room s (resolves s cs)" "\<not> is_block_free s 0"
    and "free_inode_set s \<noteq> {}" "blocks_needed nb \<le> card (free_block_set s)"
    and "unat nb \<le> 16384" "min (unat nb) 6144 \<le> length data"
  shows "\<exists>n t. fs_create_file p data nb s = Some (0, t) \<and> node_of s n = None \<and> resolves t (cs @ [c]) = n \<and>
    node_of t = (node_of s)(n := Some (File nb (take (min (unat nb) 6144) data)),
      resolves s cs := Some (Dir ((lookup s (resolves s cs))(c := n))))"
  by (rule create_file_then[OF assms]) blast

theorem create_file_refines_witness:
  "\<exists>s n t. demo s \<and> fs_create_file (lit ''/note'') (lit ''hi'') 2 s = Some (0, t) \<and> node_of s n = None \<and>
     resolves t ([] @ [lit ''note'']) = n"
proof -
  obtain s where s: "demo s" "fs_ok s" "\<not> is_block_free s 0" "is_dir s (resolves s [])" "room s (resolves s [])"
    "free_inode_set s \<noteq> {}" "card (free_block_set s) = 510" "resolves s ([] @ [lit ''note'']) = NONE32"
    by (rule demo_state) (rule that)
  have "blocks_needed 2 \<le> card (free_block_set s)" unfolding s(7) by (simp add: blocks_needed_nat)
  moreover have "unat (2::u32) \<le> 16384" "min (unat (2::u32)) 6144 \<le> length (lit ''hi'')" by simp_all
  ultimately show ?thesis
    using create_file_refines[OF s(2) demo_path(2,1) s(8,4,5,3,6)] s(1) by metis
qed

text \<open>
  C4: deleting a file whose name occurs once in its directory removes its node and the
  edge to it, and gives exactly its blocks and its inode back.
\<close>

theorem delete_refines:
  assumes "fs_ok s" "good_path p" "components p = cs @ [c]" "is_file s (resolves s (cs @ [c]))"
    and "single s (resolves s cs) c"
  shows "\<exists>t. fs_delete_file p s = Some (0, t) \<and>
    node_of t = (node_of s)(resolves s (cs @ [c]) := None,
      resolves s cs := Some (Dir ((lookup s (resolves s cs))(c := NONE32)))) \<and>
    free_block_set t = free_block_set s \<union> {b. \<exists>j. owns s (resolves s (cs @ [c])) j b} \<and>
    free_inode_set t = insert (resolves s (cs @ [c])) (free_inode_set s)"
  by (rule delete_file_then[OF assms]) blast

theorem delete_refines_witness:
  "\<exists>s t u. demo s \<and> fs_create_file (lit ''/note'') (lit ''hi'') 2 s = Some (0, t) \<and>
     fs_delete_file (lit ''/note'') t = Some (0, u)"
proof -
  obtain s where s: "demo s" "fs_ok s" "\<not> is_block_free s 0" "is_dir s (resolves s [])" "room s (resolves s [])"
    "free_inode_set s \<noteq> {}" "card (free_block_set s) = 510" "resolves s ([] @ [lit ''note'']) = NONE32"
    by (rule demo_state) (rule that)
  have b: "blocks_needed 2 \<le> card (free_block_set s)" unfolding s(7) by (simp add: blocks_needed_nat)
  have d: "unat (2::u32) \<le> 16384" "min (unat (2::u32)) 6144 \<le> length (lit ''hi'')" by simp_all
  obtain n t where t: "fs_create_file (lit ''/note'') (lit ''hi'') 2 s = Some (0, t)" "fs_ok t"
    "fs_adds s (resolves s []) (lit ''note'') n t" "length (lit ''note'') < 28"
    "lookup s (resolves s []) (lit ''note'') = NONE32" "resolves t [] = resolves s []"
    "resolves t ([] @ [lit ''note'']) = n" "is_file t n"
    by (rule create_file_then[OF s(2) demo_path(2,1) s(8,4,5,3,6) b d]) (rule that)
  have "is_file t (resolves t ([] @ [lit ''note'']))" unfolding t(7) by (rule t(8))
  moreover have "single t (resolves t []) (lit ''note'')"
    unfolding t(6) by (rule single_new[OF s(2) t(3,5,4)])
  ultimately show ?thesis using delete_refines[OF t(2) demo_path(2,1)] s(1) t(1) by metis
qed

text \<open>
  C20: deleting a file that has just been created gives back the graph and the
  free blocks from before.
\<close>

theorem delete_undoes_create:
  assumes "fs_ok s" "good_path p" "components p = cs @ [c]" "resolves s (cs @ [c]) = NONE32"
    and "is_dir s (resolves s cs)" "room s (resolves s cs)" "\<not> is_block_free s 0"
    and "free_inode_set s \<noteq> {}" "blocks_needed nb \<le> card (free_block_set s)"
    and "unat nb \<le> 16384" "min (unat nb) 6144 \<le> length data"
  shows "\<exists>t u. fs_create_file p data nb s = Some (0, t) \<and> fs_delete_file p t = Some (0, u) \<and>
    node_of u = node_of s \<and> free_block_set u = free_block_set s"
proof -
  let ?P = "resolves s cs"
  obtain n t where t: "fs_create_file p data nb s = Some (0, t)" "fs_ok t" "fs_adds s ?P c n t"
    "holds s n data nb t" "length c < 28" "lookup s ?P c = NONE32" "resolves t cs = ?P"
    "resolves t (cs @ [c]) = n" "is_file t n" "node_of s n = None"
    "node_of t = (node_of s)(n := Some (File nb (take (min (unat nb) 6144) data)),
       ?P := Some (Dir ((lookup s ?P)(c := n))))"
    by (rule create_file_then[OF assms]) (rule that)
  have f: "is_file t (resolves t (cs @ [c]))" unfolding t(8) by (rule t(9))
  have s1: "single t (resolves t cs) c" unfolding t(7) by (rule single_new[OF assms(1) t(3,6,5)])
  obtain u where u: "fs_delete_file p t = Some (0, u)"
    "node_of u = (node_of t)(n := None, ?P := Some (Dir ((lookup t ?P)(c := NONE32))))"
    "free_block_set u = free_block_set t \<union> {b. \<exists>j. owns t n j b}"
    by (rule delete_file_then[OF t(2) assms(2,3) f s1, unfolded t(7,8)]) (rule that)
  have Pn: "?P \<noteq> n" using fs_addsD(10)[OF t(3)] .
  have "(lookup t ?P)(c := NONE32) = lookup s ?P"
    using fs_adds_lookup[OF assms(1) t(3,6) assms(6) t(5), of ?P] Pn t(6) by auto
  moreover have "node_of s ?P = Some (Dir (lookup s ?P))" using assms(5) by (simp add: node_of_def)
  ultimately have "node_of u = node_of s" unfolding u(2) t(11) using Pn t(10) by auto
  moreover have "b \<in> free_block_set u \<longleftrightarrow> b \<in> free_block_set s" for b
  proof (cases "b = 0")
    case True
    have "\<not> is_block_free t 0" using fs_addsD(8)[OF t(3) assms(7)] .
    with True assms(7) show ?thesis unfolding u(3) by (auto simp: free_block_set_def owns_def)
  next
    case False
    with t(4) show ?thesis unfolding u(3) by (auto simp: free_block_set_def holds_def)
  qed
  ultimately show ?thesis using t(1) u(1) by blast
qed

theorem delete_undoes_create_witness:
  "\<exists>s t u. demo s \<and> fs_create_file (lit ''/note'') (lit ''hi'') 2 s = Some (0, t) \<and>
     fs_delete_file (lit ''/note'') t = Some (0, u) \<and> node_of u = node_of s"
proof -
  obtain s where s: "demo s" "fs_ok s" "\<not> is_block_free s 0" "is_dir s (resolves s [])" "room s (resolves s [])"
    "free_inode_set s \<noteq> {}" "card (free_block_set s) = 510" "resolves s ([] @ [lit ''note'']) = NONE32"
    by (rule demo_state) (rule that)
  have b: "blocks_needed 2 \<le> card (free_block_set s)" unfolding s(7) by (simp add: blocks_needed_nat)
  have d: "unat (2::u32) \<le> 16384" "min (unat (2::u32)) 6144 \<le> length (lit ''hi'')" by simp_all
  from delete_undoes_create[OF s(2) demo_path(2,1) s(8,4,5,3,6) b d] s(1) show ?thesis by blast
qed

end
