(* ===== verification/FsBoot.thy ===== *)
theory FsBoot
  imports FsRefine
begin

text \<open>
  Installing, logging in and restarting: what a new installation looks like, that the password
  check compares hashes, what survives on the disk, and what does not; and the limits of the
  on-disk format that the operations do not check.
\<close>

section \<open>Installation\<close>

lemma sb_idD:
  assumes "sb_id a = sb_id b"
  shows "magic a = magic b" "version a = version b" "installed a = installed b"
    "root_inode a = root_inode b" "hostname a = hostname b" "username a = username b"
    "password_hash a = password_hash b"
  using assms by (simp_all add: sb_id_def)

lemma demo_names:
  "c_string (lit ''eos'')" "length (lit ''eos'') < 64" "good_user (lit ''ana'')"
  by (simp_all add: good_user_def)

lemma checked_fresh:
  assumes "fs_shape t" "synced_sb t" "sb_id (superblock t) = sb_id (fresh_superblock host user password)"
  shows "fs_check_installed t = (True, t)"
  using sb_idD[OF assms(3)] load_superblock_synced[OF assms(1,2)]
  by (simp add: fs_check_installed_def Let_def fresh_superblock_def new_superblock_def)

text \<open>
  C16: \<open>fs_install\<close> on any disk, with a host name of at most 63 characters and a user
  name of at most 27, produces a file system that satisfies all invariants, that
  \<open>fs_check_installed\<close> recognises, whose memory is on the disk (loading it changes nothing), and
  whose host and user names are the ones given.
\<close>

theorem install_valid:
  assumes "fs_shape s" "c_string host" "length host < 64" "good_user user"
  shows "\<exists>t. fs_install host user password s = Some t \<and> fs_ok t \<and> fs_check_installed t = (True, t) \<and>
    fs_init t = t \<and> cstr (hostname (superblock t)) = host \<and> cstr (username (superblock t)) = user"
proof -
  obtain t where t: "fs_install host user password s = Some t" "fs_ok t"
    "sb_id (superblock t) = sb_id (fresh_superblock host user password)" "fs_init t = t" "synced_sb t"
    by (rule fs_install_ok[OF assms]) (rule that)
  have "c_string user" using assms(4) by (simp add: good_user_def)
  then show ?thesis
    using t(1,2,4) checked_fresh[OF fs_okD(2)[OF t(2)] t(5,3)] sb_idD[OF t(3)] assms(2) by (auto simp: fresh_superblock_def)
qed

theorem install_valid_witness:
  "\<exists>t. fs_install (lit ''eos'') (lit ''ana'') (lit ''pw'') blank_fs = Some t \<and>
     fs_check_installed t = (True, t) \<and> cstr (username (superblock t)) = lit ''ana''"
  using install_valid[OF blank_shape demo_names] by blast

text \<open>
  C21: after the installation \<open>fs_verify_password\<close> accepts exactly the passwords with the
  hash of the one given, and that one in particular, whatever calls have been made since that
  leave the superblock's identity fields alone.
\<close>

theorem password_check:
  assumes "fs_shape s" "c_string host" "length host < 64" "good_user user"
    and "fs_install host user password s = Some t" "sb_id (superblock u) = sb_id (superblock t)"
  shows "fs_verify_password u attempt = Some (simple_hash attempt = simple_hash password)"
proof -
  obtain t' where "fs_install host user password s = Some t'"
    "sb_id (superblock t') = sb_id (fresh_superblock host user password)"
    by (rule fs_install_ok[OF assms(1-4)]) (rule that)
  with assms(5,6) have "password_hash (superblock u) = hash_bytes (simple_hash password)"
    using sb_idD(7)[of "superblock u" "fresh_superblock host user password"]
    by (simp add: fresh_superblock_def)
  then show ?thesis by (rule fs_verify_password_eq)
qed

theorem password_check_witness:
  "\<exists>t. fs_install (lit ''eos'') (lit ''ana'') (lit ''Az'') blank_fs = Some t \<and>
     fs_verify_password t (lit ''Az'') = Some True \<and> fs_verify_password t (lit ''BY'') = Some True \<and>
     fs_verify_password t (lit ''az'') = Some False"
proof -
  obtain t where t: "fs_install (lit ''eos'') (lit ''ana'') (lit ''Az'') blank_fs = Some t"
    by (rule fs_install_ok[OF blank_shape demo_names, of "lit ''Az''"]) (rule that)
  have "simple_hash (lit ''BY'') = simple_hash (lit ''Az'')" "simple_hash (lit ''az'') \<noteq> simple_hash (lit ''Az'')"
    by (simp_all add: simple_hash_def)
  with password_check[OF blank_shape demo_names t refl] t show ?thesis by auto
qed

section \<open>What survives a restart\<close>

lemma node_of_cong:
  assumes "inode_table t = inode_table s" "disk t = disk s"
  shows "node_of t = node_of s"
proof
  fix n
  have i: "inode_of t m = inode_of s m" for m using assms(1) by (simp add: inode_of_def)
  have b: "data_block t b = data_block s b" for b by (rule data_block_cong[OF assms(2)])
  have "lookup t = lookup s" by (intro ext) (simp add: lookup_def i read_dir_data b Let_def)
  moreover have "file_bytes t n = file_bytes s n" by (simp add: file_bytes_def blocks_bytes_def i b)
  ultimately show "node_of t n = node_of s n" by (simp add: node_of_def is_dir_def is_file_def i)
qed

text \<open>
  C17: when \<open>fs_create_file\<close> returns 0, everything is on the disk: a machine that starts
  with that disk loads the same superblock, inode table and bitmap, and sees the same graph.
\<close>

theorem write_survives_restart:
  assumes "fs_ok s" "good_path p" "good_data data nb" "fs_create_file p data nb s = Some (0, t)"
    and "disk u = disk t"
  shows "superblock (fs_init u) = superblock t \<and> inode_table (fs_init u) = inode_table t \<and>
    block_bitmap (fs_init u) = block_bitmap t \<and> node_of (fs_init u) = node_of t"
proof -
  have "fs_init t = t" using fs_create_file_total[OF assms(1-3)] assms(4) by auto
  with fs_init_cong[OF assms(5)] node_of_cong[of "fs_init u" t] show ?thesis by simp
qed

theorem write_survives_restart_witness:
  "\<exists>s t. demo s \<and> fs_create_file (lit ''/note'') (lit ''hi'') 2 s = Some (0, t) \<and>
     node_of (fs_init (blank_fs\<lparr>disk := disk t\<rparr>)) = node_of t"
proof -
  obtain s where s: "demo s" "fs_ok s" "\<not> is_block_free s 0" "is_dir s (resolves s [])" "room s (resolves s [])"
    "free_inode_set s \<noteq> {}" "card (free_block_set s) = 510" "resolves s ([] @ [lit ''note'']) = NONE32"
    by (rule demo_state) (rule that)
  have b: "blocks_needed 2 \<le> card (free_block_set s)" unfolding s(7) by (simp add: blocks_needed_nat)
  have d: "unat (2::u32) \<le> 16384" "min (unat (2::u32)) 6144 \<le> length (lit ''hi'')" "good_data (lit ''hi'') 2"
    by (simp_all add: good_data_def)
  obtain t where t: "fs_create_file (lit ''/note'') (lit ''hi'') 2 s = Some (0, t)"
    by (rule create_file_then[OF s(2) demo_path(2,1) s(8,4,5,3,6) b d(1,2)]) (rule that)
  from write_survives_restart[OF s(2) demo_path(2) d(3) t, of "blank_fs\<lparr>disk := disk t\<rparr>"] s(1) t
  show ?thesis by auto
qed

text \<open>
  \<open>fs_create_dir\<close> does not write the superblock. After it has created a directory, a
  restart loads the new bitmap with the old number of free blocks, and the counters no longer
  agree with the bitmap.
\<close>

lemma mkdir_counts_lost:
  assumes "fs_ok s" "fs_init s = s" "good_path p" "components p = cs @ [c]"
    and "resolves s (cs @ [c]) = NONE32" "is_dir s (resolves s cs)"
    and "free_inode_set s \<noteq> {}" "free_block_set s \<noteq> {}"
  shows "\<exists>t. fs_create_dir p s = Some (0, t) \<and> fs_ok t \<and> superblock (fs_init t) = superblock s \<and>
    block_bitmap (fs_init t) = block_bitmap t \<and> \<not> fs_inv (fs_init t)"
proof -
  let ?P = "resolves s cs"
  have cc: "c_string c" "length c < 28"
    using assms(3) by (cases rule: good_path_split, use assms(4) in auto)+
  have P: "?P < 200" "?P \<noteq> NONE32" using assms(6) by (auto simp: is_dir_def)
  obtain n t where t: "create_dir_in ?P c s = Some (0, t)" "fs_adds s ?P c n t" "is_block_free s (dir_block t n)"
    "\<And>x. is_block_free t x \<longleftrightarrow> is_block_free s x \<and> x \<noteq> dir_block t n" "disk t 100 = disk s 100" "synced_bm t"
    using fs_okD(1)[OF assms(1)] P(1) cc
  proof (cases rule: create_dir_in_result)
    case (failed t)
    with assms(6-8) show ?thesis by blast
  next
    case (created n t)
    from that[OF created(1,2,4,6,7,8)] show ?thesis .
  qed
  have ok: "fs_ok t" by (rule fs_adds_ok[OF assms(1) t(2)])
  have "superblock (fs_init t) = superblock (fs_init s)"
    using t(5) by (simp add: fs_init_def load_superblock_def load_inode_table_def load_block_bitmap_def
        Let_def disk_read_def)
  then have sb: "superblock (fs_init t) = superblock s" using assms(2) by simp
  have bm: "block_bitmap (fs_init t) = block_bitmap t"
    using t(6) fs_okD(2)[OF ok] by (simp add: fs_init_def load_superblock_def load_inode_table_def
        load_block_bitmap_def Let_def disk_read_def synced_bm_def bitmap_memory_def fs_shape_def)
  have "free_block_set (fs_init t) = free_block_set s - {dir_block t n}"
    using t(4) bm by (auto simp: free_block_set_def is_block_free_bit)
  moreover have "dir_block t n \<in> free_block_set s" using t(3) by (simp add: free_block_set_def)
  ultimately have "card (free_block_set (fs_init t)) < card (free_block_set s)"
    by (metis card_Diff1_less finite_u32)
  then have "\<not> fs_inv (fs_init t)"
    using fs_invD(6)[OF fs_okD(1)[OF assms(1)]] fs_invD(6)[of "fs_init t"] sb by auto
  with fs_create_dir_below[OF assms(3-5) P(2)] t(1) ok sb bm show ?thesis by auto
qed

text \<open>Enough of the state after installing the root to create one more directory.\<close>

end
