(* ===== verification/FsLimits.thy ===== *)
theory FsLimits
  imports FsBoot
begin

text \<open>
  Limits the code does not check: the first directory gets block 0, which stands for no block; a
  directory block is larger than a sector; files larger than twelve blocks; names of 28 characters
  and more. And the smaller calls: path resolution, allocation, listing, the current directory.
\<close>

section \<open>Limits of the format\<close>

lemma lookup_block_0: "dir_block s d = 0 \<Longrightarrow> lookup s d c = NONE32"
  by (simp add: lookup_def)

text \<open>
  C23: the installation leaves block 0 free, so \<open>/bin\<close>, the first directory created,
  gets it; but block 0 stands for no block. \<open>/bin\<close> cannot be listed, and a file stored in it is
  reported as created and then does not exist.
\<close>

theorem first_dir_lost:
  assumes "fs_shape s0" "c_string host" "length host < 64" "c_string user" "length user < 64"
    and "unat nb \<le> length data" "unat nb \<le> 6144"
  shows "\<exists>r s t. install_root host user password s0 = Some r \<and> fs_create_dir (lit ''/bin'') r = Some (0, s) \<and>
    fs_dir_exists s (lit ''/bin'') = Some True \<and> fs_list_dir s (lit ''/bin'') (x # buf) m = Some (-1, 0 # buf) \<and>
    fs_create_file (lit ''/bin/sh'') data nb s = Some (0, t) \<and>
    fs_file_exists t (lit ''/bin/sh'') = Some False"
proof -
  obtain s n where s: "has_bin host user password s0 s" "fs_ok s" "root_inode (superblock s) = 0"
    "free_inode_set s \<noteq> {}" "free_block_set s = {b. b < 512} - {0, 1}" "lookup s 0 (lit ''bin'') = n"
    "is_dir s n" "dir_block s n = 0"
    by (rule has_bin_exists[OF assms(1-5), of password]) (rule that)
  obtain r where r: "install_root host user password s0 = Some r" "fs_create_dir (lit ''/bin'') r = Some (0, s)"
    using s(1) by (auto simp: has_bin_def)
  have n: "n < 200" "n \<noteq> NONE32" "itype (inode_of s n) = 2" using s(7) by (auto simp: is_dir_def)
  have p: "good_path (lit ''/bin/sh'')" "components (lit ''/bin/sh'') = [lit ''bin''] @ [lit ''sh'']"
    by (simp_all add: good_path_def components_def)
  have rn: "resolves s [lit ''bin''] = n" using s(3,6) n(2) by (simp add: Let_def del: lit_simps)
  have new: "resolves s ([lit ''bin''] @ [lit ''sh'']) = NONE32"
    unfolding resolve_snoc rn by (rule lookup_block_0[OF s(8)])
  have dir: "is_dir s (resolves s [lit ''bin''])" unfolding rn by (rule s(7))
  have bl: "blocks_needed nb \<le> card (free_block_set s)"
    unfolding demo_card[OF s(5)] using blocks_needed_facts(1)[of nb] assms(7) by linarith
  have nb: "unat nb \<le> 16384" "min (unat nb) 6144 \<le> length data" using assms(6,7) by simp_all
  obtain k t where t: "fs_create_file (lit ''/bin/sh'') data nb s = Some (0, t)" "fs_ok t"
    "fs_adds s (resolves s [lit ''bin'']) (lit ''sh'') k t"
    by (rule fs_create_file_new[OF s(2) p new dir nb s(4) bl]) (rule that)
  note a = fs_addsD[OF t(3), unfolded rn]
  have d0: "dir_block t n = 0" using a(7)[OF a(10)] s(8) by simp
  have root0: "is_dir s 0" using fs_okD(4)[OF s(2)] s(3) by simp
  have "lookup t 0 (lit ''bin'') = n"
  proof -
    have "entries t 0 = entries s 0"
      by (rule fs_adds_entries_other[OF fs_okD(1)[OF s(2)] t(3)[unfolded rn] root0]) (simp add: s(8))
    moreover have "is_dir t 0" using fs_adds_is_dir[OF t(3), of 0] a(11)[OF root0] root0 by simp
    ultimately show ?thesis
      using s(6) root0 lookup_entries[OF a(1), of 0 "lit ''bin''"]
        lookup_entries[OF fs_okD(1)[OF s(2)], of 0 "lit ''bin''"] by simp
  qed
  then have "resolves t [lit ''bin''] = n" using a(2) s(3) n(2) by (simp add: Let_def del: lit_simps)
  then have "resolves t ([lit ''bin''] @ [lit ''sh'']) = NONE32"
    unfolding resolve_snoc by (simp only: lookup_block_0[OF d0])
  then have "fs_file_exists t (lit ''/bin/sh'') = Some False"
    using good_path_find[OF p(1), of t] p(2) by (simp add: fs_file_exists_def del: lit_simps)
  moreover have "fs_dir_exists s (lit ''/bin'') = Some True" "fs_list_dir s (lit ''/bin'') (x # buf) m = Some (-1, 0 # buf)"
    using good_path_find[OF good_install_paths(1), of s] fs_list_dir_eq[OF s(2) good_install_paths(1), of "x # buf" m]
      rn n s(8) by (simp_all add: fs_dir_exists_def wr_def components_lit(1) not_le del: lit_simps resolve.simps)
  ultimately show ?thesis using r t(1) by blast
qed

theorem first_dir_lost_witness:
  "\<exists>r s t. install_root (lit ''eos'') (lit ''ana'') (lit ''pw'') blank_fs = Some r \<and>
    fs_create_dir (lit ''/bin'') r = Some (0, s) \<and>
    fs_create_file (lit ''/bin/sh'') (lit ''x'') 1 s = Some (0, t) \<and>
    fs_file_exists t (lit ''/bin/sh'') = Some False"
  using first_dir_lost[OF blank_shape demo_lits, of 1 "lit ''x''" "lit ''pw''" 100 "[]" 0] by auto

text \<open>
  A directory block has 540 bytes and a sector 512: what is read back has the first
  fourteen entries, and the fifteenth, whatever it was, is not in use.
\<close>

lemma dir_block_cut:
  assumes "dir_shape d" "b \<noteq> 0" "b < 512"
  shows "read_dir (write_dir s b d) b = take 14 d @ [cut_entry (d ! 14)] \<and>
    in_use (read_dir (write_dir s b d) b ! 14) = 0"
proof -
  have "length d = 15" using assms(1) by (simp add: dir_shape_def)
  moreover from this have "cut_dir d = take 14 d @ [cut_entry (d ! 14)]"
    by (auto simp: cut_dir_def list_eq_iff_nth_eq nth_append nth_list_update)
  ultimately show ?thesis
    using read_write_dir[OF assms(2,3,1), of s] by (simp add: nth_append cut_entry_def)
qed

text \<open>
  C24: a file of more than 6144 and at most 16384 bytes is stored with result 0, but
  only its first 6144 bytes are; reading it returns the full size as its result and leaves the rest
  of the buffer as it was.
\<close>

theorem large_file_cut:
  assumes "fs_ok s" "good_path p" "components p = cs @ [c]" "resolves s (cs @ [c]) = NONE32"
    and "is_dir s (resolves s cs)" "room s (resolves s cs)" "\<not> is_block_free s 0"
    and "free_inode_set s \<noteq> {}" "12 \<le> card (free_block_set s)"
    and "6144 < unat nb" "unat nb \<le> 16384" "unat nb \<le> length data" "unat nb \<le> length buf" "nb \<le> max_size"
  shows "\<exists>t u. fs_create_file p data nb s = Some (0, t) \<and>
    fs_read_file p buf max_size t = Some (int (unat nb), take 6144 data @ drop 6144 buf, u)"
proof -
  have nb: "unat nb \<le> 16384" "min (unat nb) 6144 \<le> length data" using assms(11,12) by simp_all
  have bl: "blocks_needed nb \<le> card (free_block_set s)" using blocks_needed_facts(1)[OF nb(1)] assms(9) by linarith
  obtain n t where t: "fs_create_file p data nb s = Some (0, t)" "fs_ok t" "holds s n data nb t"
    "resolves t (cs @ [c]) = n"
    by (rule create_file_then[OF assms(1-8) bl nb]) (rule that)
  moreover have "min max_size nb = nb" using assms(14) by (simp add: min_def)
  ultimately show ?thesis
    using fs_read_file_holds[OF fs_okD(1)[OF t(2)] assms(2) _ t(3) assms(7) nb, of max_size buf]
      assms(3,10,13) by (auto simp: Let_def)
qed

theorem large_file_cut_witness:
  "\<exists>s t u. demo s \<and> fs_create_file (lit ''/note'') (replicate 7000 65) 7000 s = Some (0, t) \<and>
     fs_read_file (lit ''/note'') (replicate 7000 0) 7000 t =
       Some (7000, replicate 6144 65 @ replicate 856 0, u)"
proof -
  obtain s where s: "demo s" "fs_ok s" "\<not> is_block_free s 0" "is_dir s (resolves s [])" "room s (resolves s [])"
    "free_inode_set s \<noteq> {}" "card (free_block_set s) = 510" "resolves s ([] @ [lit ''note'']) = NONE32"
    by (rule demo_state) (rule that)
  have u: "unat (7000 :: u32) = 7000" by simp
  have c: "12 \<le> card (free_block_set s)" by (simp add: s(7))
  have "\<exists>t u. fs_create_file (lit ''/note'') (replicate 7000 65) 7000 s = Some (0, t) \<and>
     fs_read_file (lit ''/note'') (replicate 7000 0) 7000 t =
       Some (int (unat (7000 :: u32)), take 6144 (replicate 7000 65) @ drop 6144 (replicate 7000 0), u)"
    by (rule large_file_cut[OF s(2) demo_path(2,1) s(8,4,5,3,6) c]) (simp_all add: u)
  moreover have "int (unat (7000 :: u32)) = 7000" "take 6144 (replicate 7000 (65::u8)) = replicate 6144 65"
    "drop 6144 (replicate 7000 (0::u8)) = replicate 856 0"
    by (simp_all only: u take_replicate drop_replicate) simp_all
  ultimately show ?thesis using s(1) by metis
qed

text \<open>
  \<open>split_path\<close> copies the last component before any caller looks at its length:
  with 28 characters or more the copy overruns the caller's 28-byte buffer, in every call that
  splits its path.
\<close>

lemma long_name_overflow:
  assumes "length p \<le> 254" "components p = cs @ [c]" "28 \<le> length c"
  shows "fs_create_dir p s = None \<and> fs_delete_file p s = None \<and>
    (unat nb \<le> 16384 \<longrightarrow> fs_create_file p data nb s = None)"
proof -
  have "split_path p 28 = None"
    using split_path_snoc[OF normalize_path_eq[OF assms(1)] assms(2), of 28] assms(3) by simp
  then show ?thesis
    by (subst fs_create_dir.simps) (simp add: fs_delete_file_def fs_create_file_def)
qed

text \<open>So does the installation, on any disk, when the user name has 28 characters or more: the prompt takes 63.\<close>

lemma long_user_overflow:
  assumes "c_string user" "SLASH \<notin> set user" "28 \<le> length user" "length user < 64"
  shows "fs_install host user password s = None"
proof -
  have "user \<noteq> []" using assms(3) by auto
  then have "components (lit ''/home/'' @ user) = [lit ''home''] @ [user]"
    using components_home(1)[OF assms(2)] by simp
  then have "fs_create_dir (lit ''/home/'' @ user) t = None" for t
    using long_name_overflow[of "lit ''/home/'' @ user"] assms(3,4) by simp
  then have "mkdir_ignore (lit ''/home/'' @ user) t = None" for t by (simp add: mkdir_ignore_def)
  moreover have "fits 128 (lit ''/home/'' @ user) = Some (lit ''/home/'' @ user)" using assms(4) by (simp add: fits_def)
  ultimately show ?thesis by (simp add: fs_install_def bind_eq_None_conv del: lit_simps)
qed

end
