(* ===== verification/FsCalls.thy ===== *)
theory FsCalls
  imports FsLimits
begin

text \<open>
  The smaller calls: finding an inode by its path, splitting a path, allocating blocks, listing a
  directory and changing the current directory.
\<close>

text \<open>
  C18: \<open>find_inode_by_path\<close> resolves the components of the path one by one from the root:
  duplicate, leading and trailing slashes make no difference, and the result is 0xFFFFFFFF when a
  component is missing.
\<close>

theorem find_resolves:
  assumes "length p \<le> 254"
  shows "find_inode_by_path s p = Some (resolve s (root_inode (superblock s)) (components p))"
  using assms by (rule find_inode_eq)

theorem find_resolves_witness:
  "find_inode_by_path blank_fs (lit ''//home///'') = Some (resolve blank_fs 0 [lit ''home''])"
  using find_resolves[of "lit ''//home///''" blank_fs]
  by (simp add: components_def blank_fs_def new_superblock_def)

text \<open>
  \<open>split_path\<close> takes the last component off: the name is that component, the
  parent is the normalised path of the others, and putting them together gives the path back.
\<close>

lemma split_path_parent:
  assumes "length p \<le> 254" "components p = cs @ [c]" "length c < 28"
  shows "split_path p 28 = Some (abs_path cs, c) \<and> components (abs_path cs @ SLASH # c) = components p"
proof -
  have comp: "\<forall>x \<in> set (cs @ [c]). component x" using components_component[of _ p] assms(2) by auto
  then have "components (abs_path cs) = cs" by (intro components_abs_path) simp
  moreover have "comps c [] = [c]" using comp comps_prefix[of c "[]" "[]"] by (simp add: component_def)
  ultimately have "components (abs_path cs @ SLASH # c) = cs @ [c]"
    by (simp add: components_append_slash) (simp add: components_def)
  with split_path_snoc[OF normalize_path_eq[OF assms(1)] assms(2), of 28] assms show ?thesis by simp
qed


text \<open>
  As long as blocks are free, allocating blocks one after the other gives
  blocks that were free and are pairwise distinct, and takes exactly these.
\<close>

lemma allocations_distinct:
  assumes "fs_shape s" "k \<le> card (free_block_set s)"
    and "allocator.alloc_many allocate_block k s = (bs, t)"
  shows "distinct bs \<and> set bs \<subseteq> free_block_set s \<and> free_block_set t = free_block_set s - set bs \<and> length bs = k"
  using assms by (rule blocks.alloc_many_distinct)


text \<open>
  C22: with a buffer of at least 516 bytes the listing is complete: one line for each
  entry in use other than \<open>.\<close> and \<open>..\<close> whose name is printable, in the order of the directory, with
  a slash after the names of directories, and a NUL; the result is its length.
\<close>

theorem list_dir_lines:
  assumes "fs_ok s" "good_path p" "516 \<le> m" "m \<le> int (length buf)"
    and "is_dir s (resolves s (components p))" "dir_block s (resolves s (components p)) \<noteq> 0"
  shows "\<exists>b. let out = concat (map (line s) (entries s (resolves s (components p)))) in
    fs_list_dir s p buf m = Some (int (length out), b) \<and> length b = length buf \<and> take (length out + 1) b = out @ [0]"
proof -
  let ?d = "resolves s (components p)"
  let ?out = "concat (map (line s) (entries s ?d))"
  have lines: "map (\<lambda>i. line s (entries s ?d ! i)) [0..<15] = map (line s) (entries s ?d)"
    using fs_okD(2)[OF assms(1)] by (intro nth_equalityI) simp_all
  obtain b where b: "list_loop s m (entries s ?d) [0..<15] 0 (buf[0 := 0]) = Some (length ?out, b)" "appends ?out 0 (buf[0 := 0]) b"
    using list_loop_all[of "[0..<15]" "entries s ?d" m "buf[0 := 0]" 0 s] entries_listable[OF assms(1,5)] assms(3,4)
    unfolding lines by auto
  have "int (length ?out) < m"
  proof -
    obtain w' b' where "list_loop s m (entries s ?d) [0..<15] 0 (buf[0 := 0]) = Some (w', b')" "w' = 0 \<or> int w' < m"
      using list_loop_bound[of "[0..<15]" "entries s ?d" 0 "buf[0 := 0]" m s] entries_listable[OF assms(1,5)] assms(4) by auto
    moreover from this(1) b(1) have "w' = length ?out" by simp
    ultimately show ?thesis using assms(3) by linarith
  qed
  then have l: "length ?out < length b" "length b = length buf" "take (length ?out) b = ?out" "buf \<noteq> []"
    using assms(3,4) b(2) by (auto simp: appends_def)
  then have "fs_list_dir s p buf m = Some (int (length ?out), b[length ?out := 0])"
    unfolding fs_list_dir_eq[OF assms(1,2)] Let_def using assms(5,6) b(1) by (simp add: wr_def)
  moreover have "take (length ?out + 1) (b[length ?out := 0]) = ?out @ [0]"
    using l by (simp add: take_Suc_conv_app_nth take_update_cancel)
  ultimately show ?thesis using l(2) by (auto simp: Let_def)
qed

theorem list_dir_lines_witness:
  "\<exists>s out b. demo s \<and> fs_list_dir s (lit ''/'') (replicate 1024 255) 1024 = Some (int (length out), b) \<and>
     take (length out + 1) b = out @ [0] \<and> out = concat (map (line s) (entries s (root_inode (superblock s))))"
proof -
  obtain s where s: "demo s" "fs_ok s" "is_dir s 0" "room s 0" "root_inode (superblock s) = 0"
    by (rule demo_exists) (rule that)
  have "good_path (lit ''/'')" "is_dir s (resolves s (components (lit ''/'')))"
    "dir_block s (resolves s (components (lit ''/''))) \<noteq> 0"
    using s(3-5) by (simp_all add: room_def)
  from list_dir_lines[OF s(2) this(1) _ _ this(2,3), of 1024 "replicate 1024 255"] s(1) show ?thesis by (simp add: Let_def) blast
qed

text \<open>
  When \<open>fs_change_dir\<close> succeeds with a path other than \<open>..\<close>, the new current
  directory exists, fits the caller's buffer, and its components are those of the path, after those
  of the old current directory when the path is relative.
\<close>

lemma change_dir_down:
  assumes "path \<noteq> lit ''..''" "fs_change_dir s path cap cwd = Some (0, d)"
  shows "fs_dir_exists s d = Some True \<and> length d < cap \<and>
    components d = (if path \<noteq> [] \<and> hd path = SLASH then components path
       else components cwd @ components path)"
  using fs_change_dir_down[OF assms] by blast


text \<open>
  \<open>cd ..\<close> removes the last component of a current directory in normal form, down to
  the root; but when the current directory ends in a slash, which \<open>cd name/\<close> leaves there, the
  last component stays.
\<close>

lemma change_dir_up:
  assumes "\<forall>c \<in> set (cs @ [c]). component c" "2 \<le> cap"
  shows "fs_change_dir s (lit ''..'') cap (abs_path (cs @ [c])) = Some (0, abs_path cs) \<and>
    fs_change_dir s (lit ''..'') cap (abs_path (cs @ [c]) @ lit ''/'') = Some (0, abs_path (cs @ [c]))"
  using fs_change_dir_up[OF assms] fs_change_dir_up_slash[of "cs @ [c]" s cap] assms(1) by simp

end
