(* ===== verification/Disk.thy ===== *)
theory Disk
  imports FsState
begin

text \<open>
  The ATA driver, \<open>drivers/disk.c\<close>. The disk controller is a parameter: a record of what the port
  instructions do to it. The delays of \<open>io_wait\<close> have no effect on the state and are left out.
\<close>

section \<open>The driver\<close>

record 'd ata =
  inb :: "u16 \<Rightarrow> 'd \<Rightarrow> u8 \<times> 'd"
  outb :: "u16 \<Rightarrow> u8 \<Rightarrow> 'd \<Rightarrow> 'd"
  insw :: "u16 \<Rightarrow> 'd \<Rightarrow> bytes \<times> 'd"
  outsw :: "u16 \<Rightarrow> bytes \<Rightarrow> 'd \<Rightarrow> 'd"

fun wait_bsy_loop :: "'d ata \<Rightarrow> nat \<Rightarrow> 'd \<Rightarrow> bool \<times> 'd" where
  "wait_bsy_loop dev 0 d = (False, d)"
| "wait_bsy_loop dev (Suc n) d =
     (let (status, d1) = inb dev 0x1F7 d in
      if status AND 0x80 = 0 then (True, d1) else wait_bsy_loop dev n d1)"

fun wait_drq_loop :: "'d ata \<Rightarrow> nat \<Rightarrow> 'd \<Rightarrow> bool \<times> 'd" where
  "wait_drq_loop dev 0 d = (False, d)"
| "wait_drq_loop dev (Suc n) d =
     (let (status, d1) = inb dev 0x1F7 d in
      if status AND 0x08 \<noteq> 0 then (True, d1)
      else if status AND 0x01 \<noteq> 0 then (False, d1)
      else wait_drq_loop dev n d1)"

definition ata_wait_bsy :: "'d ata \<Rightarrow> 'd \<Rightarrow> bool \<times> 'd" where
  "ata_wait_bsy dev d = wait_bsy_loop dev 10000000 d"

definition ata_wait_drq :: "'d ata \<Rightarrow> 'd \<Rightarrow> bool \<times> 'd" where
  "ata_wait_drq dev d = wait_drq_loop dev 10000000 d"

text \<open>The five registers of a command and the command itself.\<close>

definition ata_command :: "'d ata \<Rightarrow> u32 \<Rightarrow> u8 \<Rightarrow> u8 \<Rightarrow> 'd \<Rightarrow> 'd" where
  "ata_command dev lba sector_count command d =
     outb dev 0x1F7 command
      (outb dev 0x1F5 (ucast (drop_bit 16 lba))
        (outb dev 0x1F4 (ucast (drop_bit 8 lba))
          (outb dev 0x1F3 (ucast lba)
            (outb dev 0x1F2 sector_count
              (outb dev 0x1F6 (0xE0 OR (ucast (drop_bit 24 lba) AND 0x0F)) d)))))"

text \<open>\<open>for (j = a; j < b; j++) buffer[j] = 0;\<close>\<close>

definition fill_zero :: "nat \<Rightarrow> nat \<Rightarrow> bytes \<Rightarrow> bytes option" where
  "fill_zero a b buf =
     (if b \<le> a then Some buf
      else if length buf < b then None
      else Some (take a buf @ replicate (b - a) 0 @ drop b buf))"

fun read_loop :: "'d ata \<Rightarrow> nat \<Rightarrow> nat \<Rightarrow> bytes \<Rightarrow> 'd \<Rightarrow> (bytes \<times> 'd) option" where
  "read_loop dev i 0 buf d = Some (buf, d)"
| "read_loop dev i (Suc k) buf d =
     (let (ready1, d1) = ata_wait_bsy dev d in
      if \<not> ready1 then map_option (\<lambda>b. (b, d1)) (fill_zero (i * 512) ((i + Suc k) * 512) buf)
      else let (ready2, d2) = ata_wait_drq dev d1 in
        if \<not> ready2 then map_option (\<lambda>b. (b, d2)) (fill_zero (i * 512) ((i + Suc k) * 512) buf)
        else let (sector, d3) = insw dev 0x1F0 d2 in
          if length buf < (i + 1) * 512 then None
          else read_loop dev (Suc i) k (take (i * 512) buf @ take 512 sector @ drop ((i + 1) * 512) buf) d3)"

definition disk_read_sectors :: "'d ata \<Rightarrow> u32 \<Rightarrow> u8 \<Rightarrow> bytes \<Rightarrow> 'd \<Rightarrow> (bytes \<times> 'd) option" where
  "disk_read_sectors dev lba sector_count buffer d =
     (let (ready1, d1) = ata_wait_bsy dev d in
      if \<not> ready1 then map_option (\<lambda>b. (b, d1)) (fill_zero 0 (unat sector_count * 512) buffer)
      else read_loop dev 0 (unat sector_count) buffer (ata_command dev lba sector_count 0x20 d1))"

text \<open>The flag says that all sectors have been written; otherwise the function returns early.\<close>

fun write_loop :: "'d ata \<Rightarrow> nat \<Rightarrow> nat \<Rightarrow> bytes \<Rightarrow> 'd \<Rightarrow> (bool \<times> 'd) option" where
  "write_loop dev i 0 buf d = Some (True, d)"
| "write_loop dev i (Suc k) buf d =
     (let (ready1, d1) = ata_wait_bsy dev d in
      if \<not> ready1 then Some (False, d1)
      else let (ready2, d2) = ata_wait_drq dev d1 in
        if \<not> ready2 then Some (False, d2)
        else if length buf < (i + 1) * 512 then None
        else write_loop dev (Suc i) k buf (outsw dev 0x1F0 (take 512 (drop (i * 512) buf)) d2))"

definition disk_write_sectors :: "'d ata \<Rightarrow> u32 \<Rightarrow> u8 \<Rightarrow> bytes \<Rightarrow> 'd \<Rightarrow> 'd option" where
  "disk_write_sectors dev lba sector_count buffer d =
     (let (ready1, d1) = ata_wait_bsy dev d in
      if \<not> ready1 then Some d1
      else do {
        (written, d2) \<leftarrow> write_loop dev 0 (unat sector_count) buffer (ata_command dev lba sector_count 0x30 d1);
        if \<not> written then Some d2
        else let (ready3, d3) = ata_wait_bsy dev d2 in
          if ready3 then Some (snd (ata_wait_bsy dev (outb dev 0x1F7 0xE7 d3))) else Some d3 })"

section \<open>The controller\<close>

text \<open>
  What the driver relies on: the documented behaviour of an ATA controller in PIO mode, seen
  through an abstraction. \<open>busy\<close> is the number of status reads that still show BSY; a transfer has
  the next sector and the number of sectors left.
\<close>

datatype phase = Idle | Reading nat nat | Writing nat nat

record ata_view =
  medium :: "nat \<Rightarrow> bytes"
  f2 :: u8
  f3 :: u8
  f4 :: u8
  f5 :: u8
  f6 :: u8
  phase :: phase
  busy :: nat

definition lba_of :: "ata_view \<Rightarrow> nat" where
  "lba_of v = unat (f3 v) + 2 ^ 8 * unat (f4 v) + 2 ^ 16 * unat (f5 v) + 2 ^ 24 * unat (f6 v AND 0x0F)"

definition transfer :: "(nat \<Rightarrow> nat \<Rightarrow> phase) \<Rightarrow> nat \<Rightarrow> nat \<Rightarrow> phase" where
  "transfer ph l k = (if k = 0 then Idle else ph l k)"

definition available :: "ata_view \<Rightarrow> bool" where
  "available v \<longleftrightarrow> phase v = Idle \<and> busy v = 0"

text \<open>\<open>w\<close> is \<open>v\<close> up to the length of the busy time, which is below the bound of the waits.\<close>

definition then_busy :: "ata_view \<Rightarrow> ata_view \<Rightarrow> bool" where
  "then_busy v w \<longleftrightarrow> busy w < 10000000 \<and> w = v\<lparr>busy := busy w\<rparr>"

definition ata_contract :: "'d ata \<Rightarrow> ('d \<Rightarrow> ata_view) \<Rightarrow> bool" where
  "ata_contract dev view \<longleftrightarrow>
     (\<forall>d. let (s, d1) = inb dev 0x1F7 d; v = view d in
        view d1 = v\<lparr>busy := busy v - 1\<rparr> \<and> (s AND 0x80 \<noteq> 0 \<longleftrightarrow> 0 < busy v) \<and>
        (busy v = 0 \<longrightarrow> (s AND 0x08 \<noteq> 0 \<longleftrightarrow> phase v \<noteq> Idle) \<and> s AND 0x01 = 0)) \<and>
     (\<forall>d x. available (view d) \<longrightarrow>
        view (outb dev 0x1F2 x d) = (view d)\<lparr>f2 := x\<rparr> \<and> view (outb dev 0x1F3 x d) = (view d)\<lparr>f3 := x\<rparr> \<and>
        view (outb dev 0x1F4 x d) = (view d)\<lparr>f4 := x\<rparr> \<and> view (outb dev 0x1F5 x d) = (view d)\<lparr>f5 := x\<rparr> \<and>
        view (outb dev 0x1F6 x d) = (view d)\<lparr>f6 := x\<rparr>) \<and>
     (\<forall>d. available (view d) \<longrightarrow> f6 (view d) AND 0xF0 = 0xE0 \<longrightarrow> f2 (view d) \<noteq> 0 \<longrightarrow>
        then_busy ((view d)\<lparr>phase := Reading (lba_of (view d)) (unat (f2 (view d)))\<rparr>) (view (outb dev 0x1F7 0x20 d)) \<and>
        then_busy ((view d)\<lparr>phase := Writing (lba_of (view d)) (unat (f2 (view d)))\<rparr>) (view (outb dev 0x1F7 0x30 d))) \<and>
     (\<forall>d. available (view d) \<longrightarrow> then_busy (view d) (view (outb dev 0x1F7 0xE7 d))) \<and>
     (\<forall>d l k. busy (view d) = 0 \<longrightarrow> phase (view d) = Reading l (Suc k) \<longrightarrow>
        fst (insw dev 0x1F0 d) = medium (view d) l \<and>
        then_busy ((view d)\<lparr>phase := transfer Reading (l + 1) k\<rparr>) (view (snd (insw dev 0x1F0 d)))) \<and>
     (\<forall>d l k data. busy (view d) = 0 \<longrightarrow> phase (view d) = Writing l (Suc k) \<longrightarrow> length data = 512 \<longrightarrow>
        then_busy ((view d)\<lparr>phase := transfer Writing (l + 1) k, medium := (medium (view d))(l := data)\<rparr>)
          (view (outsw dev 0x1F0 data d))) \<and>
     (\<forall>d n. length (medium (view d) n) = 512)"

section \<open>Waiting\<close>

lemma contract_status:
  assumes "ata_contract dev view" "inb dev 0x1F7 d = (s, d1)"
  shows "view d1 = (view d)\<lparr>busy := busy (view d) - 1\<rparr>" "s AND 0x80 \<noteq> 0 \<longleftrightarrow> 0 < busy (view d)"
    "busy (view d) = 0 \<Longrightarrow> s AND 0x08 \<noteq> 0 \<longleftrightarrow> phase (view d) \<noteq> Idle" "busy (view d) = 0 \<Longrightarrow> s AND 0x01 = 0"
proof -
  have "let (s, d1) = inb dev 0x1F7 d; v = view d in
        view d1 = v\<lparr>busy := busy v - 1\<rparr> \<and> (s AND 0x80 \<noteq> 0 \<longleftrightarrow> 0 < busy v) \<and>
        (busy v = 0 \<longrightarrow> (s AND 0x08 \<noteq> 0 \<longleftrightarrow> phase v \<noteq> Idle) \<and> s AND 0x01 = 0)"
    using assms(1) unfolding ata_contract_def by blast
  then show "view d1 = (view d)\<lparr>busy := busy (view d) - 1\<rparr>" "s AND 0x80 \<noteq> 0 \<longleftrightarrow> 0 < busy (view d)"
    "busy (view d) = 0 \<Longrightarrow> s AND 0x08 \<noteq> 0 \<longleftrightarrow> phase (view d) \<noteq> Idle" "busy (view d) = 0 \<Longrightarrow> s AND 0x01 = 0"
    unfolding assms(2) by (simp_all add: Let_def)
qed

lemma wait_bsy_loop_ready:
  assumes "ata_contract dev view" "busy (view d) < n"
  shows "\<exists>d1. wait_bsy_loop dev n d = (True, d1) \<and> view d1 = (view d)\<lparr>busy := 0\<rparr>"
  using assms(2)
proof (induction n arbitrary: d)
  case (Suc n)
  obtain s d1 where s: "inb dev 0x1F7 d = (s, d1)" by fastforce
  note c = contract_status[OF assms(1) s]
  show ?case
  proof (cases "busy (view d)")
    case 0
    with c s show ?thesis by simp
  next
    case (Suc b)
    with Suc.IH[of d1] Suc.prems c s show ?thesis by auto
  qed
qed simp

lemma wait_bsy_ready:
  assumes "ata_contract dev view" "busy (view d) < 10000000"
  obtains d1 where "ata_wait_bsy dev d = (True, d1)" "view d1 = (view d)\<lparr>busy := 0\<rparr>"
  using wait_bsy_loop_ready[OF assms] that unfolding ata_wait_bsy_def by blast

lemma wait_drq_ready:
  assumes "ata_contract dev view" "busy (view d) = 0" "phase (view d) \<noteq> Idle"
  obtains d1 where "ata_wait_drq dev d = (True, d1)" "view d1 = view d"
proof -
  obtain s d1 where s: "inb dev 0x1F7 d = (s, d1)" by fastforce
  have "(10000000 :: nat) = Suc 9999999" by simp
  then have "ata_wait_drq dev d = (let (status, d1) = inb dev 0x1F7 d in
      if status AND 0x08 \<noteq> 0 then (True, d1)
      else if status AND 0x01 \<noteq> 0 then (False, d1) else wait_drq_loop dev 9999999 d1)"
    unfolding ata_wait_drq_def by (simp only: wait_drq_loop.simps(2))
  with contract_status[OF assms(1) s] s assms(2,3) show thesis by (intro that[of d1]) simp_all
qed

section \<open>Commands\<close>

lemma then_busyD:
  assumes "then_busy v w"
  shows "medium w = medium v" "phase w = phase v" "busy w < 10000000"
proof -
  have eq: "w = v\<lparr>busy := busy w\<rparr>" and b: "busy w < 10000000" using assms by (auto simp: then_busy_def)
  show "medium w = medium v" "phase w = phase v"
    using arg_cong[OF eq, of medium] arg_cong[OF eq, of phase] by simp_all
  show "busy w < 10000000" by (rule b)
qed

lemma contract_registers:
  assumes "ata_contract dev view" "available (view d)"
  shows "view (outb dev 0x1F2 x d) = (view d)\<lparr>f2 := x\<rparr>" "view (outb dev 0x1F3 x d) = (view d)\<lparr>f3 := x\<rparr>"
    "view (outb dev 0x1F4 x d) = (view d)\<lparr>f4 := x\<rparr>" "view (outb dev 0x1F5 x d) = (view d)\<lparr>f5 := x\<rparr>"
    "view (outb dev 0x1F6 x d) = (view d)\<lparr>f6 := x\<rparr>"
  using assms unfolding ata_contract_def by blast+

lemma contract_commands:
  assumes "ata_contract dev view" "available (view d)"
  shows "f6 (view d) AND 0xF0 = 0xE0 \<Longrightarrow> f2 (view d) \<noteq> 0 \<Longrightarrow>
        then_busy ((view d)\<lparr>phase := Reading (lba_of (view d)) (unat (f2 (view d)))\<rparr>) (view (outb dev 0x1F7 0x20 d))"
    and "f6 (view d) AND 0xF0 = 0xE0 \<Longrightarrow> f2 (view d) \<noteq> 0 \<Longrightarrow>
        then_busy ((view d)\<lparr>phase := Writing (lba_of (view d)) (unat (f2 (view d)))\<rparr>) (view (outb dev 0x1F7 0x30 d))"
    and "then_busy (view d) (view (outb dev 0x1F7 0xE7 d))"
  using assms unfolding ata_contract_def by blast+

lemma contract_data:
  assumes "ata_contract dev view" "busy (view d) = 0"
  shows "phase (view d) = Reading l (Suc k) \<Longrightarrow> fst (insw dev 0x1F0 d) = medium (view d) l \<and>
        then_busy ((view d)\<lparr>phase := transfer Reading (l + 1) k\<rparr>) (view (snd (insw dev 0x1F0 d)))"
    and "phase (view d) = Writing l (Suc k) \<Longrightarrow> length data = 512 \<Longrightarrow>
        then_busy ((view d)\<lparr>phase := transfer Writing (l + 1) k, medium := (medium (view d))(l := data)\<rparr>)
          (view (outsw dev 0x1F0 data d))"
  using assms unfolding ata_contract_def by blast+

lemma contract_sector: "ata_contract dev view \<Longrightarrow> length (medium (view d) n) = 512"
  unfolding ata_contract_def by blast

lemma split_28:
  fixes n :: nat
  assumes "n < 2 ^ 28"
  shows "n mod 256 + 256 * (n div 256 mod 256) + 65536 * (n div 65536 mod 256)
    + 16777216 * (n div 16777216 mod 256 mod 16) = n"
proof -
  have "n = 256 * (n div 256) + n mod 256" by simp
  moreover have "n div 256 = 256 * (n div 65536) + n div 256 mod 256"
    using mult_div_mod_eq[of 256 "n div 256"] by (simp add: div_mult2_eq[symmetric])
  moreover have "n div 65536 = 256 * (n div 16777216) + n div 65536 mod 256"
    using mult_div_mod_eq[of 256 "n div 65536"] by (simp add: div_mult2_eq[symmetric])
  moreover have "n div 16777216 < 16" using assms by (simp add: div_less_iff_less_mult)
  then have "n div 16777216 mod 256 mod 16 = n div 16777216" by simp
  ultimately show ?thesis by linarith
qed

lemma lba_registers:
  fixes lba :: u32
  assumes "unat lba < 2 ^ 28"
  shows "unat (ucast lba :: u8) + 2 ^ 8 * unat (ucast (drop_bit 8 lba) :: u8) + 2 ^ 16 * unat (ucast (drop_bit 16 lba) :: u8)
    + 2 ^ 24 * unat ((0xE0 OR (ucast (drop_bit 24 lba) AND 0x0F)) AND 0x0F :: u8) = unat lba"
proof -
  have "(0xE0 OR (x AND 0x0F)) AND 0x0F = take_bit 4 x" for x :: u8
    by (simp add: take_bit_eq_mask mask_eq_decr_exp and.assoc bit.conj_disj_distrib2)
  then have "unat ((0xE0 OR (ucast (drop_bit 24 lba) AND 0x0F)) AND 0x0F :: u8) = unat lba div 2 ^ 24 mod 256 mod 16"
    by (simp add: unat_mod take_bit_eq_mod unsigned_ucast_eq drop_bit_eq_div unat_div)
  moreover have "unat (ucast (drop_bit k lba) :: u8) = unat lba div 2 ^ k mod 256" for k
    using unsigned_less[of lba, where ?'a = nat]
    unfolding unsigned_ucast_eq unsigned_drop_bit_eq by (simp add: take_bit_eq_mod drop_bit_eq_div)
  from this[of 0] this[of 8] this[of 16]
  have "unat (ucast lba :: u8) = unat lba mod 256" "unat (ucast (drop_bit 8 lba) :: u8) = unat lba div 2 ^ 8 mod 256"
    "unat (ucast (drop_bit 16 lba) :: u8) = unat lba div 2 ^ 16 mod 256" by simp_all
  ultimately show ?thesis using split_28[of "unat lba"] assms by simp
qed

definition issued :: "(nat \<Rightarrow> nat \<Rightarrow> phase) \<Rightarrow> u32 \<Rightarrow> u8 \<Rightarrow> ata_view \<Rightarrow> ata_view \<Rightarrow> bool" where
  "issued ph lba n v w \<longleftrightarrow> medium w = medium v \<and> phase w = ph (unat lba) (unat n) \<and> busy w < 10000000"

lemma ata_command_issued:
  assumes "ata_contract dev view" "available (view d)" "n \<noteq> 0" "unat lba < 2 ^ 28"
  shows "issued Reading lba n (view d) (view (ata_command dev lba n 0x20 d))"
    and "issued Writing lba n (view d) (view (ata_command dev lba n 0x30 d))"
proof -
  let ?f6 = "0xE0 OR (ucast (drop_bit 24 lba) AND 0x0F) :: u8"
  let ?d = "outb dev 0x1F5 (ucast (drop_bit 16 lba)) (outb dev 0x1F4 (ucast (drop_bit 8 lba))
          (outb dev 0x1F3 (ucast lba) (outb dev 0x1F2 n (outb dev 0x1F6 ?f6 d))))"
  have v: "view ?d = (view d)\<lparr>f6 := ?f6, f2 := n, f3 := ucast lba, f4 := ucast (drop_bit 8 lba), f5 := ucast (drop_bit 16 lba)\<rparr>"
    using assms(2) by (simp add: contract_registers[OF assms(1)] available_def)
  have a: "available (view ?d)" using assms(2) by (simp add: v available_def)
  have "?f6 AND 0xF0 = 0xE0"
    by (simp add: bit.conj_disj_distrib2 and.assoc)
  then have f: "f6 (view ?d) AND 0xF0 = 0xE0" "f2 (view ?d) \<noteq> 0" using assms(3) by (simp_all add: v)
  have l: "lba_of (view ?d) = unat lba" using lba_registers[OF assms(4)] by (simp add: lba_of_def v)
  show "issued Reading lba n (view d) (view (ata_command dev lba n 0x20 d))"
    using then_busyD[OF contract_commands(1)[OF assms(1) a f]] unfolding l by (simp add: ata_command_def issued_def v)
  show "issued Writing lba n (view d) (view (ata_command dev lba n 0x30 d))"
    using then_busyD[OF contract_commands(2)[OF assms(1) a f]] unfolding l by (simp add: ata_command_def issued_def v)
qed

section \<open>Transfers\<close>

lemma read_loop_eq:
  assumes "ata_contract dev view" "k = 0 \<or> phase (view d) = Reading l k" "k = 0 \<longrightarrow> phase (view d) = Idle"
    and "busy (view d) < 10000000" "(i + k) * 512 \<le> length buf"
  shows "\<exists>d1. read_loop dev i k buf d =
      Some (take (i * 512) buf @ concat (map (medium (view d)) [l..<l + k]) @ drop ((i + k) * 512) buf, d1) \<and>
    medium (view d1) = medium (view d) \<and> phase (view d1) = Idle \<and> busy (view d1) < 10000000"
  using assms(2-)
proof (induction k arbitrary: i l buf d)
  case 0
  then show ?case by simp
next
  case (Suc k)
  obtain d1 where d1: "ata_wait_bsy dev d = (True, d1)" "view d1 = (view d)\<lparr>busy := 0\<rparr>"
    by (rule wait_bsy_ready[OF assms(1) Suc.prems(3)])
  have p1: "phase (view d1) = Reading l (Suc k)" "busy (view d1) = 0" using Suc.prems(1) d1(2) by simp_all
  then obtain d2 where d2: "ata_wait_drq dev d1 = (True, d2)" "view d2 = view d1"
    using wait_drq_ready[OF assms(1), of d1] by auto
  obtain s d3 where s: "insw dev 0x1F0 d2 = (s, d3)" by fastforce
  then have d3: "s = medium (view d) l" "then_busy ((view d2)\<lparr>phase := transfer Reading (l + 1) k\<rparr>) (view d3)"
    using contract_data(1)[OF assms(1), of d2 l k] p1 d2(2) d1(2) by simp_all
  note v3 = then_busyD[OF d3(2)]
  have m3: "medium (view d3) = medium (view d)" using v3(1) d2(2) d1(2) by simp
  let ?buf = "take (i * 512) buf @ take 512 s @ drop ((i + 1) * 512) buf"
  have len: "length s = 512" "(i + 1) * 512 \<le> length buf"
    using contract_sector[OF assms(1)] d3(1) Suc.prems(4) by simp_all
  then have lb: "length ?buf = length buf" by simp
  have "k = 0 \<or> phase (view d3) = Reading (l + 1) k" "k = 0 \<longrightarrow> phase (view d3) = Idle"
    using v3(2) by (simp_all add: transfer_def)
  moreover have "(Suc i + k) * 512 \<le> length ?buf" unfolding lb using Suc.prems(4) by simp
  ultimately obtain d4 where d4: "read_loop dev (Suc i) k ?buf d3 =
      Some (take (Suc i * 512) ?buf @ concat (map (medium (view d3)) [l + 1..<l + 1 + k]) @ drop ((Suc i + k) * 512) ?buf, d4)"
    "medium (view d4) = medium (view d3)" "phase (view d4) = Idle" "busy (view d4) < 10000000"
    using Suc.IH[of d3 "l + 1" "Suc i" ?buf] v3(3) by blast
  have "take (Suc i * 512) ?buf = take (i * 512) buf @ s" using len by simp
  moreover have "drop ((Suc i + k) * 512) ?buf = drop ((i + Suc k) * 512) buf"
    using len by (simp add: algebra_simps)
  ultimately have "read_loop dev i (Suc k) buf d =
      Some (take (i * 512) buf @ concat (map (medium (view d)) [l..<l + Suc k]) @ drop ((i + Suc k) * 512) buf, d4)"
    using d1(1) d2(1) s d4(1) len d3(1) m3 by (simp add: upt_conv_Cons del: upt_Suc)
  with d4(2-) m3 show ?case by simp
qed

text \<open>The medium after \<open>k\<close> sectors from \<open>l\<close> on have been written from the offset \<open>i * 512\<close>.\<close>

definition sectors_written :: "(nat \<Rightarrow> bytes) \<Rightarrow> nat \<Rightarrow> nat \<Rightarrow> bytes \<Rightarrow> nat \<Rightarrow> nat \<Rightarrow> bytes" where
  "sectors_written m l k buf i n = (if l \<le> n \<and> n < l + k then take 512 (drop ((i + (n - l)) * 512) buf) else m n)"

lemma write_loop_eq:
  assumes "ata_contract dev view" "k = 0 \<or> phase (view d) = Writing l k" "k = 0 \<longrightarrow> phase (view d) = Idle"
    and "busy (view d) < 10000000" "(i + k) * 512 \<le> length buf"
  shows "\<exists>d1. write_loop dev i k buf d = Some (True, d1) \<and>
    medium (view d1) = sectors_written (medium (view d)) l k buf i \<and> phase (view d1) = Idle \<and> busy (view d1) < 10000000"
  using assms(2-)
proof (induction k arbitrary: i l d)
  case 0
  then show ?case by (auto simp: sectors_written_def fun_eq_iff)
next
  case (Suc k)
  obtain d1 where d1: "ata_wait_bsy dev d = (True, d1)" "view d1 = (view d)\<lparr>busy := 0\<rparr>"
    by (rule wait_bsy_ready[OF assms(1) Suc.prems(3)])
  have p1: "phase (view d1) = Writing l (Suc k)" "busy (view d1) = 0" using Suc.prems(1) d1(2) by simp_all
  then obtain d2 where d2: "ata_wait_drq dev d1 = (True, d2)" "view d2 = view d1"
    using wait_drq_ready[OF assms(1), of d1] by auto
  let ?s = "take 512 (drop (i * 512) buf)"
  let ?d3 = "outsw dev 0x1F0 ?s d2"
  have len: "length ?s = 512" "(i + 1) * 512 \<le> length buf" using Suc.prems(4) by simp_all
  note v3 = then_busyD[OF contract_data(2)[OF assms(1), of d2 l k ?s, unfolded d2(2), OF p1(2,1) len(1)]]
  have "k = 0 \<or> phase (view ?d3) = Writing (l + 1) k" "k = 0 \<longrightarrow> phase (view ?d3) = Idle"
    using v3(2) by (simp_all add: transfer_def)
  then obtain d4 where d4: "write_loop dev (Suc i) k buf ?d3 = Some (True, d4)"
    "medium (view d4) = sectors_written (medium (view ?d3)) (l + 1) k buf (Suc i)" "phase (view d4) = Idle" "busy (view d4) < 10000000"
    using Suc.IH[of ?d3 "l + 1" "Suc i"] v3(3) Suc.prems(4) by auto
  have "medium (view d4) = sectors_written (medium (view d)) l (Suc k) buf i"
  proof
    fix n
    have "n \<noteq> l \<Longrightarrow> l + 1 \<le> n \<longleftrightarrow> l \<le> n" by auto
    moreover have "l + 1 \<le> n \<Longrightarrow> Suc i + (n - (l + 1)) = i + (n - l)" by simp
    ultimately show "medium (view d4) n = sectors_written (medium (view d)) l (Suc k) buf i n"
      unfolding d4(2) v3(1) sectors_written_def using d1(2) by (cases "n = l") simp_all
  qed
  with d4 d1(1) d2(1) len show ?case by simp
qed

section \<open>The functions of the driver\<close>

lemma driver_transfers:
  assumes "ata_contract dev view" "phase (view d) = Idle" "busy (view d) < 10000000"
    and "n \<noteq> 0" "unat lba < 2 ^ 28" "unat n * 512 \<le> length buf"
  shows "(\<exists>d1. disk_read_sectors dev lba n buf d =
        Some (concat (map (medium (view d)) [unat lba..<unat lba + unat n]) @ drop (unat n * 512) buf, d1) \<and>
      medium (view d1) = medium (view d) \<and> phase (view d1) = Idle \<and> busy (view d1) < 10000000) \<and>
    (\<exists>d2. disk_write_sectors dev lba n buf d = Some d2 \<and>
      medium (view d2) = sectors_written (medium (view d)) (unat lba) (unat n) buf 0 \<and>
      phase (view d2) = Idle \<and> busy (view d2) < 10000000) \<and>
    (n = 1 \<longrightarrow> concat (map (medium (view d)) [unat lba..<unat lba + unat n]) = disk_read (medium (view d)) (unat lba) \<and>
      sectors_written (medium (view d)) (unat lba) (unat n) buf 0 = disk_write (medium (view d)) (unat lba) buf)"
proof -
  obtain d0 where d0: "ata_wait_bsy dev d = (True, d0)" "view d0 = (view d)\<lparr>busy := 0\<rparr>"
    by (rule wait_bsy_ready[OF assms(1,3)])
  then have a: "available (view d0)" using assms(2) by (simp add: available_def)
  have n: "unat n \<noteq> 0" using assms(4) by (simp add: unat_eq_0)
  let ?r = "ata_command dev lba n 0x20 d0" and ?w = "ata_command dev lba n 0x30 d0"
  have i: "issued Reading lba n (view d0) (view ?r)" "issued Writing lba n (view d0) (view ?w)"
    by (rule ata_command_issued[OF assms(1) a assms(4,5)])+
  obtain d1 where d1: "read_loop dev 0 (unat n) buf ?r =
      Some (concat (map (medium (view ?r)) [unat lba..<unat lba + unat n]) @ drop (unat n * 512) buf, d1)"
    "medium (view d1) = medium (view ?r)" "phase (view d1) = Idle" "busy (view d1) < 10000000"
    using read_loop_eq[OF assms(1), of "unat n" ?r "unat lba" 0 buf] i(1) n assms(6) by (auto simp: issued_def)
  have m: "medium (view ?r) = medium (view d)" "medium (view ?w) = medium (view d)" using i d0(2) by (simp_all add: issued_def)
  obtain d2 where d2: "write_loop dev 0 (unat n) buf ?w = Some (True, d2)"
    "medium (view d2) = sectors_written (medium (view ?w)) (unat lba) (unat n) buf 0" "phase (view d2) = Idle" "busy (view d2) < 10000000"
    using write_loop_eq[OF assms(1), of "unat n" ?w "unat lba" 0 buf] i(2) n assms(6) by (auto simp: issued_def)
  obtain d3 where d3: "ata_wait_bsy dev d2 = (True, d3)" "view d3 = (view d2)\<lparr>busy := 0\<rparr>"
    by (rule wait_bsy_ready[OF assms(1) d2(4)])
  have "available (view d3)" using d3(2) d2(3) by (simp add: available_def)
  note v4 = then_busyD[OF contract_commands(3)[OF assms(1) this]]
  obtain d5 where d5: "ata_wait_bsy dev (outb dev 0x1F7 0xE7 d3) = (True, d5)"
    "view d5 = (view (outb dev 0x1F7 0xE7 d3))\<lparr>busy := 0\<rparr>"
    by (rule wait_bsy_ready[OF assms(1) v4(3)])
  have "disk_write_sectors dev lba n buf d = Some d5"
    using d0(1) d2(1) d3(1) d5(1) by (simp add: disk_write_sectors_def)
  moreover have "medium (view d5) = sectors_written (medium (view d)) (unat lba) (unat n) buf 0"
    "phase (view d5) = Idle" "busy (view d5) < 10000000"
    using d5(2) v4 d3(2) d2 m by simp_all
  moreover have "disk_read_sectors dev lba n buf d =
      Some (concat (map (medium (view d)) [unat lba..<unat lba + unat n]) @ drop (unat n * 512) buf, d1)"
    using d0(1) d1(1) m by (simp add: disk_read_sectors_def)
  moreover have "n = 1 \<longrightarrow> concat (map (medium (view d)) [unat lba..<unat lba + unat n]) = disk_read (medium (view d)) (unat lba) \<and>
      sectors_written (medium (view d)) (unat lba) (unat n) buf 0 = disk_write (medium (view d)) (unat lba) buf"
    by (auto simp: disk_read_def disk_write_def sectors_written_def fun_eq_iff)
  ultimately show ?thesis using d1(2-) m by metis
qed

text \<open>
  A controller that stays busy: a read fills the buffer with zeros and reports nothing, and a write
  is dropped. For \<open>fs_check_installed\<close> such a disk is one without a file system.
\<close>

lemma wait_bsy_loop_stuck:
  assumes "\<And>d. fst (inb dev 0x1F7 d) AND 0x80 \<noteq> 0"
  shows "fst (wait_bsy_loop dev n d) = False"
proof (induction n arbitrary: d)
  case (Suc n)
  then show ?case using assms[of d] by (cases "inb dev 0x1F7 d") simp
qed simp

lemma disk_timeout:
  assumes "\<And>d. fst (inb dev 0x1F7 d) AND 0x80 \<noteq> 0" "unat n * 512 \<le> length buf"
  shows "\<exists>d1. disk_read_sectors dev lba n buf d = Some (replicate (unat n * 512) 0 @ drop (unat n * 512) buf, d1)"
    and "\<exists>d1. disk_write_sectors dev lba n buf d = Some d1 \<and> (False, d1) = ata_wait_bsy dev d"
proof -
  obtain d1 where w: "ata_wait_bsy dev d = (False, d1)"
    using wait_bsy_loop_stuck[OF assms(1), where n = 10000000 and d = d] unfolding ata_wait_bsy_def by (metis prod.collapse)
  show "\<exists>d1. disk_read_sectors dev lba n buf d = Some (replicate (unat n * 512) 0 @ drop (unat n * 512) buf, d1)"
    using w assms(2) by (auto simp: disk_read_sectors_def fill_zero_def)
  show "\<exists>d1. disk_write_sectors dev lba n buf d = Some d1 \<and> (False, d1) = ata_wait_bsy dev d"
    using w by (simp add: disk_write_sectors_def)
qed

text \<open>A controller that is busy for three status reads after each command and each sector.\<close>

definition example_status :: "ata_view \<Rightarrow> u8" where
  "example_status v = (if 0 < busy v then 0x80 else if phase v \<noteq> Idle then 0x48 else 0x40)"

definition example_command :: "u8 \<Rightarrow> ata_view \<Rightarrow> ata_view" where
  "example_command c v =
     (if c = 0x20 then v\<lparr>phase := Reading (lba_of v) (unat (f2 v)), busy := 3\<rparr>
      else if c = 0x30 then v\<lparr>phase := Writing (lba_of v) (unat (f2 v)), busy := 3\<rparr> else v\<lparr>busy := 3\<rparr>)"

definition example_sector :: "bytes \<Rightarrow> bytes" where
  "example_sector b = take 512 (b @ replicate 512 0)"

definition example_read :: "ata_view \<Rightarrow> bytes \<times> ata_view" where
  "example_read v = (case phase v of Reading l (Suc k) \<Rightarrow> (example_sector (medium v l), v\<lparr>phase := transfer Reading (l + 1) k, busy := 3\<rparr>)
     | _ \<Rightarrow> (replicate 512 0, v))"

definition example_write :: "bytes \<Rightarrow> ata_view \<Rightarrow> ata_view" where
  "example_write data v = (case phase v of
       Writing l (Suc k) \<Rightarrow> v\<lparr>phase := transfer Writing (l + 1) k, medium := (medium v)(l := data), busy := 3\<rparr>
     | _ \<Rightarrow> v)"

definition example_ata :: "ata_view ata" where
  "example_ata = \<lparr>inb = (\<lambda>_ v. (example_status v, v\<lparr>busy := busy v - 1\<rparr>)),
     outb = (\<lambda>r x v. if r = 0x1F2 then v\<lparr>f2 := x\<rparr> else if r = 0x1F3 then v\<lparr>f3 := x\<rparr> else if r = 0x1F4 then v\<lparr>f4 := x\<rparr>
        else if r = 0x1F5 then v\<lparr>f5 := x\<rparr> else if r = 0x1F6 then v\<lparr>f6 := x\<rparr> else example_command x v),
     insw = (\<lambda>_. example_read), outsw = (\<lambda>_. example_write)\<rparr>"

text \<open>All sectors have 512 bytes as the controller shows them.\<close>

definition example_view :: "ata_view \<Rightarrow> ata_view" where
  "example_view v = v\<lparr>medium := (\<lambda>n. example_sector (medium v n))\<rparr>"

lemma example_sector: "length (example_sector b) = 512" "length b = 512 \<Longrightarrow> example_sector b = b"
  by (simp_all add: example_sector_def)

lemma example_contract: "ata_contract example_ata example_view"
  unfolding ata_contract_def
  by (intro conjI allI impI)
    (auto simp: example_ata_def example_view_def Let_def example_status_def available_def example_command_def then_busy_def
      lba_of_def example_read_def example_write_def example_sector fun_eq_iff)

section \<open>The properties\<close>

text \<open>
  C25: on a controller that behaves as documented, \<open>disk_read_sectors\<close> and
  \<open>disk_write_sectors\<close> end, transfer exactly the sectors from \<open>lba\<close> on (below the 28-bit limit), leave all
  others unchanged and the controller ready for the next call; for one sector they are the
  \<open>disk_read\<close> and \<open>disk_write\<close> that the file system is modelled with.
\<close>

theorem disk_driver_refines:
  assumes "ata_contract dev view" "phase (view d) = Idle" "busy (view d) < 10000000"
    and "n \<noteq> 0" "unat lba < 2 ^ 28" "unat n * 512 \<le> length buf"
  shows "(\<exists>d1. disk_read_sectors dev lba n buf d =
        Some (concat (map (medium (view d)) [unat lba..<unat lba + unat n]) @ drop (unat n * 512) buf, d1) \<and>
      medium (view d1) = medium (view d) \<and> phase (view d1) = Idle \<and> busy (view d1) < 10000000) \<and>
    (\<exists>d2. disk_write_sectors dev lba n buf d = Some d2 \<and>
      medium (view d2) = sectors_written (medium (view d)) (unat lba) (unat n) buf 0 \<and>
      phase (view d2) = Idle \<and> busy (view d2) < 10000000) \<and>
    (n = 1 \<longrightarrow> concat (map (medium (view d)) [unat lba..<unat lba + unat n]) = disk_read (medium (view d)) (unat lba) \<and>
      sectors_written (medium (view d)) (unat lba) (unat n) buf 0 = disk_write (medium (view d)) (unat lba) buf)"
  by (rule driver_transfers[OF assms])

theorem disk_driver_refines_witness:
  "\<exists>d1 d2. let v = \<lparr>medium = (\<lambda>n. replicate 512 (of_nat n)), f2 = 0, f3 = 0, f4 = 0, f5 = 0, f6 = 0, phase = Idle, busy = 5\<rparr> in
     disk_read_sectors example_ata 7 1 (replicate 512 0) v = Some (replicate 512 7, d1) \<and>
     disk_write_sectors example_ata 7 1 (replicate 512 9) v = Some d2 \<and>
     medium (example_view d2) 7 = replicate 512 9 \<and> medium (example_view d2) 8 = replicate 512 8"
proof -
  let ?v = "\<lparr>medium = (\<lambda>n. replicate 512 (of_nat n)), f2 = 0, f3 = 0, f4 = 0, f5 = 0, f6 = 0, phase = Idle, busy = 5\<rparr>"
  have v: "example_view ?v = ?v" by (simp add: example_view_def example_sector_def)
  have p: "phase (example_view ?v) = Idle" "busy (example_view ?v) < 10000000" "(1::u8) \<noteq> 0" "unat (7::u32) < 2 ^ 28"
    by (simp_all add: v)
  have r: "\<exists>d1. disk_read_sectors example_ata 7 1 (replicate 512 0) ?v = Some (replicate 512 7, d1)"
    using disk_driver_refines[OF example_contract p, of "replicate 512 0"] by (auto simp: v)
  have w: "\<exists>d2. disk_write_sectors example_ata 7 1 (replicate 512 9) ?v = Some d2 \<and>
     medium (example_view d2) 7 = replicate 512 9 \<and> medium (example_view d2) 8 = replicate 512 8"
    using disk_driver_refines[OF example_contract p, of "replicate 512 9"] by (auto simp: v disk_write_def)
  from r w show ?thesis by (simp only: Let_def) blast
qed

end
