(* ===== verification/BlockDev.thy ===== *)
theory BlockDev
  imports Disk FsProps
begin

text \<open>
  The file system on the disk driver. \<open>FsState\<close> moves sectors between the static variables and a
  medium that is a map from sector numbers to bytes; here the same functions of \<open>fs/filesystem.c\<close>
  are written with the calls of \<open>drivers/disk.c\<close> that the source makes, on a state \<open>d\<close> of the
  device that the two functions \<open>rds\<close> and \<open>wrs\<close> thread. The locale \<open>block_device\<close> is what the file system relies on;
  it is interpreted on the medium of \<open>FsState\<close>, and \<open>ata_block_device\<close> gives it for the driver on
  every controller that behaves as documented.
\<close>

section \<open>The transfers with the calls of the driver\<close>

text \<open>\<open>for (i = 0; i < sectors_needed; i++)\<close>, from \<open>i\<close> on: one sector from or to \<open>buf + i * 512\<close>.\<close>

fun store_loop :: "(u32 \<Rightarrow> u8 \<Rightarrow> bytes \<Rightarrow> 'd \<Rightarrow> 'd option) \<Rightarrow> u32 \<Rightarrow> nat \<Rightarrow> nat \<Rightarrow> bytes \<Rightarrow> 'd \<Rightarrow> 'd option" where
  "store_loop wrs base i 0 buf d = Some d"
| "store_loop wrs base i (Suc k) buf d = do {
     d1 \<leftarrow> wrs (base + of_nat i) 1 (drop (i * 512) buf) d;
     store_loop wrs base (Suc i) k buf d1 }"

fun load_loop :: "(u32 \<Rightarrow> u8 \<Rightarrow> bytes \<Rightarrow> 'd \<Rightarrow> (bytes \<times> 'd) option) \<Rightarrow> u32 \<Rightarrow> nat \<Rightarrow> nat \<Rightarrow> bytes \<Rightarrow> 'd \<Rightarrow> (bytes \<times> 'd) option" where
  "load_loop rds base i 0 buf d = Some (buf, d)"
| "load_loop rds base i (Suc k) buf d = do {
     (b, d1) \<leftarrow> rds (base + of_nat i) 1 (drop (i * 512) buf) d;
     load_loop rds base (Suc i) k (take (i * 512) buf @ b) d1 }"

text \<open>
  A buffer is the memory from the pointer on: for the static variables, the one of the synchronisations
  up to the end of the last one. The variables are read off the memory that a transfer leaves.
\<close>

definition bitmap_from :: "bytes \<Rightarrow> fs \<Rightarrow> fs" where
  "bitmap_from b s = s\<lparr>block_bitmap := take 64 b, sector_buffer := drop 64 b\<rparr>"

definition table_from :: "bytes \<Rightarrow> fs \<Rightarrow> fs" where
  "table_from b s = bitmap_from (drop 12000 b) (s\<lparr>inode_table := dec_table b\<rparr>)"

definition superblock_from :: "bytes \<Rightarrow> fs \<Rightarrow> fs" where
  "superblock_from b s = table_from (drop 192 b) (s\<lparr>superblock := dec_superblock b\<rparr>)"

definition sync_superblock_on :: "(u32 \<Rightarrow> u8 \<Rightarrow> bytes \<Rightarrow> 'd \<Rightarrow> 'd option) \<Rightarrow> fs \<Rightarrow> 'd \<Rightarrow> 'd option" where
  "sync_superblock_on wrs s d = wrs (of_nat FS_SUPERBLOCK_SECTOR) 1 (superblock_memory s) d"

definition sync_inode_table_on :: "(u32 \<Rightarrow> u8 \<Rightarrow> bytes \<Rightarrow> 'd \<Rightarrow> 'd option) \<Rightarrow> fs \<Rightarrow> 'd \<Rightarrow> 'd option" where
  "sync_inode_table_on wrs s d =
     store_loop wrs (of_nat FS_INODE_TABLE_SECTOR) 0 (sectors_needed 12000) (table_memory s) d"

definition sync_block_bitmap_on :: "(u32 \<Rightarrow> u8 \<Rightarrow> bytes \<Rightarrow> 'd \<Rightarrow> 'd option) \<Rightarrow> fs \<Rightarrow> 'd \<Rightarrow> 'd option" where
  "sync_block_bitmap_on wrs s d =
     store_loop wrs (of_nat FS_BLOCK_BITMAP_SECTOR) 0 (sectors_needed 64) (bitmap_memory s) d"

definition load_superblock_on :: "(u32 \<Rightarrow> u8 \<Rightarrow> bytes \<Rightarrow> 'd \<Rightarrow> (bytes \<times> 'd) option) \<Rightarrow> fs \<Rightarrow> 'd \<Rightarrow> (fs \<times> 'd) option" where
  "load_superblock_on rds s d = do {
     (b, d1) \<leftarrow> rds (of_nat FS_SUPERBLOCK_SECTOR) 1 (superblock_memory s) d;
     Some (superblock_from b s, d1) }"

definition load_inode_table_on :: "(u32 \<Rightarrow> u8 \<Rightarrow> bytes \<Rightarrow> 'd \<Rightarrow> (bytes \<times> 'd) option) \<Rightarrow> fs \<Rightarrow> 'd \<Rightarrow> (fs \<times> 'd) option" where
  "load_inode_table_on rds s d = do {
     (b, d1) \<leftarrow> load_loop rds (of_nat FS_INODE_TABLE_SECTOR) 0 (sectors_needed 12000) (table_memory s) d;
     Some (table_from b s, d1) }"

definition load_block_bitmap_on :: "(u32 \<Rightarrow> u8 \<Rightarrow> bytes \<Rightarrow> 'd \<Rightarrow> (bytes \<times> 'd) option) \<Rightarrow> fs \<Rightarrow> 'd \<Rightarrow> (fs \<times> 'd) option" where
  "load_block_bitmap_on rds s d = do {
     (b, d1) \<leftarrow> load_loop rds (of_nat FS_BLOCK_BITMAP_SECTOR) 0 (sectors_needed 64) (bitmap_memory s) d;
     Some (bitmap_from b s, d1) }"

definition fs_init_on :: "(u32 \<Rightarrow> u8 \<Rightarrow> bytes \<Rightarrow> 'd \<Rightarrow> (bytes \<times> 'd) option) \<Rightarrow> fs \<Rightarrow> 'd \<Rightarrow> (fs \<times> 'd) option" where
  "fs_init_on rds s d = do {
     (s1, d1) \<leftarrow> load_superblock_on rds s d;
     (s2, d2) \<leftarrow> load_inode_table_on rds s1 d1;
     load_block_bitmap_on rds s2 d2 }"

text \<open>The three calls that end \<open>fs_format\<close>, and in the same order the installation.\<close>

definition sync_all_on :: "(u32 \<Rightarrow> u8 \<Rightarrow> bytes \<Rightarrow> 'd \<Rightarrow> 'd option) \<Rightarrow> fs \<Rightarrow> 'd \<Rightarrow> 'd option" where
  "sync_all_on wrs s d = do {
     d1 \<leftarrow> sync_superblock_on wrs s d;
     d2 \<leftarrow> sync_inode_table_on wrs s d1;
     sync_block_bitmap_on wrs s d2 }"

text \<open>A block number of 0 or out of range: a read is all zeros, a write is ignored.\<close>

definition read_inode_block_on :: "(u32 \<Rightarrow> u8 \<Rightarrow> bytes \<Rightarrow> 'd \<Rightarrow> (bytes \<times> 'd) option) \<Rightarrow> u32 \<Rightarrow> bytes \<Rightarrow> 'd \<Rightarrow> (bytes \<times> 'd) option" where
  "read_inode_block_on rds block_num buffer d =
     (if block_num = 0 \<or> 512 \<le> block_num then map_option (\<lambda>b. (b, d)) (memset buffer 0 512)
      else rds (of_nat FS_DATA_START_SECTOR + block_num) 1 buffer d)"

definition write_inode_block_on :: "(u32 \<Rightarrow> u8 \<Rightarrow> bytes \<Rightarrow> 'd \<Rightarrow> 'd option) \<Rightarrow> u32 \<Rightarrow> bytes \<Rightarrow> 'd \<Rightarrow> 'd option" where
  "write_inode_block_on wrs block_num buffer d =
     (if block_num = 0 \<or> 512 \<le> block_num then Some d
      else wrs (of_nat FS_DATA_START_SECTOR + block_num) 1 buffer d)"


text \<open>Whatever is on the disk, the loaded variables have their sizes.\<close>

lemma dec_shapes:
  "192 \<le> length b \<Longrightarrow> superblock_shape (dec_superblock b)" "length (dec_table b) = 200" "i \<in> set (dec_table b) \<Longrightarrow> inode_shape i"
  by (auto simp: superblock_shape_def dec_superblock_def Let_def dec_table_def inode_shape_def dec_inode_def)

lemma fs_shape_loads:
  assumes "fs_shape s"
  shows "fs_shape (load_superblock s)" "fs_shape (load_inode_table s)" "fs_shape (load_block_bitmap s)"
  using assms dec_shapes by (simp_all add: fs_shape_def load_superblock_def load_inode_table_def load_block_bitmap_def Let_def
      disk_read_def length_read_sectors)

text \<open>What a transfer into the memory leaves of the variables, with the first \<open>512 * k\<close> bytes from the disk.\<close>

lemma chunks_append: "n * k \<le> length b \<Longrightarrow> chunks n k (b @ r) = chunks n k b"
  by (induction k arbitrary: b) simp_all

lemma dec_append:
  "192 \<le> length b \<Longrightarrow> dec_superblock (b @ r) = dec_superblock b"
  "12000 \<le> length b \<Longrightarrow> dec_table (b @ r) = dec_table b"
  by (simp_all add: dec_superblock_def dec_table_def chunks_append)

lemma superblock_from_sector:
  assumes "fs_shape s" "length b = 512"
  shows "superblock_from (b @ drop 512 (superblock_memory s)) s =
    s\<lparr>superblock := dec_superblock b, inode_table := dec_table (drop 192 b @ drop 320 (enc_table (inode_table s)))\<rparr>"
  using fs_shapeD[OF assms(1)] assms(2)
  by (simp add: superblock_from_def table_from_def bitmap_from_def dec_append superblock_memory_def table_memory_def bitmap_memory_def
      flip: append_assoc)

lemma table_from_sectors:
  assumes "fs_shape s" "length b = 12288"
  shows "table_from (b @ drop 12288 (table_memory s)) s =
    s\<lparr>inode_table := dec_table b, block_bitmap := take 64 (drop 12000 b), sector_buffer := drop 12064 b @ drop 224 (sector_buffer s)\<rparr>"
  using fs_shapeD[OF assms(1)] assms(2)
  by (simp add: table_from_def bitmap_from_def dec_append table_memory_def bitmap_memory_def)

lemma bitmap_from_sector:
  assumes "fs_shape s" "length b = 512"
  shows "bitmap_from (b @ drop 512 (bitmap_memory s)) s =
    s\<lparr>block_bitmap := take 64 b, sector_buffer := drop 64 b @ drop 448 (sector_buffer s)\<rparr>"
  using fs_shapeD[OF assms(1)] assms(2) by (simp add: bitmap_from_def bitmap_memory_def)

section \<open>What the file system relies on\<close>

text \<open>
  A device that can be used shows its contents, sector by sector, and each call for one sector moves
  exactly that sector and leaves the device usable.
\<close>

locale block_device =
  fixes rds :: "u32 \<Rightarrow> u8 \<Rightarrow> bytes \<Rightarrow> 'd \<Rightarrow> (bytes \<times> 'd) option"
    and wrs :: "u32 \<Rightarrow> u8 \<Rightarrow> bytes \<Rightarrow> 'd \<Rightarrow> 'd option"
    and usable :: "'d \<Rightarrow> bool"
    and contents :: "'d \<Rightarrow> nat \<Rightarrow> bytes"
  assumes rd_sector: "usable d \<Longrightarrow> unat lba < 2 ^ 28 \<Longrightarrow> 512 \<le> length buf \<Longrightarrow>
      \<exists>d1. rds lba 1 buf d = Some (disk_read (contents d) (unat lba) @ drop 512 buf, d1) \<and> usable d1 \<and> contents d1 = contents d"
    and wr_sector: "usable d \<Longrightarrow> unat lba < 2 ^ 28 \<Longrightarrow> 512 \<le> length buf \<Longrightarrow>
      \<exists>d1. wrs lba 1 buf d = Some d1 \<and> usable d1 \<and> contents d1 = disk_write (contents d) (unat lba) buf"
    and sector_length: "usable d \<Longrightarrow> length (contents d n) = 512"
begin

lemma sector_number:
  assumes "unat base + i < 2 ^ 28"
  shows "unat (base + of_nat i :: u32) = unat base + i"
proof -
  have i: "unat (of_nat i :: u32) = i" unfolding unat_of_nat using assms by simp
  then show ?thesis using assms unat_add_lem[of base "of_nat i"] by simp
qed

lemma store_loop_writes:
  assumes "usable d" "unat base + i + k < 2 ^ 28" "(i + k) * 512 \<le> length buf"
  obtains d1 where "store_loop wrs base i k buf d = Some d1" "usable d1"
    "contents d1 = write_sectors (unat base + i) k (drop (i * 512) buf) (contents d)"
  using assms
proof (induction k arbitrary: i d thesis)
  case (Suc k)
  have n: "unat (base + of_nat i) = unat base + i" using Suc.prems(3) by (intro sector_number) simp
  have r: "unat base + i < 2 ^ 28" "512 \<le> length (drop (i * 512) buf)" using Suc.prems(3,4) by simp_all
  obtain d1 where d1: "wrs (base + of_nat i) 1 (drop (i * 512) buf) d = Some d1" "usable d1"
    "contents d1 = disk_write (contents d) (unat base + i) (drop (i * 512) buf)"
    using wr_sector[OF Suc.prems(2) _ r(2), of "base + of_nat i"] r(1) unfolding n by blast
  obtain d2 where d2: "store_loop wrs base (Suc i) k buf d1 = Some d2" "usable d2"
    "contents d2 = write_sectors (unat base + Suc i) k (drop (Suc i * 512) buf) (contents d1)"
    by (rule Suc.IH[OF _ d1(2), of "Suc i"]) (assumption | use Suc.prems(3,4) in simp)+
  show ?case
    by (rule Suc.prems(1)[of d2]) (use d1 d2 in \<open>simp_all add: drop_drop add.commute\<close>)
qed simp

lemma load_loop_reads:
  assumes "usable d" "unat base + i + k < 2 ^ 28" "(i + k) * 512 \<le> length buf"
  obtains d1 where "load_loop rds base i k buf d =
      Some (take (i * 512) buf @ read_sectors (unat base + i) k (contents d) @ drop ((i + k) * 512) buf, d1)" "usable d1"
    "contents d1 = contents d"
  using assms
proof (induction k arbitrary: i d buf thesis)
  case (Suc k)
  have n: "unat (base + of_nat i) = unat base + i" using Suc.prems(3) by (intro sector_number) simp
  have r: "unat base + i < 2 ^ 28" "512 \<le> length (drop (i * 512) buf)" using Suc.prems(3,4) by simp_all
  let ?s = "disk_read (contents d) (unat base + i)"
  let ?buf = "take (i * 512) buf @ ?s @ drop 512 (drop (i * 512) buf)"
  have s: "length ?s = 512" using sector_length[OF Suc.prems(2)] by (simp add: disk_read_def)
  obtain d1 where d1: "rds (base + of_nat i) 1 (drop (i * 512) buf) d = Some (?s @ drop 512 (drop (i * 512) buf), d1)" "usable d1"
    "contents d1 = contents d"
    using rd_sector[OF Suc.prems(2) _ r(2), of "base + of_nat i"] r(1) unfolding n by blast
  have l: "length ?buf = length buf" using s Suc.prems(4) by simp
  obtain d2 where d2: "load_loop rds base (Suc i) k ?buf d1 = Some (take (Suc i * 512) ?buf @
      read_sectors (unat base + Suc i) k (contents d1) @ drop ((Suc i + k) * 512) ?buf, d2)" "usable d2" "contents d2 = contents d1"
    by (rule Suc.IH[OF _ d1(2), of "Suc i" ?buf]) (assumption | use Suc.prems(3,4) l in simp)+
  have "take (Suc i * 512) ?buf = take (i * 512) buf @ ?s" "drop ((Suc i + k) * 512) ?buf = drop ((i + Suc k) * 512) buf"
    using s Suc.prems(4) by (simp_all add: drop_drop algebra_simps)
  with d1 d2 show ?case by (intro Suc.prems(1)[of d2]) simp_all
qed simp

text \<open>The functions of the file system do on the device what their models do on the medium.\<close>

lemma syncs_on_device:
  assumes "usable d" "fs_shape s" "contents d = disk s"
  obtains d1 d2 d3 where
    "sync_superblock_on wrs s d = Some d1" "usable d1" "contents d1 = disk (sync_superblock s)"
    "sync_inode_table_on wrs s d = Some d2" "usable d2" "contents d2 = disk (sync_inode_table s)"
    "sync_block_bitmap_on wrs s d = Some d3" "usable d3" "contents d3 = disk (sync_block_bitmap s)"
proof -
  note l = memory_sizes[OF assms(2)]
  obtain d1 where d1: "sync_superblock_on wrs s d = Some d1" "usable d1" "contents d1 = disk (sync_superblock s)"
    using wr_sector[OF assms(1), of 100 "superblock_memory s"] l(1) assms(3)
    by (auto simp: sync_superblock_on_def sync_superblock_def)
  obtain d2 where d2: "sync_inode_table_on wrs s d = Some d2" "usable d2" "contents d2 = disk (sync_inode_table s)"
    by (rule store_loop_writes[OF assms(1), of 101 0 24 "table_memory s"])
      (use l(2) assms(3) in \<open>simp_all add: sync_inode_table_on_def sync_inode_table_def\<close>)
  obtain d3 where d3: "sync_block_bitmap_on wrs s d = Some d3" "usable d3" "contents d3 = disk (sync_block_bitmap s)"
    by (rule store_loop_writes[OF assms(1), of 151 0 1 "bitmap_memory s"])
      (use l(3) assms(3) in \<open>simp_all add: sync_block_bitmap_on_def sync_block_bitmap_def\<close>)
  show ?thesis by (rule that[OF d1 d2 d3])
qed

lemma sync_all_on_device:
  assumes "usable d" "fs_shape s" "contents d = disk s"
  obtains d1 where "sync_all_on wrs s d = Some d1" "usable d1"
    "contents d1 = disk (sync_block_bitmap (sync_inode_table (sync_superblock s)))"
proof -
  let ?s1 = "sync_superblock s" and ?s2 = "sync_inode_table (sync_superblock s)"
  note sh = fs_shape_sync_superblock[OF assms(2)]
  note sh2 = fs_shape_sync_inode_table[OF sh]
  obtain d1 where d1: "sync_superblock_on wrs s d = Some d1" "usable d1" "contents d1 = disk ?s1"
    by (rule syncs_on_device[OF assms])
  obtain d2 where d2: "sync_inode_table_on wrs ?s1 d1 = Some d2" "usable d2" "contents d2 = disk ?s2"
    by (rule syncs_on_device[OF d1(2) sh d1(3)])
  obtain d3 where d3: "sync_block_bitmap_on wrs ?s2 d2 = Some d3" "usable d3" "contents d3 = disk (sync_block_bitmap ?s2)"
    by (rule syncs_on_device[OF d2(2) sh2 d2(3)])
  have "sync_all_on wrs s d = Some d3"
    using d1(1) d2(1) d3(1) by (simp add: sync_all_on_def sync_inode_table_on_def sync_block_bitmap_on_def)
  then show ?thesis by (rule that[OF _ d3(2,3)])
qed

lemma init_on_device:
  assumes "usable d" "fs_shape s" "contents d = disk s"
  obtains d1 where "fs_init_on rds s d = Some (fs_init s, d1)" "usable d1" "contents d1 = disk s"
proof -
  let ?s1 = "load_superblock s" and ?s2 = "load_inode_table (load_superblock s)"
  note sh1 = fs_shape_loads(1)[OF assms(2)]
  note sh2 = fs_shape_loads(2)[OF sh1]
  have n: "length (disk s i) = 512" for i using assms(2) by (simp add: fs_shape_def)
  have dk: "disk ?s1 = disk s" "disk ?s2 = disk s" by (simp_all add: load_superblock_def load_inode_table_def Let_def)
  obtain d1 where d1: "load_superblock_on rds s d = Some (?s1, d1)" "usable d1" "contents d1 = disk s"
    using rd_sector[OF assms(1), of 100 "superblock_memory s"] memory_sizes(1)[OF assms(2)] assms(3) n
    by (auto simp: load_superblock_on_def load_superblock_def Let_def superblock_from_sector[OF assms(2)] disk_read_def)
  obtain d2 where d2: "load_inode_table_on rds ?s1 d1 = Some (?s2, d2)" "usable d2" "contents d2 = disk s"
  proof (rule load_loop_reads[OF d1(2), of 101 0 24 "table_memory ?s1"])
    fix d2 assume "load_loop rds 101 0 24 (table_memory ?s1) d1 = Some (take (0 * 512) (table_memory ?s1) @
        read_sectors (unat (101 :: u32) + 0) 24 (contents d1) @ drop ((0 + 24) * 512) (table_memory ?s1), d2)"
      "usable d2" "contents d2 = contents d1"
    then show thesis using d1(3) dk n
      by (intro that) (simp_all add: load_inode_table_on_def table_from_sectors[OF sh1] length_read_sectors load_inode_table_def Let_def)
  qed (use memory_sizes(2)[OF sh1] in simp_all)
  obtain d3 where d3: "load_block_bitmap_on rds ?s2 d2 = Some (fs_init s, d3)" "usable d3" "contents d3 = disk s"
  proof (rule load_loop_reads[OF d2(2), of 151 0 1 "bitmap_memory ?s2"])
    fix d3 assume "load_loop rds 151 0 1 (bitmap_memory ?s2) d2 = Some (take (0 * 512) (bitmap_memory ?s2) @
        read_sectors (unat (151 :: u32) + 0) 1 (contents d2) @ drop ((0 + 1) * 512) (bitmap_memory ?s2), d3)"
      "usable d3" "contents d3 = contents d2"
    then show thesis using d2(3) dk n
      by (intro that) (simp_all add: load_block_bitmap_on_def bitmap_from_sector[OF sh2] disk_read_def fs_init_def load_block_bitmap_def Let_def
        del: load_loop.simps)
  qed (use memory_sizes(3)[OF sh2] in simp_all)
  have "fs_init_on rds s d = Some (fs_init s, d3)" using d1(1) d2(1) d3(1) by (simp add: fs_init_on_def)
  then show ?thesis by (rule that[OF _ d3(2,3)])
qed

lemma block_number: "\<not> 512 \<le> (b :: u32) \<Longrightarrow> unat (201 + b) = 201 + unat b"
proof -
  assume "\<not> 512 \<le> b"
  then have "unat b < 512" by (simp add: word_le_nat_alt)
  then show ?thesis using unat_add_lem[of 201 b] by simp
qed

lemma blocks_on_device:
  assumes "usable d" "contents d = disk s" "512 \<le> length buf"
  obtains d1 d2 where
    "read_inode_block_on rds b buf d = Some (read_inode_block s b buf, d1)" "usable d1" "contents d1 = disk s"
    "write_inode_block_on wrs b buf d = Some d2" "usable d2" "contents d2 = disk (write_inode_block s b buf)"
proof (cases "b = 0 \<or> 512 \<le> b")
  case True
  then show ?thesis using assms
    by (intro that[of d d]) (simp_all add: read_inode_block_on_def write_inode_block_on_def read_inode_block_def
      write_inode_block_def memset_eq)
next
  case False
  then have n: "unat (201 + b) = 201 + unat b" "unat (201 + b) < 2 ^ 28" using block_number[of b] by (simp_all add: word_le_nat_alt)
  obtain d1 where "rds (201 + b) 1 buf d = Some (disk_read (disk s) (201 + unat b) @ drop 512 buf, d1)" "usable d1" "contents d1 = disk s"
    using rd_sector[OF assms(1) n(2) assms(3)] unfolding n(1) assms(2) by blast
  moreover obtain d2 where "wrs (201 + b) 1 buf d = Some d2" "usable d2" "contents d2 = disk_write (disk s) (201 + unat b) buf"
    using wr_sector[OF assms(1) n(2) assms(3)] unfolding n(1) assms(2) by blast
  ultimately show ?thesis using False
    by (intro that[of d1 d2]) (simp_all add: read_inode_block_on_def write_inode_block_on_def read_inode_block_def write_inode_block_def)
qed

end

section \<open>The devices\<close>

text \<open>The medium of \<open>FsState\<close> is a device whose state is its contents.\<close>

definition medium_read :: "u32 \<Rightarrow> u8 \<Rightarrow> bytes \<Rightarrow> (nat \<Rightarrow> bytes) \<Rightarrow> (bytes \<times> (nat \<Rightarrow> bytes)) option" where
  "medium_read lba n buf m = Some (read_sectors (unat lba) (unat n) m @ drop (unat n * 512) buf, m)"

definition medium_write :: "u32 \<Rightarrow> u8 \<Rightarrow> bytes \<Rightarrow> (nat \<Rightarrow> bytes) \<Rightarrow> (nat \<Rightarrow> bytes) option" where
  "medium_write lba n buf m = Some (write_sectors (unat lba) (unat n) buf m)"

interpretation medium_device: block_device medium_read medium_write "\<lambda>m. \<forall>n. length (m n) = 512" "\<lambda>m. m"
  by unfold_locales (auto simp: medium_read_def medium_write_def disk_write_def)

text \<open>The state of a controller between two calls of the driver.\<close>

definition at_rest :: "('d \<Rightarrow> ata_view) \<Rightarrow> 'd \<Rightarrow> bool" where
  "at_rest view d \<longleftrightarrow> phase (view d) = Idle \<and> busy (view d) < 10000000"

lemma ata_block_device:
  assumes "ata_contract dev view"
  shows "block_device (disk_read_sectors dev) (disk_write_sectors dev) (at_rest view) (\<lambda>d. medium (view d))"
proof
  fix d and buf :: bytes and lba :: u32
  assume a: "at_rest view d" "unat lba < 2 ^ 28" "512 \<le> length buf"
  have r: "phase (view d) = Idle" "busy (view d) < 10000000" using a(1) by (simp_all add: at_rest_def)
  from driver_transfers[OF assms r one_neq_zero a(2)] a(3)
  show "\<exists>d1. disk_read_sectors dev lba 1 buf d = Some (disk_read (medium (view d)) (unat lba) @ drop 512 buf, d1) \<and>
      at_rest view d1 \<and> medium (view d1) = medium (view d)"
    "\<exists>d1. disk_write_sectors dev lba 1 buf d = Some d1 \<and> at_rest view d1 \<and> medium (view d1) = disk_write (medium (view d)) (unat lba) buf"
    by (fastforce simp: at_rest_def)+
qed (rule contract_sector[OF assms])


section \<open>The properties\<close>

lemma synced_all:
  assumes "fs_shape s" "s3 = sync_block_bitmap (sync_inode_table (sync_superblock s))"
  shows "fs_init s3 = s3" "superblock s3 = superblock s" "inode_table s3 = inode_table s" "block_bitmap s3 = block_bitmap s"
proof -
  note sh = fs_shape_sync_superblock[OF assms(1)]
  note sh2 = fs_shape_sync_inode_table[OF sh]
  show "fs_init s3 = s3" unfolding assms(2)
    by (rule fs_init_synced[OF fs_shape_sync_block_bitmap[OF sh2]])
      (intro synced_frame synced_sync[OF assms(1)] synced_sync[OF sh] synced_sync[OF sh2])+
  show "superblock s3 = superblock s" "inode_table s3 = inode_table s" "block_bitmap s3 = block_bitmap s"
    by (simp_all add: assms(2))
qed

text \<open>
  C26: on a controller that behaves as documented, the file system's own transfers go
  through the driver to what they are in the model of the medium: the three synchronisations write the
  superblock, the inode table and the bitmap, a machine that then starts with any memory loads exactly these back
  with \<open>fs_init\<close>, and blocks are read and written as \<open>read_inode_block\<close> and \<open>write_inode_block\<close> say. Every
  call ends with the controller at rest.
\<close>

theorem transfers_on_driver:
  assumes "ata_contract dev view" "at_rest view d" "fs_shape s" "medium (view d) = disk s" "512 \<le> length buf"
  shows "(\<exists>d1. sync_all_on (disk_write_sectors dev) s d = Some d1 \<and> at_rest view d1 \<and>
      medium (view d1) = disk (sync_block_bitmap (sync_inode_table (sync_superblock s))) \<and>
      (\<forall>t. fs_shape t \<and> disk t = medium (view d1) \<longrightarrow>
        (\<exists>u d2. fs_init_on (disk_read_sectors dev) t d1 = Some (u, d2) \<and> at_rest view d2 \<and> medium (view d2) = medium (view d1) \<and>
          superblock u = superblock s \<and> inode_table u = inode_table s \<and> block_bitmap u = block_bitmap s))) \<and>
    (\<exists>d1. read_inode_block_on (disk_read_sectors dev) b buf d = Some (read_inode_block s b buf, d1) \<and> at_rest view d1 \<and>
      medium (view d1) = disk s) \<and>
    (\<exists>d1. write_inode_block_on (disk_write_sectors dev) b buf d = Some d1 \<and> at_rest view d1 \<and>
      medium (view d1) = disk (write_inode_block s b buf))"
proof -
  note dev = ata_block_device[OF assms(1)]
  let ?s3 = "sync_block_bitmap (sync_inode_table (sync_superblock s))"
  note s3 = synced_all[OF assms(3) refl]
  obtain d1 where d1: "sync_all_on (disk_write_sectors dev) s d = Some d1" "at_rest view d1" "medium (view d1) = disk ?s3"
    by (rule block_device.sync_all_on_device[OF dev assms(2-4)])
  have init: "\<exists>u d2. fs_init_on (disk_read_sectors dev) t d1 = Some (u, d2) \<and> at_rest view d2 \<and> medium (view d2) = medium (view d1) \<and>
          superblock u = superblock s \<and> inode_table u = inode_table s \<and> block_bitmap u = block_bitmap s"
    if t: "fs_shape t" "disk t = medium (view d1)" for t
  proof -
    obtain d2 where d2: "fs_init_on (disk_read_sectors dev) t d1 = Some (fs_init t, d2)" "at_rest view d2" "medium (view d2) = disk t"
      by (rule block_device.init_on_device[OF dev d1(2) t(1) t(2)[symmetric]])
    have "disk t = disk ?s3" using t(2) d1(3) by simp
    from fs_init_cong[OF this] d2 t(2) s3 show ?thesis by auto
  qed
  obtain d3 d4 where d3: "read_inode_block_on (disk_read_sectors dev) b buf d = Some (read_inode_block s b buf, d3)" "at_rest view d3"
      "medium (view d3) = disk s"
    and d4: "write_inode_block_on (disk_write_sectors dev) b buf d = Some d4" "at_rest view d4"
      "medium (view d4) = disk (write_inode_block s b buf)"
    by (rule block_device.blocks_on_device[OF dev assms(2,4,5)])
  from d1 init d3 d4 show ?thesis by blast
qed

theorem transfers_on_driver_witness:
  "let v = \<lparr>medium = disk blank_fs, f2 = 0, f3 = 0, f4 = 0, f5 = 0, f6 = 0, phase = Idle, busy = 5\<rparr> in
     (\<exists>d1. sync_all_on (disk_write_sectors example_ata) blank_fs v = Some d1 \<and>
        phase (example_view d1) = Idle \<and>
        (\<exists>u d2. fs_init_on (disk_read_sectors example_ata) (blank_fs\<lparr>disk := medium (example_view d1)\<rparr>) d1 = Some (u, d2) \<and>
          superblock u = superblock blank_fs)) \<and>
     (\<exists>d1. read_inode_block_on (disk_read_sectors example_ata) 600 (replicate 512 7) v = Some (replicate 512 0, d1)) \<and>
     (\<exists>d1. write_inode_block_on (disk_write_sectors example_ata) 600 (replicate 512 7) v = Some d1 \<and>
        medium (example_view d1) 801 = replicate 512 0)"
proof -
  let ?v = "\<lparr>medium = disk blank_fs, f2 = 0, f3 = 0, f4 = 0, f5 = 0, f6 = 0, phase = Idle, busy = 5\<rparr>"
  have m: "example_view ?v = ?v" by (simp add: example_view_def example_sector_def blank_fs_def)
  then have v: "at_rest example_view ?v" "medium (example_view ?v) = disk blank_fs" by (simp_all add: at_rest_def)
  note p = transfers_on_driver[OF example_contract v(1) blank_shape v(2), of "replicate 512 7" 600]
  have l: "512 \<le> length (replicate 512 7 :: bytes)" by simp
  have sh: "fs_shape (blank_fs\<lparr>disk := medium (example_view d)\<rparr>)" for d
    using blank_shape by (simp add: fs_shape_def example_view_def example_sector)
  from p[OF l] obtain d1 where d1: "sync_all_on (disk_write_sectors example_ata) blank_fs ?v = Some d1" "at_rest example_view d1"
    and i: "\<And>t. fs_shape t \<and> disk t = medium (example_view d1) \<Longrightarrow>
        \<exists>u d2. fs_init_on (disk_read_sectors example_ata) t d1 = Some (u, d2) \<and> superblock u = superblock blank_fs" by blast
  have "\<exists>u d2. fs_init_on (disk_read_sectors example_ata) (blank_fs\<lparr>disk := medium (example_view d1)\<rparr>) d1 = Some (u, d2) \<and>
      superblock u = superblock blank_fs"
    by (rule i) (simp add: sh)
  moreover have "phase (example_view d1) = Idle" using d1(2) by (simp add: at_rest_def)
  moreover have "read_inode_block blank_fs 600 (replicate 512 7) = replicate 512 0" "write_inode_block blank_fs 600 (replicate 512 7) = blank_fs"
    by (simp_all add: read_inode_block_def write_inode_block_def)
  then have "\<exists>d1. read_inode_block_on (disk_read_sectors example_ata) 600 (replicate 512 7) ?v = Some (replicate 512 0, d1)"
    "\<exists>d1. write_inode_block_on (disk_write_sectors example_ata) 600 (replicate 512 7) ?v = Some d1 \<and>
        medium (example_view d1) 801 = replicate 512 0"
    using p[OF l] by (auto simp: blank_fs_def)
  ultimately show ?thesis using d1(1) unfolding Let_def by blast
qed

end
