(* ===== verification/NetWire.thy ===== *)
theory NetWire
  imports CString
begin

text \<open>
  What the protocols put on the wire: byte order, the internet checksum of \<open>net/ip.c\<close>, and the
  packed headers of \<open>net/*.h\<close>. The machine is little-endian, so a header field holds the
  network-order value with its bytes swapped; each C file has its own static copies of
  \<open>htons\<close> and \<open>htonl\<close>, which are the same functions.
\<close>

section \<open>Byte order\<close>

definition htons :: "u16 \<Rightarrow> u16" where
  "htons n = push_bit 8 (n AND 0xFF) OR drop_bit 8 (n AND 0xFF00)"

definition ntohs :: "u16 \<Rightarrow> u16" where
  "ntohs n = htons n"

definition htonl :: "u32 \<Rightarrow> u32" where
  "htonl n = push_bit 24 (n AND 0xFF) OR push_bit 8 (n AND 0xFF00)
     OR drop_bit 8 (n AND 0xFF0000) OR drop_bit 24 (n AND 0xFF000000)"

definition ntohl :: "u32 \<Rightarrow> u32" where
  "ntohl n = htonl n"

section \<open>Packed headers\<close>

record eth_header =
  eth_dest :: bytes
  eth_src :: bytes
  eth_type :: u16

record ip_header =
  version_ihl :: u8
  tos :: u8
  total_length :: u16
  identification :: u16
  flags_fragment :: u16
  ttl :: u8
  protocol :: u8
  ip_sum :: u16
  src_ip :: u32
  dest_ip :: u32

record icmp_header =
  icmp_type :: u8
  icmp_code :: u8
  icmp_sum :: u16
  icmp_id :: u16
  icmp_seq :: u16

record udp_header =
  src_port :: u16
  dest_port :: u16
  udp_length :: u16
  udp_sum :: u16

record arp_packet =
  htype :: u16
  ptype :: u16
  hlen :: u8
  plen :: u8
  oper :: u16
  sha :: bytes
  spa :: u32
  tha :: bytes
  tpa :: u32

record dns_header =
  dns_id :: u16
  dns_flags :: u16
  qdcount :: u16
  ancount :: u16
  nscount :: u16
  arcount :: u16

text \<open>The memory image of each header, and the header read from memory.\<close>

definition enc_eth :: "eth_header \<Rightarrow> bytes" where
  "enc_eth h = eth_dest h @ eth_src h @ le16 (eth_type h)"

definition dec_eth :: "bytes \<Rightarrow> eth_header" where
  "dec_eth b = \<lparr>eth_dest = take 6 b, eth_src = take 6 (drop 6 b), eth_type = get16 b 12\<rparr>"

definition enc_ip :: "ip_header \<Rightarrow> bytes" where
  "enc_ip h = [version_ihl h, tos h] @ le16 (total_length h) @ le16 (identification h)
     @ le16 (flags_fragment h) @ [ttl h, protocol h] @ le16 (ip_sum h) @ le32 (src_ip h) @ le32 (dest_ip h)"

definition dec_ip :: "bytes \<Rightarrow> ip_header" where
  "dec_ip b = \<lparr>version_ihl = b ! 0, tos = b ! 1, total_length = get16 b 2, identification = get16 b 4,
     flags_fragment = get16 b 6, ttl = b ! 8, protocol = b ! 9, ip_sum = get16 b 10,
     src_ip = get32 b 12, dest_ip = get32 b 16\<rparr>"

definition enc_icmp :: "icmp_header \<Rightarrow> bytes" where
  "enc_icmp h = [icmp_type h, icmp_code h] @ le16 (icmp_sum h) @ le16 (icmp_id h) @ le16 (icmp_seq h)"

definition dec_icmp :: "bytes \<Rightarrow> icmp_header" where
  "dec_icmp b = \<lparr>icmp_type = b ! 0, icmp_code = b ! 1, icmp_sum = get16 b 2, icmp_id = get16 b 4,
     icmp_seq = get16 b 6\<rparr>"

definition enc_udp :: "udp_header \<Rightarrow> bytes" where
  "enc_udp h = le16 (src_port h) @ le16 (dest_port h) @ le16 (udp_length h) @ le16 (udp_sum h)"

definition dec_udp :: "bytes \<Rightarrow> udp_header" where
  "dec_udp b = \<lparr>src_port = get16 b 0, dest_port = get16 b 2, udp_length = get16 b 4, udp_sum = get16 b 6\<rparr>"

definition enc_arp :: "arp_packet \<Rightarrow> bytes" where
  "enc_arp p = le16 (htype p) @ le16 (ptype p) @ [hlen p, plen p] @ le16 (oper p) @ sha p @ le32 (spa p)
     @ tha p @ le32 (tpa p)"

definition dec_arp :: "bytes \<Rightarrow> arp_packet" where
  "dec_arp b = \<lparr>htype = get16 b 0, ptype = get16 b 2, hlen = b ! 4, plen = b ! 5, oper = get16 b 6,
     sha = take 6 (drop 8 b), spa = get32 b 14, tha = take 6 (drop 18 b), tpa = get32 b 24\<rparr>"

definition enc_dns :: "dns_header \<Rightarrow> bytes" where
  "enc_dns h = le16 (dns_id h) @ le16 (dns_flags h) @ le16 (qdcount h) @ le16 (ancount h)
     @ le16 (nscount h) @ le16 (arcount h)"

definition dec_dns :: "bytes \<Rightarrow> dns_header" where
  "dec_dns b = \<lparr>dns_id = get16 b 0, dns_flags = get16 b 2, qdcount = get16 b 4, ancount = get16 b 6,
     nscount = get16 b 8, arcount = get16 b 10\<rparr>"

section \<open>The internet checksum\<close>

text \<open>The loop over the 16-bit words, read as the machine reads them, and the odd last byte.\<close>

fun checksum_sum :: "bytes \<Rightarrow> u32 \<Rightarrow> u32" where
  "checksum_sum [] acc = acc"
| "checksum_sum [a] acc = acc + ucast a"
| "checksum_sum (a # b # r) acc = checksum_sum r (acc + ucast (get16 [a, b] 0))"

lemma unat_low16: "unat (s AND 0xFFFF :: u32) = unat s mod 65536"
proof -
  have "unat (take_bit 16 s) = unat s mod 65536" by (simp add: take_bit_eq_mod unat_mod)
  moreover have "s AND 0xFFFF = take_bit 16 s" by (simp add: take_bit_eq_mask mask_eq_exp_minus_1)
  ultimately show ?thesis by (simp only:)
qed

lemma unat_high16: "unat (drop_bit 16 s :: u32) = unat s div 65536"
  by (simp add: drop_bit_eq_div unat_div)

lemma unat_fold_step: "unat ((s AND 0xFFFF) + drop_bit 16 s :: u32) = unat s mod 65536 + unat s div 65536"
proof -
  have "unat s < 2 ^ 32" using unsigned_less[where 'a = nat, of s] by simp
  then have "unat s mod 65536 + unat s div 65536 < 2 ^ 32" by (auto simp: less_mult_imp_div_less
        intro: order.strict_trans1[of _ "65535 + unat s div 65536"])
  then show ?thesis by (simp add: unat_word_ariths(1) unat_low16 unat_high16)
qed

lemma mod_plus_div_less:
  assumes "(n :: nat) div k \<noteq> 0" "1 < k"
  shows "n mod k + n div k < n"
proof -
  have "n div k * 1 < n div k * k" using assms by (intro mult_strict_left_mono) auto
  moreover have "n = n div k * k + n mod k" by simp
  ultimately show ?thesis by linarith
qed

function fold_carry :: "u32 \<Rightarrow> u32" where
  "fold_carry s =
     (if drop_bit 16 s = 0 then s else fold_carry ((s AND 0xFFFF) + drop_bit 16 s))"
  by pat_completeness auto
termination
proof (relation "measure unat", goal_cases)
  case (2 s)
  then have "unat s div 65536 \<noteq> 0" by (metis unat_high16 unat_eq_zero)
  then have "unat s mod 65536 + unat s div 65536 < unat s" by (rule mod_plus_div_less) simp
  then show ?case by (simp only: in_measure unat_fold_step)
qed simp

declare fold_carry.simps [simp del]

definition ip_checksum :: "bytes \<Rightarrow> u16 \<Rightarrow> u16 option" where
  "ip_checksum data n = (if length data < unat n then None
     else Some (ucast (NOT (fold_carry (checksum_sum (take (unat n) data) 0)))))"

section \<open>Lemmas: byte order\<close>

lemma byte_masks:
  "bit (0xFF :: u16) i \<longleftrightarrow> i < 8" "bit (0xFF00 :: u16) i \<longleftrightarrow> 8 \<le> i \<and> i < 16"
  "bit (0xFF :: u32) i \<longleftrightarrow> i < 8" "bit (0xFF00 :: u32) i \<longleftrightarrow> 8 \<le> i \<and> i < 16"
  "bit (0xFF0000 :: u32) i \<longleftrightarrow> 16 \<le> i \<and> i < 24" "bit (0xFF000000 :: u32) i \<longleftrightarrow> 24 \<le> i \<and> i < 32"
proof -
  have m: "0xFF = (mask 8 :: u16)" "0xFF00 = (push_bit 8 (mask 8) :: u16)" 
    "0xFF = (mask 8 :: u32)" "0xFF00 = (push_bit 8 (mask 8) :: u32)"
    "0xFF0000 = (push_bit 16 (mask 8) :: u32)" "0xFF000000 = (push_bit 24 (mask 8) :: u32)"
    by (simp_all add: mask_eq_exp_minus_1)
  show "bit (0xFF :: u16) i \<longleftrightarrow> i < 8" "bit (0xFF00 :: u16) i \<longleftrightarrow> 8 \<le> i \<and> i < 16"
  "bit (0xFF :: u32) i \<longleftrightarrow> i < 8" "bit (0xFF00 :: u32) i \<longleftrightarrow> 8 \<le> i \<and> i < 16"
  "bit (0xFF0000 :: u32) i \<longleftrightarrow> 16 \<le> i \<and> i < 24" "bit (0xFF000000 :: u32) i \<longleftrightarrow> 24 \<le> i \<and> i < 32"
    unfolding m by (auto simp only: bit_push_bit_iff bit_mask_iff) simp_all
qed

lemma bit_htons: "bit (htons n) i \<longleftrightarrow> i < 16 \<and> bit n (if i < 8 then i + 8 else i - 8)"
  unfolding htons_def 
  by (simp only: bit_or_iff bit_push_bit_iff bit_drop_bit_eq bit_and_iff byte_masks o_def)
    (auto simp: add.commute[of i])
lemma bit_htonl:
  "bit (htonl n) i \<longleftrightarrow> i < 32 \<and> bit n (if i < 8 then i + 24 else if i < 16 then i + 8 else if i < 24 then i - 8 else i - 24)"
  unfolding htonl_def 
  by (simp only: bit_or_iff bit_push_bit_iff bit_drop_bit_eq bit_and_iff byte_masks o_def)
    (auto simp: add.commute[of i])
lemma htons_htons [simp]: "htons (htons n) = n"
  by (rule bit_word_eqI) (auto simp: bit_htons)
lemma htonl_htonl [simp]: "htonl (htonl n) = n"
  by (rule bit_word_eqI) (auto simp: bit_htonl)

section \<open>Lemmas: headers\<close>

lemma join16: "ucast (ucast w :: u8) OR push_bit 8 (ucast (ucast (drop_bit 8 w) :: u8)) = (w :: u16)"
  using get16_le16[of w "[]"] by (simp add: get16_def le16_def)

lemma join32: "ucast (ucast w :: u8) OR push_bit 8 (ucast (ucast (drop_bit 8 w) :: u8))
    OR push_bit 16 (ucast (ucast (drop_bit 16 w) :: u8)) OR push_bit 24 (ucast (ucast (drop_bit 24 w) :: u8)) = (w :: u32)"
  using get32_le32[of w "[]"] by (simp add: get32_def le32_def)

lemmas bytes_simps = get16_def get32_def le16_def le32_def join16 join32

lemma length_enc [simp]:
  "length (enc_ip h) = 20" "length (enc_icmp i) = 8" "length (enc_udp u) = 8" "length (enc_dns d) = 12"
  by (simp_all add: enc_ip_def enc_icmp_def enc_udp_def enc_dns_def)

lemma length_enc_eth: "length (eth_dest h) = 6 \<Longrightarrow> length (eth_src h) = 6 \<Longrightarrow> length (enc_eth h) = 14"
  by (simp add: enc_eth_def)

lemma length_enc_arp: "length (sha p) = 6 \<Longrightarrow> length (tha p) = 6 \<Longrightarrow> length (enc_arp p) = 28"
  by (simp add: enc_arp_def)

lemma dec_enc_ip: "dec_ip (enc_ip h @ r) = h"
  by (simp add: dec_ip_def enc_ip_def bytes_simps)

lemma dec_enc_icmp: "dec_icmp (enc_icmp h @ r) = h"
  by (simp add: dec_icmp_def enc_icmp_def bytes_simps)

lemma dec_enc_udp: "dec_udp (enc_udp h @ r) = h"
  by (simp add: dec_udp_def enc_udp_def bytes_simps)

lemma dec_enc_dns: "dec_dns (enc_dns h @ r) = h"
  by (simp add: dec_dns_def enc_dns_def bytes_simps)

lemma dec_enc_eth: "length (eth_dest h) = 6 \<Longrightarrow> length (eth_src h) = 6 \<Longrightarrow> dec_eth (enc_eth h @ r) = h"
  by (simp add: dec_eth_def enc_eth_def bytes_simps nth_append)

lemma dec_enc_arp: "length (sha p) = 6 \<Longrightarrow> length (tha p) = 6 \<Longrightarrow> dec_arp (enc_arp p @ r) = p"
  by (simp add: dec_arp_def enc_arp_def bytes_simps nth_append)

section \<open>Lemmas: the checksum\<close>

text \<open>The sum of the words as a number; the checksum is about its value modulo 65535.\<close>

fun word_total :: "bytes \<Rightarrow> nat" where
  "word_total [] = 0"
| "word_total [a] = unat a"
| "word_total (a # b # r) = unat a + 256 * unat b + word_total r"

lemma unat_byte [simp]: "unat (ucast (b :: u8) :: u16) = unat b" "unat (ucast (b :: u8) :: u32) = unat b"
  using unsigned_less[where 'a = nat, of b] by (simp_all add: unsigned_ucast_eq take_bit_nat_eq_self)

lemma unat_word16 [simp]: "unat (ucast (w :: u16) :: u32) = unat w"
  using unsigned_less[where 'a = nat, of w] by (simp add: unsigned_ucast_eq take_bit_nat_eq_self)

lemma unat_nat16: "k < 65536 \<Longrightarrow> unat (of_nat k :: u16) = k"
  by (simp add: unsigned_of_nat take_bit_nat_eq_self)

lemma unat_get16: "unat (get16 [a, b] 0) = unat a + 256 * unat b"
proof -
  have "get16 [a, b] 0 = ucast a + push_bit 8 (ucast b)"
    by (subst disjunctive_add) (auto simp: get16_def bit_simps dest: bit_imp_le_length)
  moreover have "unat a < 256" "unat b < 256" using unsigned_less[where 'a = nat, of a] unsigned_less[where 'a = nat, of b] by simp_all
  ultimately show ?thesis by (simp add: push_bit_eq_mult unat_word_ariths mult.commute)
qed

lemma word_total_bound: "2 * word_total b \<le> 65535 * (length b + 1)"
proof (induction b rule: word_total.induct)
  case (2 a)
  then show ?case using unsigned_less[where 'a = nat, of a] by simp
next
  case (3 a b r)
  then show ?case using unsigned_less[where 'a = nat, of a] unsigned_less[where 'a = nat, of b] by simp
qed simp

lemma unat_checksum_sum:
  "unat acc + word_total b < 2 ^ 32 \<Longrightarrow> unat (checksum_sum b acc) = unat acc + word_total b"
proof (induction b acc rule: checksum_sum.induct)
  case (2 a acc)
  then show ?case by (simp add: unat_word_ariths)
next
  case (3 a b r acc)
  have "unat (acc + ucast (get16 [a, b] 0)) = unat acc + unat a + 256 * unat b"
    using 3(2) by (simp add: unat_word_ariths unat_get16)
  with 3 show ?case by simp
qed simp

lemma fold_carry_spec:
  "unat (fold_carry s) < 65536 \<and> unat (fold_carry s) mod 65535 = unat s mod 65535 \<and>
   (unat (fold_carry s) = 0 \<longleftrightarrow> unat s = 0)"
proof (induction s rule: fold_carry.induct)
  case (1 s)
  let ?t = "(s AND 0xFFFF) + drop_bit 16 s"
  show ?case
  proof (cases "drop_bit 16 s = 0")
    case True
    then have "unat s div 65536 = 0" by (metis unat_high16 unat_eq_zero)
    with True show ?thesis by (subst (1 2 3) fold_carry.simps) auto
  next
    case False
    then have "fold_carry s = fold_carry ?t" by (subst fold_carry.simps) simp
    moreover have "unat ?t mod 65535 = unat s mod 65535"
    proof -
      have "unat s = unat s div 65536 * 65535 + unat ?t" unfolding unat_fold_step by simp
      then show ?thesis by (metis mod_mult_self3)
    qed
    moreover have "unat ?t = 0 \<longleftrightarrow> unat s = 0" unfolding unat_fold_step
      by (metis add_is_0 div_0 mod_0 mod_div_trivial mult_div_mod_eq mult_0_right)
    ultimately show ?thesis using 1[OF False] by simp
  qed
qed

lemma unat_not16: "unat (NOT w :: u16) = 65535 - unat w"
proof -
  have "w \<le> -1" by (rule word_n1_ge)
  then have "unat (-1 - w) = unat (-1 :: u16) - unat w" by (simp only: unat_sub word_le_nat_alt)
  moreover have "NOT w = -1 - w" "unat (-1 :: u16) = 65535"
    by (simp_all add: not_eq_complement unsigned_minus_1_eq_mask mask_eq_exp_minus_1)
  ultimately show ?thesis by (simp only:)
qed

lemma ucast_not: "ucast (NOT (x :: u32)) = (NOT (ucast x) :: u16)"
  by (rule bit_word_eqI) (simp add: bit_simps)

text \<open>The checksum complements the sum modulo 65535, and 65535 stands for an empty sum only.\<close>

lemma ip_checksum_spec:
  assumes "ip_checksum d n = Some c"
  shows "(unat c + word_total (take (unat n) d)) mod 65535 = 0"
    "unat c = 65535 \<longleftrightarrow> word_total (take (unat n) d) = 0"
proof -
  let ?T = "word_total (take (unat n) d)"
  define F where "F = fold_carry (checksum_sum (take (unat n) d) 0)"
  have "2 * ?T \<le> 65535 * (unat n + 1)" using word_total_bound[of "take (unat n) d"]
    by (rule order_trans) (simp add: mult_le_mono)
  then have "?T < 2 ^ 32" using unsigned_less[where 'a = nat, of n] by simp
  then have T: "unat (checksum_sum (take (unat n) d) 0) = ?T" by (simp add: unat_checksum_sum)
  have F: "unat F < 65536" "unat F mod 65535 = ?T mod 65535" "unat F = 0 \<longleftrightarrow> ?T = 0"
    using fold_carry_spec[of "checksum_sum (take (unat n) d) 0"] unfolding T F_def[symmetric] by auto
  have "c = NOT (ucast F)" using assms by (simp add: ip_checksum_def F_def ucast_not split: if_splits)
  moreover have "unat (ucast F :: u16) = unat F" using F(1) by (simp add: unsigned_ucast_eq take_bit_nat_eq_self)
  ultimately have c: "unat c = 65535 - unat F" by (simp add: unat_not16)
  have "(unat c + ?T) mod 65535 = (unat c + unat F) mod 65535" using F(2) by (metis mod_add_right_eq)
  then show "(unat c + ?T) mod 65535 = 0" using c F(1) by simp
  show "unat c = 65535 \<longleftrightarrow> ?T = 0" using c F(1,3) by auto
qed

lemma ip_checksum_defined: "unat n \<le> length d \<Longrightarrow> \<exists>c. ip_checksum d n = Some c"
  by (simp add: ip_checksum_def)

lemma ip_checksum_zero:
  assumes "unat n \<le> length d"
  shows "ip_checksum d n = Some 0 \<longleftrightarrow>
    word_total (take (unat n) d) mod 65535 = 0 \<and> word_total (take (unat n) d) \<noteq> 0"
proof -
  obtain c where c: "ip_checksum d n = Some c" using ip_checksum_defined[OF assms] by blast
  let ?T = "word_total (take (unat n) d)"
  note s = ip_checksum_spec[OF c]
  have lt: "unat c < 65536" using unsigned_less[where 'a = nat, of c] by simp
  have "unat c = 0 \<longleftrightarrow> ?T mod 65535 = 0 \<and> ?T \<noteq> 0"
  proof
    assume "unat c = 0"
    with s show "?T mod 65535 = 0 \<and> ?T \<noteq> 0" by auto
  next
    assume a: "?T mod 65535 = 0 \<and> ?T \<noteq> 0"
    with s(1) have "unat c mod 65535 = 0" by (metis add.right_neutral mod_add_right_eq)
    with lt s(2) a show "unat c = 0" by (cases "unat c = 65535") auto
  qed
  then show ?thesis using c by (simp add: unat_eq_zero)
qed

lemma word_total_append: "even (length p) \<Longrightarrow> word_total (p @ q) = word_total p + word_total q"
  by (induction p rule: word_total.induct) auto

lemma word_total_le16: "word_total (le16 w) = unat w"
  using unat_get16[of "ucast w" "ucast (drop_bit 8 w)"] get16_le16[of w "[]"] by (simp add: le16_def)

lemma unat_htons: "unat (htons n) = unat n div 256 + 256 * (unat n mod 256)"
proof -
  have "le16 n = [ucast n, ucast (drop_bit 8 n)]" by (simp add: le16_def)
  moreover have "le16 (htons n) = [ucast (drop_bit 8 n), ucast n]"
    unfolding le16_def by (auto intro!: bit_word_eqI simp: bit_simps bit_htons add.commute[of 8])
  ultimately have "unat (htons n) = unat (ucast (drop_bit 8 n) :: u8) + 256 * unat (ucast n :: u8)"
    using word_total_le16[of "htons n"] by simp
  moreover have "unat n < 65536" using unsigned_less[where 'a = nat, of n] by simp
  ultimately show ?thesis
    by (simp add: unsigned_ucast_eq take_bit_eq_mod drop_bit_eq_div unat_div less_mult_imp_div_less)
qed

lemma htons_cong: "unat (htons c) mod 65535 = unat c mod 65535 \<longleftrightarrow> htons c = c"
proof
  assume a: "unat (htons c) mod 65535 = unat c mod 65535"
  show "htons c = c"
  proof (cases "unat c = 0 \<or> unat c = 65535")
    case True
    then have "unat (htons c) = unat c" by (auto simp: unat_htons)
    then show ?thesis by (simp only: word_unat_eq_iff)
  next
    case False
    then have "unat (htons c) \<noteq> 0 \<and> unat (htons c) \<noteq> 65535"
      using htons_htons[of c] unat_htons[of "htons c"] by auto
    then have "unat (htons c) < 65535" "unat c < 65535"
      using False unsigned_less[where 'a = nat, of c] unsigned_less[where 'a = nat, of "htons c"] by auto
    with a have "unat (htons c) = unat c" by simp
    then show ?thesis by (simp only: word_unat_eq_iff)
  qed
qed simp

text \<open>A word stored in a zero field of checksummed data verifies if it is the checksum modulo 65535.\<close>

lemma checksum_field:
  assumes "even (length p)" "length p + 2 \<le> unat n" "unat n \<le> length p + 2 + length r"
    and "ip_checksum (p @ le16 0 @ r) n = Some c"
  shows "ip_checksum (p @ le16 w @ r) n = Some 0 \<longleftrightarrow>
    unat w mod 65535 = unat c mod 65535 \<and> \<not> (c = 65535 \<and> w = 0)"
proof -
  let ?q = "take (unat n - (length p + 2)) r"
  let ?T = "word_total p + word_total ?q"
  have tot: "word_total (take (unat n) (p @ le16 x @ r)) = ?T + unat x" for x
  proof -
    have "take (unat n) (p @ le16 x @ r) = p @ le16 x @ ?q" using assms(2) by simp
    moreover have "word_total (le16 x @ ?q) = unat x + word_total ?q"
      by (simp add: word_total_append word_total_le16)
    ultimately show ?thesis by (simp only: word_total_append[OF assms(1)])
  qed
  have s: "(unat c + ?T) mod 65535 = 0" "unat c = 65535 \<longleftrightarrow> ?T = 0"
    using ip_checksum_spec[OF assms(4)] unfolding tot by simp_all
  have "ip_checksum (p @ le16 w @ r) n = Some 0 \<longleftrightarrow> (?T + unat w) mod 65535 = 0 \<and> ?T + unat w \<noteq> 0"
    using ip_checksum_zero[of n "p @ le16 w @ r"] assms(3) unfolding tot by simp
  moreover have "(?T + unat w) mod 65535 = 0 \<longleftrightarrow> unat w mod 65535 = unat c mod 65535"
  proof -
    have "(?T + unat w) mod 65535 = 0 \<longleftrightarrow> (?T + unat w) mod 65535 = (?T + unat c) mod 65535"
      using s(1) by (simp add: add.commute)
    also have "\<dots> \<longleftrightarrow> unat w mod 65535 = unat c mod 65535"
      by (simp add: nat_mod_eq_iff)
    finally show ?thesis .
  qed
  moreover have "?T = 0 \<longleftrightarrow> c = 65535" using s(2) by (simp add: word_unat_eq_iff)
  ultimately show ?thesis by (auto simp: unat_eq_zero)
qed

end
