(* ===== verification/NetDev.thy ===== *)
theory NetDev
  imports NetWire
begin

text \<open>
  The state of the network stack, the RTL8139 driver of \<open>drivers/network.c\<close>, and the sending side
  of \<open>net/ethernet.c\<close>.

  The state is one record: the static variables of all files, and the outside. Of the card the
  driver sees the command register and the receive buffer, which the card fills; \<open>polls\<close> lists
  what the next polls will see (an exhausted list means a silent card, whose command register
  reports an empty buffer). Towards the card, \<open>outs\<close> is the log of the port writes and \<open>sent\<close> the
  frames transmitted: a write to the status register of descriptor \<open>n\<close> makes the card send that
  many bytes of the transmit buffer. Busy waiting has no effect on the state and is left out; the
  wait for a finished transmission is taken to end.
  A local buffer of a function is uninitialised: \<open>stack_rx\<close> is what a local \<open>rx_buffer\<close> holds
  before the driver writes to it.
\<close>

section \<open>State\<close>

record arp_entry =
  ae_ip :: u32
  ae_mac :: bytes
  ae_time :: u32
  ae_valid :: u8

record ping_state =
  ps_ip :: u32
  ps_seq :: u16
  ps_time :: u32
  ps_received :: bool

text \<open>The functions that are registered as \<open>udp_callback_t\<close>.\<close>

datatype udp_callback = Dns_response_handler | Ntp_response_handler

record udp_handler =
  uh_port :: u16
  uh_callback :: "udp_callback option"

datatype io_event = Outb u16 u8 | Outw u16 u16 | Outl u16 u32 | Out_rx_buffer u16 | Out_tx_buffer u16

record card_poll =
  cp_cmd :: u8
  cp_ring :: bytes

record net =
  io_base :: u32
  mac_address :: bytes
  ip_address :: u32
  initialized :: bool
  rx_buffer :: bytes
  tx_buffer :: bytes
  rx_offset :: u16
  tx_port :: nat
  local_mac :: bytes
  arp_cache :: "arp_entry list"
  arp_timer :: u32
  ip_id_counter :: u16
  ping_states :: "ping_state list"
  icmp_timer :: u32
  udp_handlers :: "udp_handler list"
  dns_server :: u32
  resolved_ip :: u32
  resolution_complete :: bool
  dns_transaction_id :: u16
  ntp_server :: u32
  synced_timestamp :: u32
  sync_complete :: bool
  polls :: "card_poll list"
  outs :: "io_event list"
  sent :: "(nat \<times> bytes) list"
  stack_rx :: bytes

section \<open>\<open>drivers/network.c\<close>\<close>

definition port :: "net \<Rightarrow> u32 \<Rightarrow> u16" where
  "port st reg = ucast (io_base st + reg)"

definition log :: "io_event list \<Rightarrow> net \<Rightarrow> net" where
  "log es st = st\<lparr>outs := outs st @ es\<rparr>"

text \<open>
  \<open>cmds\<close> lists what the command register will read while the card resets; \<open>None\<close> is a reset that
  never ends. \<open>idr\<close> is what the six bytes of the address register \<open>IDR0\<close> read.
\<close>

fun reset_ends :: "bytes \<Rightarrow> bool" where
  "reset_ends [] = False"
| "reset_ends (c # cmds) = (if c AND 0x10 \<noteq> 0 then reset_ends cmds else True)"

definition rtl8139_reset :: "bytes \<Rightarrow> net \<Rightarrow> net option" where
  "rtl8139_reset cmds st = (if reset_ends cmds then Some (log [Outb (port st 0x37) 0x10] st) else None)"

definition rtl8139_init :: "u32 \<Rightarrow> bytes \<Rightarrow> bytes \<Rightarrow> net \<Rightarrow> net option" where
  "rtl8139_init bar0 cmds idr st = do {
     st1 \<leftarrow> rtl8139_reset cmds (st\<lparr>io_base := bar0 AND NOT 3\<rparr>);
     Some (log [Out_rx_buffer (port st1 0x30), Outw (port st1 0x3C) 0x0005,
          Outl (port st1 0x44) 0x0000070F, Outl (port st1 0x40) 0x03000000, Outb (port st1 0x37) (0x08 OR 0x04)]
       (st1\<lparr>mac_address := take 6 idr, rx_offset := 0, initialized := True\<rparr>)) }"

definition network_send_packet :: "bytes \<Rightarrow> u16 \<Rightarrow> net \<Rightarrow> net option" where
  "network_send_packet data n st =
     (if \<not> initialized st \<or> 2048 < n then Some st
      else if length data < unat n then None
      else let tx1 = take (unat n) data @ drop (unat n) (tx_buffer st);
               tx2 = (if n < 60 then take (unat n) tx1 @ replicate (60 - unat n) 0 @ drop 60 tx1 else tx1);
               n2 = (if n < 60 then 60 else n);
               status_port = port st (0x10 + of_nat (tx_port st) * 4);
               addr_port = port st (0x20 + of_nat (tx_port st) * 4);
               st1 = log [Out_tx_buffer addr_port, Outl status_port (ucast n2 AND 0x1FFF)] st
           in Some (st1\<lparr>tx_buffer := tx2, sent := sent st @ [(tx_port st, take (unat n2) tx2)],
                        tx_port := (tx_port st + 1) mod 4\<rparr>))"

text \<open>\<open>(rx_offset + length + 4 + 3) & ~3\<close>, and the wrap at 8192.\<close>

definition rx_advance :: "u16 \<Rightarrow> u16 \<Rightarrow> u16" where
  "rx_advance off n = (let o1 = (off + n + 4 + 3) AND NOT 3 in if 8192 \<le> o1 then o1 - 8192 else o1)"

text \<open>\<open>inb(io_base + RTL8139_CMD)\<close>: the card is read, and has filled the buffer up to then.\<close>

definition poll_card :: "net \<Rightarrow> u8 \<times> net" where
  "poll_card st = (case polls st of
       [] \<Rightarrow> (1, st)
     | p # ps \<Rightarrow> (cp_cmd p, st\<lparr>polls := ps, rx_buffer := cp_ring p\<rparr>))"

definition network_receive_packet :: "bytes \<Rightarrow> u16 \<Rightarrow> net \<Rightarrow> (int \<times> bytes \<times> net) option" where
  "network_receive_packet buf max_length st =
     (if \<not> initialized st then Some (-1, buf, st)
      else let (cmd, st1) = poll_card st in
        if cmd AND 1 \<noteq> 0 then Some (0, buf, st1)
        else let off = unat (rx_offset st1); rx = rx_buffer st1 in
          if length rx < off + 4 then None
          else let status = get16 rx off; n = get16 rx (off + 2) in
            if status AND 1 = 0 then
              Some (-1, buf, log [Outb (port st1 0x37) 0x0C, Out_rx_buffer (port st1 0x30),
                Outb (port st1 0x37) (0x08 OR 0x04)] (st1\<lparr>rx_offset := 0\<rparr>))
            else if n < 60 \<or> 1518 < n then
              (let o1 = rx_advance (rx_offset st1) n in
               Some (0, buf, log [Outw (port st1 0x38) (o1 - 0x10)] (st1\<lparr>rx_offset := o1\<rparr>)))
            else let n1 = n - 4; n2 = (if max_length < n1 then max_length else n1) in
              if length rx < off + 4 + unat n2 \<or> length buf < unat n2 then None
              else let o1 = rx_advance (rx_offset st1) n2 in
                Some (int (unat n2), take (unat n2) (drop (off + 4) rx) @ drop (unat n2) buf,
                  log [Outw (port st1 0x38) (o1 - 0x10)] (st1\<lparr>rx_offset := o1\<rparr>)))"

record network_info =
  ni_mac :: bytes
  ni_ip :: u32
  ni_link_up :: bool
  ni_dhcp_configured :: bool

definition network_get_info :: "net \<Rightarrow> network_info" where
  "network_get_info st = \<lparr>ni_mac = mac_address st, ni_ip = ip_address st, ni_link_up = initialized st,
     ni_dhcp_configured = (ip_address st \<noteq> 0)\<rparr>"

definition network_set_mac :: "bytes \<Rightarrow> net \<Rightarrow> net option" where
  "network_set_mac mac st = (if length mac < 6 then None else Some (st\<lparr>mac_address := take 6 mac\<rparr>))"

text \<open>The accessors copy to the caller's buffer; here they return what they copy.\<close>

definition network_get_mac :: "net \<Rightarrow> bytes" where
  "network_get_mac st = take 6 (mac_address st)"

definition network_get_ip :: "net \<Rightarrow> u32" where
  "network_get_ip st = ip_address st"

definition network_set_ip :: "u32 \<Rightarrow> net \<Rightarrow> net" where
  "network_set_ip ip st = st\<lparr>ip_address := ip\<rparr>"

section \<open>\<open>net/ethernet.c\<close>: sending\<close>

definition eth_init :: "net \<Rightarrow> net" where
  "eth_init st = st\<lparr>local_mac := network_get_mac st\<rparr>"

definition eth_get_mac :: "net \<Rightarrow> bytes" where
  "eth_get_mac st = take 6 (local_mac st)"

text \<open>The bytes of \<open>frame\<close> up to \<open>frame_length\<close>; the rest of the array is never read.\<close>

definition eth_frame :: "bytes \<Rightarrow> bytes \<Rightarrow> u16 \<Rightarrow> bytes \<Rightarrow> bytes" where
  "eth_frame dest src ty payload =
     (let f = enc_eth \<lparr>eth_dest = dest, eth_src = src, eth_type = htons ty\<rparr> @ payload
      in f @ replicate (60 - length f) 0)"

definition eth_send_frame :: "bytes \<Rightarrow> u16 \<Rightarrow> bytes \<Rightarrow> u16 \<Rightarrow> net \<Rightarrow> net option" where
  "eth_send_frame dest_mac ty data n st =
     (if 1500 < n then Some st
      else if length dest_mac < 6 \<or> length data < unat n then None
      else let frame = eth_frame (take 6 dest_mac) (local_mac st) ty (take (unat n) data);
               frame_length = 14 + n;
               frame_length2 = (if frame_length < 60 then 60 else frame_length)
           in network_send_packet frame frame_length2 st)"

end
