(* ===== verification/NetArp.thy ===== *)
theory NetArp
  imports NetDev
begin

text \<open>
  \<open>net/arp.c\<close>: the cache that maps addresses to hardware addresses, requests and replies. The cache
  refines a finite map with a replacement policy: \<open>arp_view\<close> is the map, and the lemmas say what
  adding an entry does to it. The locale \<open>addr_table\<close> is the contract the sender relies on.
\<close>

section \<open>The cache\<close>

definition arp_init :: "net \<Rightarrow> net" where
  "arp_init st = st\<lparr>arp_cache := map (\<lambda>e. e\<lparr>ae_valid := 0\<rparr>) (arp_cache st), arp_timer := 0\<rparr>"

text \<open>
  The loop of \<open>arp_add_entry\<close> from index \<open>i\<close>: whether the address was found, and the index to
  write to, with the oldest entry seen so far.
\<close>

fun arp_scan :: "u32 \<Rightarrow> arp_entry list \<Rightarrow> nat \<Rightarrow> nat \<Rightarrow> u32 \<Rightarrow> bool \<times> nat" where
  "arp_scan ip [] i oldest_index oldest_time = (False, oldest_index)"
| "arp_scan ip (e # es) i oldest_index oldest_time =
     (if ae_valid e \<noteq> 0 \<and> ae_ip e = ip then (True, i)
      else if ae_valid e = 0 then (False, i)
      else if ae_time e < oldest_time then arp_scan ip es (Suc i) i (ae_time e)
      else arp_scan ip es (Suc i) oldest_index oldest_time)"

text \<open>\<open>mac\<close> has the six bytes the code copies.\<close>

definition arp_add_entry :: "u32 \<Rightarrow> bytes \<Rightarrow> net \<Rightarrow> net" where
  "arp_add_entry ip mac st =
     (case arp_scan ip (arp_cache st) 0 0 0xFFFFFFFF of
        (True, i) \<Rightarrow> st\<lparr>arp_cache := (arp_cache st)
            [i := (arp_cache st ! i)\<lparr>ae_mac := take 6 mac, ae_time := arp_timer st\<rparr>]\<rparr>
      | (False, i) \<Rightarrow> st\<lparr>arp_cache := (arp_cache st)
            [i := \<lparr>ae_ip = ip, ae_mac = take 6 mac, ae_time = arp_timer st, ae_valid = 1\<rparr>]\<rparr>)"

text \<open>The address copied to \<open>mac\<close>, or \<open>None\<close> when the function returns 0.\<close>

definition arp_resolve :: "u32 \<Rightarrow> net \<Rightarrow> bytes option" where
  "arp_resolve ip st =
     map_option ae_mac (find (\<lambda>e. ae_valid e \<noteq> 0 \<and> ae_ip e = ip) (arp_cache st))"

section \<open>Requests and replies\<close>

definition arp_message :: "u16 \<Rightarrow> bytes \<Rightarrow> u32 \<Rightarrow> bytes \<Rightarrow> u32 \<Rightarrow> arp_packet" where
  "arp_message operation smac sip tmac tip =
     \<lparr>htype = htons 1, ptype = htons 0x0800, hlen = 6, plen = 4, oper = htons operation,
      sha = smac, spa = sip, tha = tmac, tpa = tip\<rparr>"

definition arp_send_request :: "u32 \<Rightarrow> net \<Rightarrow> net option" where
  "arp_send_request target_ip st =
     eth_send_frame (replicate 6 0xFF) 0x0806
       (enc_arp (arp_message 1 (local_mac st) (htonl (ip_address st)) (replicate 6 0) (htonl target_ip)))
       28 st"

definition arp_receive :: "bytes \<Rightarrow> u16 \<Rightarrow> net \<Rightarrow> net option" where
  "arp_receive data n st =
     (if n < 28 then Some st
      else if length data < 28 then None
      else let arp = dec_arp data in
        if ntohs (htype arp) \<noteq> 1 \<or> ntohs (ptype arp) \<noteq> 0x0800 then Some st
        else let sender_ip = ntohl (spa arp); target_ip = ntohl (tpa arp); local_ip = ip_address st;
                 st1 = arp_add_entry sender_ip (sha arp) st
             in if ntohs (oper arp) = 1 \<and> target_ip = local_ip
                then eth_send_frame (sha arp) 0x0806
                  (enc_arp (arp_message 2 (local_mac st1) (htonl local_ip) (sha arp) (spa arp))) 28 st1
                else Some st1)"

section \<open>Lemmas: the cache as a map\<close>

text \<open>
  The entries in use come first, with distinct addresses, and no entry is younger than the clock
  or stamped with the initial value of the search for the oldest.
\<close>

definition arp_ok :: "net \<Rightarrow> bool" where
  "arp_ok st \<longleftrightarrow> length (arp_cache st) = 32 \<and>
     (\<forall>i j. i < j \<longrightarrow> j < 32 \<longrightarrow> ae_valid (arp_cache st ! j) \<noteq> 0 \<longrightarrow> ae_valid (arp_cache st ! i) \<noteq> 0) \<and>
     (\<forall>i j. i < 32 \<longrightarrow> j < 32 \<longrightarrow> ae_valid (arp_cache st ! i) \<noteq> 0 \<longrightarrow> ae_valid (arp_cache st ! j) \<noteq> 0 \<longrightarrow>
        ae_ip (arp_cache st ! i) = ae_ip (arp_cache st ! j) \<longrightarrow> i = j)"

lemma arp_scan_spec:
  assumes "arp_scan ip es i oi ot = (hit, k)"
  shows "(hit \<longrightarrow> i \<le> k \<and> k < i + length es \<and> ae_valid (es ! (k - i)) \<noteq> 0 \<and> ae_ip (es ! (k - i)) = ip) \<and>
    (\<not> hit \<longrightarrow> (k = oi \<or> i \<le> k \<and> k < i + length es) \<and>
      ((\<exists>j < length es. ae_valid (es ! j) = 0 \<and> k = i + j \<and>
          (\<forall>l < j. ae_valid (es ! l) \<noteq> 0 \<and> ae_ip (es ! l) \<noteq> ip)) \<or>
       (\<forall>e \<in> set es. ae_valid e \<noteq> 0 \<and> ae_ip e \<noteq> ip)))"
  using assms
proof (induction ip es i oi ot rule: arp_scan.induct)
  case (2 ip e es i oi ot)
  show ?case
  proof (cases "ae_valid e \<noteq> 0 \<and> ae_ip e = ip")
    case True
    with 2(3) show ?thesis by auto
  next
    case no: False
    show ?thesis
    proof (cases "ae_valid e = 0")
      case True
      with 2(3) show ?thesis by auto
    next
      case False
      define oi' where "oi' = (if ae_time e < ot then i else oi)"
      have step: "arp_scan ip es (Suc i) oi' (if ae_time e < ot then ae_time e else ot) = (hit, k)"
        using 2(3) no False by (simp add: oi'_def split: if_splits)
      have IH: "(hit \<longrightarrow> Suc i \<le> k \<and> k < Suc i + length es \<and> ae_valid (es ! (k - Suc i)) \<noteq> 0 \<and> ae_ip (es ! (k - Suc i)) = ip) \<and>
        (\<not> hit \<longrightarrow> (k = oi' \<or> Suc i \<le> k \<and> k < Suc i + length es) \<and>
        ((\<exists>j < length es. ae_valid (es ! j) = 0 \<and> k = Suc i + j \<and>
          (\<forall>l < j. ae_valid (es ! l) \<noteq> 0 \<and> ae_ip (es ! l) \<noteq> ip)) \<or>
         (\<forall>e \<in> set es. ae_valid e \<noteq> 0 \<and> ae_ip e \<noteq> ip)))"
        using 2(1,2)[OF no False] step by (cases "ae_time e < ot") (simp_all add: oi'_def)
      show ?thesis
      proof (cases hit)
        case True
        with IH have "k - i = Suc (k - Suc i)" by linarith
        with IH True show ?thesis by simp
      next
        case nh: False
        have "\<exists>j < length (e # es). ae_valid ((e # es) ! j) = 0 \<and> k = i + j \<and>
            (\<forall>l < j. ae_valid ((e # es) ! l) \<noteq> 0 \<and> ae_ip ((e # es) ! l) \<noteq> ip)"
          if "\<exists>j < length es. ae_valid (es ! j) = 0 \<and> k = Suc i + j \<and>
            (\<forall>l < j. ae_valid (es ! l) \<noteq> 0 \<and> ae_ip (es ! l) \<noteq> ip)"
        proof -
          from that obtain j where "j < length es" "ae_valid (es ! j) = 0" "k = Suc i + j"
            "\<forall>l < j. ae_valid (es ! l) \<noteq> 0 \<and> ae_ip (es ! l) \<noteq> ip" by blast
          then show ?thesis using no False by (intro exI[of _ "Suc j"]) (auto simp: less_Suc_eq_0_disj)
        qed
        with IH nh no False show ?thesis by (auto simp: oi'_def split: if_splits)
      qed
    qed
  qed
qed auto

lemma arp_okD:
  assumes "arp_ok st"
  shows "length (arp_cache st) = 32"
    and "\<And>i j. i < j \<Longrightarrow> j < 32 \<Longrightarrow> ae_valid (arp_cache st ! j) \<noteq> 0 \<Longrightarrow> ae_valid (arp_cache st ! i) \<noteq> 0"
    and "\<And>i j. i < 32 \<Longrightarrow> j < 32 \<Longrightarrow> ae_valid (arp_cache st ! i) \<noteq> 0 \<Longrightarrow> ae_valid (arp_cache st ! j) \<noteq> 0 \<Longrightarrow>
      ae_ip (arp_cache st ! i) = ae_ip (arp_cache st ! j) \<Longrightarrow> i = j"
  using assms unfolding arp_ok_def by blast+

lemma arp_resolve_iff:
  assumes "arp_ok st"
  shows "arp_resolve a st = Some m \<longleftrightarrow>
    (\<exists>i < 32. ae_valid (arp_cache st ! i) \<noteq> 0 \<and> ae_ip (arp_cache st ! i) = a \<and> ae_mac (arp_cache st ! i) = m)"
    (is "?l \<longleftrightarrow> ?r")
proof
  assume ?l
  then show ?r unfolding arp_resolve_def
    by (auto simp: find_Some_iff arp_okD(1)[OF assms])
next
  assume ?r
  then obtain i where i: "i < 32" "ae_valid (arp_cache st ! i) \<noteq> 0" "ae_ip (arp_cache st ! i) = a"
    "ae_mac (arp_cache st ! i) = m" by blast
  have "find (\<lambda>e. ae_valid e \<noteq> 0 \<and> ae_ip e = a) (arp_cache st) = Some (arp_cache st ! i)"
    unfolding find_Some_iff using i arp_okD(1,3)[OF assms]
    by (intro exI[of _ i]) (auto dest: less_trans)
  then show ?l using i by (simp add: arp_resolve_def)
qed

text \<open>Adding an entry writes one slot, and the address is in no other.\<close>

definition arp_writes :: "u32 \<Rightarrow> bytes \<Rightarrow> net \<Rightarrow> nat \<Rightarrow> arp_entry \<Rightarrow> bool" where
  "arp_writes ip mac st k e \<longleftrightarrow> k < 32 \<and> arp_add_entry ip mac st = st\<lparr>arp_cache := (arp_cache st)[k := e]\<rparr> \<and>
     ae_valid e \<noteq> 0 \<and> ae_ip e = ip \<and> ae_mac e = take 6 mac \<and> ae_time e = arp_timer st \<and>
     (\<forall>j < 32. j \<noteq> k \<longrightarrow> ae_valid (arp_cache st ! j) \<noteq> 0 \<longrightarrow> ae_ip (arp_cache st ! j) \<noteq> ip) \<and>
     (\<forall>i < k. ae_valid (arp_cache st ! i) \<noteq> 0) \<and>
     (ae_valid (arp_cache st ! k) \<noteq> 0 \<longrightarrow> ae_ip (arp_cache st ! k) \<noteq> ip \<longrightarrow>
        (\<forall>j < 32. ae_valid (arp_cache st ! j) \<noteq> 0))"

lemma arp_add_writes:
  assumes ok: "arp_ok st"
  obtains k e where "arp_writes ip mac st k e"
proof (cases "arp_scan ip (arp_cache st) 0 0 0xFFFFFFFF")
  case (Pair hit k)
  note len = arp_okD(1)[OF ok] and pre = arp_okD(2)[OF ok] and dist = arp_okD(3)[OF ok]
  note sp = arp_scan_spec[OF Pair]
  show ?thesis
  proof (cases hit)
    case True
    with sp len have k: "k < 32" "ae_valid (arp_cache st ! k) \<noteq> 0" "ae_ip (arp_cache st ! k) = ip" by auto
    let ?e = "(arp_cache st ! k)\<lparr>ae_mac := take 6 mac, ae_time := arp_timer st\<rparr>"
    have "arp_writes ip mac st k ?e"
      unfolding arp_writes_def using k True Pair pre dist by (auto simp: arp_add_entry_def)
    then show ?thesis by (rule that)
  next
    case nh: False
    let ?e = "\<lparr>ae_ip = ip, ae_mac = take 6 mac, ae_time = arp_timer st, ae_valid = 1\<rparr>"
    have add: "arp_add_entry ip mac st = st\<lparr>arp_cache := (arp_cache st)[k := ?e]\<rparr>"
      using Pair nh by (simp add: arp_add_entry_def)
    have k: "k < 32" using sp nh len by auto
    from sp nh consider
      (empty) "ae_valid (arp_cache st ! k) = 0" "\<forall>l < k. ae_valid (arp_cache st ! l) \<noteq> 0 \<and> ae_ip (arp_cache st ! l) \<noteq> ip"
    | (full) "\<forall>e \<in> set (arp_cache st). ae_valid e \<noteq> 0 \<and> ae_ip e \<noteq> ip" by auto
    then have "arp_writes ip mac st k ?e"
    proof cases
      case empty
      have "ae_ip (arp_cache st ! j) \<noteq> ip" if "j < 32" "j \<noteq> k" "ae_valid (arp_cache st ! j) \<noteq> 0" for j
      proof (cases "j < k")
        case False
        with that(2) have "k < j" by simp
        with pre[OF this that(1,3)] empty(1) show ?thesis by simp
      qed (use empty(2) in simp)
      then show ?thesis unfolding arp_writes_def using k add empty by auto
    next
      case full
      have "ae_valid (arp_cache st ! j) \<noteq> 0 \<and> ae_ip (arp_cache st ! j) \<noteq> ip" if "j < 32" for j
        using full len that by (metis nth_mem)
      then show ?thesis unfolding arp_writes_def using k add by auto
    qed
    then show ?thesis by (rule that)
  qed
qed

lemma arp_writes_ok:
  assumes ok: "arp_ok st" and w: "arp_writes ip mac st k e"
  shows "arp_ok (arp_add_entry ip mac st)"
proof -
  note len = arp_okD(1)[OF ok] and pre = arp_okD(2)[OF ok] and dist = arp_okD(3)[OF ok]
  from w have k: "k < 32" and add: "arp_cache (arp_add_entry ip mac st) = (arp_cache st)[k := e]"
    and e: "ae_valid e \<noteq> 0" "ae_ip e = ip"
    and oth: "\<And>j. j < 32 \<Longrightarrow> j \<noteq> k \<Longrightarrow> ae_valid (arp_cache st ! j) \<noteq> 0 \<Longrightarrow> ae_ip (arp_cache st ! j) \<noteq> ip"
    and before: "\<And>i. i < k \<Longrightarrow> ae_valid (arp_cache st ! i) \<noteq> 0" by (auto simp: arp_writes_def)
  show ?thesis unfolding arp_ok_def add
  proof (intro conjI allI impI)
    fix i j assume ij: "i < j" "j < 32" "ae_valid ((arp_cache st)[k := e] ! j) \<noteq> 0"
    then show "ae_valid ((arp_cache st)[k := e] ! i) \<noteq> 0"
      using e before pre[OF ij(1,2)] len by (cases "j = k"; cases "i = k") auto
  next
    fix i j assume "i < 32" "j < 32" "ae_valid ((arp_cache st)[k := e] ! i) \<noteq> 0"
      "ae_valid ((arp_cache st)[k := e] ! j) \<noteq> 0" "ae_ip ((arp_cache st)[k := e] ! i) = ae_ip ((arp_cache st)[k := e] ! j)"
    then show "i = j" using oth[of i] oth[of j] e dist[of i j] len
      by (cases "i = k"; cases "j = k") (auto simp: nth_list_update)
  qed (use len in simp)
qed

lemma arp_writes_resolve:
  assumes ok: "arp_ok st" and w: "arp_writes ip mac st k e"
  shows "arp_resolve ip (arp_add_entry ip mac st) = Some (take 6 mac)"
    and "a \<noteq> ip \<Longrightarrow> arp_resolve a (arp_add_entry ip mac st) =
      (if ae_valid (arp_cache st ! k) \<noteq> 0 \<and> ae_ip (arp_cache st ! k) = a then None else arp_resolve a st)"
proof -
  note len = arp_okD(1)[OF ok] and ok' = arp_writes_ok[OF ok w]
  from w have k: "k < 32" and add: "arp_cache (arp_add_entry ip mac st) = (arp_cache st)[k := e]"
    and e: "ae_valid e \<noteq> 0" "ae_ip e = ip" "ae_mac e = take 6 mac" by (auto simp: arp_writes_def)
  have nth: "(arp_cache st)[k := e] ! i = (if i = k then e else arp_cache st ! i)" for i
    using k len by (simp add: nth_list_update)
  show "arp_resolve ip (arp_add_entry ip mac st) = Some (take 6 mac)"
    unfolding arp_resolve_iff[OF ok'] add nth using k e by (intro exI[of _ k]) simp
  assume a: "a \<noteq> ip"
  have "arp_resolve a (arp_add_entry ip mac st) = Some m \<longleftrightarrow>
      arp_resolve a st = Some m \<and> \<not> (ae_valid (arp_cache st ! k) \<noteq> 0 \<and> ae_ip (arp_cache st ! k) = a)" for m
  proof -
    let ?c = "arp_cache st"
    have "(\<exists>i<32. i \<noteq> k \<and> ae_valid (?c ! i) \<noteq> 0 \<and> ae_ip (?c ! i) = a \<and> ae_mac (?c ! i) = m) \<longleftrightarrow>
      (\<exists>i<32. ae_valid (?c ! i) \<noteq> 0 \<and> ae_ip (?c ! i) = a \<and> ae_mac (?c ! i) = m) \<and>
      \<not> (ae_valid (?c ! k) \<noteq> 0 \<and> ae_ip (?c ! k) = a)"
    proof (cases "ae_valid (?c ! k) \<noteq> 0 \<and> ae_ip (?c ! k) = a")
      case True
      with arp_okD(3)[OF ok _ k] show ?thesis by auto
    qed auto
    moreover have "(\<exists>i<32. ae_valid (?c[k := e] ! i) \<noteq> 0 \<and> ae_ip (?c[k := e] ! i) = a \<and> ae_mac (?c[k := e] ! i) = m) \<longleftrightarrow>
      (\<exists>i<32. i \<noteq> k \<and> ae_valid (?c ! i) \<noteq> 0 \<and> ae_ip (?c ! i) = a \<and> ae_mac (?c ! i) = m)"
      unfolding nth using a e(2) by (intro iff_exI) auto
    ultimately show ?thesis unfolding arp_resolve_iff[OF ok'] arp_resolve_iff[OF ok] add by simp
  qed
  then show "arp_resolve a (arp_add_entry ip mac st) =
      (if ae_valid (arp_cache st ! k) \<noteq> 0 \<and> ae_ip (arp_cache st ! k) = a then None else arp_resolve a st)"
    by (metis option.exhaust)
qed

end
