(* ===== verification/NetStack.thy ===== *)
theory NetStack
  imports NetArp
begin

text \<open>
  The receiving side of the stack and \<open>ip_send\<close>: \<open>net/udp.c\<close>, \<open>net/icmp.c\<close>, \<open>net/ip.c\<close>,
  \<open>eth_receive_frame\<close> of \<open>net/ethernet.c\<close> and the response handlers of \<open>net/dns.c\<close> and
  \<open>net/ntp.c\<close>.

  The functions are mutually recursive: \<open>ip_send\<close> waits for an ARP reply by receiving frames,
  and a received echo request is answered with \<open>ip_send\<close>. Here the receiving functions take the
  sender they call as their first argument, and \<open>ip_send\<close> is defined with a bound on the nesting,
  the number of polls the card still answers: every nested call has consumed one. The theorem
  \<open>ip_send_eq\<close> shows that the bound is enough, and is the equation of the source.

  A \<open>bytes\<close> argument is the memory from the pointer to the end of its object, of which the code
  is told to use the first \<open>n\<close> bytes.
\<close>

type_synonym sender = "u32 \<Rightarrow> u8 \<Rightarrow> bytes \<Rightarrow> u16 \<Rightarrow> net \<Rightarrow> net option"

section \<open>\<open>net/dns.c\<close>: the response handler\<close>

definition be16 :: "u8 \<Rightarrow> u8 \<Rightarrow> u16" where
  "be16 a b = push_bit 8 (ucast a) OR ucast b"

definition be32 :: "u8 \<Rightarrow> u8 \<Rightarrow> u8 \<Rightarrow> u8 \<Rightarrow> u32" where
  "be32 a b c d = push_bit 24 (ucast a) OR push_bit 16 (ucast b) OR push_bit 8 (ucast c) OR ucast d"

text \<open>The loop over the labels of a name: offsets from \<open>data\<close>, \<open>e\<close> is \<open>end\<close>.\<close>

function skip_name :: "bytes \<Rightarrow> nat \<Rightarrow> nat \<Rightarrow> nat option" where
  "skip_name data e p =
     (if e \<le> p then Some p
      else if length data \<le> p then None
      else if data ! p = 0 then Some p
      else if data ! p AND 0xC0 = 0xC0 then Some (p + 2)
      else skip_name data e (p + unat (data ! p) + 1))"
  by pat_completeness auto
termination
  by (relation "measure (\<lambda>(d, e, p). e - p)") auto

declare skip_name.simps [simp del]

fun dns_answers :: "bytes \<Rightarrow> nat \<Rightarrow> nat \<Rightarrow> nat \<Rightarrow> net \<Rightarrow> net option" where
  "dns_answers data e 0 p st = Some st"
| "dns_answers data e (Suc k) p st =
     (if e \<le> p then Some st
      else do {
        p1 \<leftarrow> skip_name data e p;
        if e \<le> p1 then Some st
        else do {
          c \<leftarrow> rd data p1;
          let p2 = (if c = 0 then p1 + 1 else p1);
          if e < p2 + 10 then Some st
          else do {
            t0 \<leftarrow> rd data p2;
            t1 \<leftarrow> rd data (p2 + 1);
            r0 \<leftarrow> rd data (p2 + 8);
            r1 \<leftarrow> rd data (p2 + 9);
            let p3 = p2 + 10;
            if be16 t0 t1 = 1 \<and> be16 r0 r1 = 4 \<and> p3 + 4 \<le> e then do {
              a0 \<leftarrow> rd data p3;
              a1 \<leftarrow> rd data (p3 + 1);
              a2 \<leftarrow> rd data (p3 + 2);
              a3 \<leftarrow> rd data (p3 + 3);
              Some (st\<lparr>resolved_ip := be32 a0 a1 a2 a3, resolution_complete := True\<rparr>) }
            else dns_answers data e k (p3 + unat (be16 r0 r1)) st } } })"

definition dns_response_handler :: "bytes \<Rightarrow> u16 \<Rightarrow> net \<Rightarrow> net option" where
  "dns_response_handler data n st =
     (if n < 12 then Some st
      else if length data < 12 then None
      else let h = dec_dns data; e = unat n in
        if ntohs (dns_flags h) AND 0x8000 = 0 then Some st
        else if ntohs (ancount h) = 0 then Some st
        else do {
          p \<leftarrow> skip_name data e 12;
          if e \<le> p then Some st
          else do {
            c \<leftarrow> rd data p;
            let p1 = (if c = 0 then p + 1 else p);
            dns_answers data e (unat (ntohs (ancount h))) (p1 + 4) st } })"

section \<open>\<open>net/ntp.c\<close>: the response handler\<close>

definition NTP_TIMESTAMP_DELTA :: u32 where
  "NTP_TIMESTAMP_DELTA = 2208988800"

definition ntp_response_handler :: "bytes \<Rightarrow> u16 \<Rightarrow> net \<Rightarrow> net option" where
  "ntp_response_handler data n st =
     (if n < 48 then Some st
      else if length data < 48 then None
      else if data ! 0 AND 0x07 \<noteq> 4 then Some st
      else let trans_sec = ntohl (get32 data 40) in
        if NTP_TIMESTAMP_DELTA < trans_sec
        then Some (st\<lparr>synced_timestamp := trans_sec - NTP_TIMESTAMP_DELTA, sync_complete := True\<rparr>)
        else Some st)"

section \<open>\<open>net/udp.c\<close>\<close>

definition udp_init :: "net \<Rightarrow> net" where
  "udp_init st = st\<lparr>udp_handlers := map (\<lambda>u. \<lparr>uh_port = 0, uh_callback = None\<rparr>) (udp_handlers st)\<rparr>"

text \<open>The first entry with port 0 is taken; when there is none, the call does nothing.\<close>

definition udp_register_handler :: "u16 \<Rightarrow> udp_callback \<Rightarrow> net \<Rightarrow> net" where
  "udp_register_handler p cb st =
     (case find (\<lambda>i. uh_port (udp_handlers st ! i) = 0) [0..<length (udp_handlers st)] of
        None \<Rightarrow> st
      | Some i \<Rightarrow> st\<lparr>udp_handlers := (udp_handlers st)[i := \<lparr>uh_port = p, uh_callback = Some cb\<rparr>]\<rparr>)"

fun udp_call :: "udp_callback \<Rightarrow> bytes \<Rightarrow> u16 \<Rightarrow> net \<Rightarrow> net option" where
  "udp_call Dns_response_handler data n st = dns_response_handler data n st"
| "udp_call Ntp_response_handler data n st = ntp_response_handler data n st"

definition udp_receive :: "bytes \<Rightarrow> u16 \<Rightarrow> net \<Rightarrow> net option" where
  "udp_receive data n st =
     (if n < 8 then Some st
      else if length data < 8 then None
      else let h = dec_udp data; dp = ntohs (dest_port h); len = ntohs (udp_length h) in
        if n < len \<or> len < 8 then Some st
        else case find (\<lambda>u. uh_port u = dp \<and> uh_callback u \<noteq> None) (udp_handlers st) of
            None \<Rightarrow> Some st
          | Some u \<Rightarrow> udp_call (the (uh_callback u)) (drop 8 data) (len - 8) st)"

section \<open>\<open>net/icmp.c\<close>: receiving\<close>

text \<open>The loop that marks the first matching ping that has not been answered.\<close>

fun mark_received :: "u32 \<Rightarrow> u16 \<Rightarrow> ping_state list \<Rightarrow> ping_state list" where
  "mark_received src seq [] = []"
| "mark_received src seq (p # ps) =
     (if ps_ip p = src \<and> ps_seq p = seq \<and> \<not> ps_received p then p\<lparr>ps_received := True\<rparr> # ps
      else p # mark_received src seq ps)"

definition icmp_receive_with :: "sender \<Rightarrow> u32 \<Rightarrow> bytes \<Rightarrow> u16 \<Rightarrow> net \<Rightarrow> net option" where
  "icmp_receive_with send src data n st =
     (if n < 8 then Some st
      else if length data < 8 then None
      else let h = dec_icmp data in
        if icmp_type h = 8 then
          if length data < unat n \<or> 1500 < n then None
          else let h0 = h\<lparr>icmp_type := 0, icmp_code := 0, icmp_sum := 0\<rparr>; rest = drop 8 (take (unat n) data)
            in do {
              c \<leftarrow> ip_checksum (enc_icmp h0 @ rest) n;
              send src 1 (enc_icmp (h0\<lparr>icmp_sum := htons c\<rparr>) @ rest) n st }
        else if icmp_type h = 0 then
          Some (st\<lparr>ping_states := mark_received src (ntohs (icmp_seq h)) (ping_states st)\<rparr>)
        else Some st)"

section \<open>\<open>net/ip.c\<close> and \<open>eth_receive_frame\<close>\<close>

definition ip_init :: "net \<Rightarrow> net" where
  "ip_init st = st\<lparr>ip_id_counter := 1\<rparr>"

definition ip_receive_with :: "sender \<Rightarrow> bytes \<Rightarrow> u16 \<Rightarrow> net \<Rightarrow> net option" where
  "ip_receive_with send data n st =
     (if n < 20 then Some st
      else if length data < 20 then None
      else let h = dec_ip data; ver = drop_bit 4 (version_ihl h) AND 0x0F;
               ihl = (version_ihl h AND 0x0F) * 4; tot = ntohs (total_length h) in
        if ver \<noteq> 4 then Some st
        else if ihl < 20 \<or> n < ucast ihl then Some st
        else if n < tot then Some st
        else let dest = ntohl (dest_ip h) in
          if dest \<noteq> ip_address st \<and> dest \<noteq> 0xFFFFFFFF then Some st
          else let payload = drop (unat ihl) data; payload_length = tot - ucast ihl; src = ntohl (src_ip h) in
            if protocol h = 1 then icmp_receive_with send src payload payload_length st
            else if protocol h = 17 then udp_receive payload payload_length st
            else Some st)"

definition eth_receive_with :: "sender \<Rightarrow> bytes \<Rightarrow> u16 \<Rightarrow> net \<Rightarrow> net option" where
  "eth_receive_with send frame n st =
     (if n < 14 then Some st
      else if length frame < 14 then None
      else let ty = ntohs (eth_type (dec_eth frame)); payload = drop 14 frame; payload_length = n - 14 in
        if ty = 0x0806 then arp_receive payload payload_length st
        else if ty = 0x0800 then ip_receive_with send payload payload_length st
        else Some st)"

text \<open>One poll with a local buffer, and the frame handed to the stack.\<close>

definition receive_one :: "sender \<Rightarrow> net \<Rightarrow> net option" where
  "receive_one send st = do {
     (rx_len, buf, st1) \<leftarrow> network_receive_packet (stack_rx st) 1518 st;
     if 0 < rx_len then eth_receive_with send buf (of_int rx_len) st1 else Some st1 }"

fun arp_wait :: "sender \<Rightarrow> u32 \<Rightarrow> nat \<Rightarrow> net \<Rightarrow> net option" where
  "arp_wait send target 0 st = Some st"
| "arp_wait send target (Suc k) st = do {
     st1 \<leftarrow> receive_one send st;
     if arp_resolve target st1 \<noteq> None then Some st1 else arp_wait send target k st1 }"

definition new_ip_header :: "net \<Rightarrow> u32 \<Rightarrow> u8 \<Rightarrow> u16 \<Rightarrow> ip_header" where
  "new_ip_header st dest proto tot =
     \<lparr>version_ihl = 0x45, tos = 0, total_length = htons tot, identification = htons (ip_id_counter st),
      flags_fragment = htons 0x4000, ttl = 64, protocol = proto, ip_sum = 0,
      src_ip = htonl (ip_address st), dest_ip = htonl dest\<rparr>"

definition ip_target :: "net \<Rightarrow> u32 \<Rightarrow> u32" where
  "ip_target st dest =
     (if dest AND 0xFFFFFF00 = ip_address st AND 0xFFFFFF00 then dest
      else (ip_address st AND 0xFFFFFF00) OR 0x01)"

text \<open>Finding the next hop, and sending the packet to it.\<close>

definition ip_transmit :: "sender \<Rightarrow> u32 \<Rightarrow> bytes \<Rightarrow> u16 \<Rightarrow> net \<Rightarrow> net option" where
  "ip_transmit send target packet tot st =
     (case arp_resolve target st of
        Some mac \<Rightarrow> eth_send_frame mac 0x0800 packet tot st
      | None \<Rightarrow> do {
          st1 \<leftarrow> arp_send_request target st;
          st2 \<leftarrow> arp_wait send target 10 st1;
          case arp_resolve target st2 of
            None \<Rightarrow> Some st2
          | Some mac \<Rightarrow> eth_send_frame mac 0x0800 packet tot st2 })"

definition ip_send_with :: "sender \<Rightarrow> sender" where
  "ip_send_with send dest proto data n st =
     (let tot = 20 + n in
      if 1500 < tot then Some st
      else let h = new_ip_header st dest proto tot; st1 = st\<lparr>ip_id_counter := ip_id_counter st + 1\<rparr> in
        do {
          c \<leftarrow> ip_checksum (enc_ip h) 20;
          if length data < unat n \<or> 1480 < n then None
          else ip_transmit send (ip_target st1 dest) (enc_ip (h\<lparr>ip_sum := htons c\<rparr>) @ take (unat n) data) tot st1 })"

text \<open>The nesting is bounded by the number of polls the card answers.\<close>

fun ip_send_upto :: "nat \<Rightarrow> sender" where
  "ip_send_upto 0 = ip_send_with (\<lambda>_ _ _ _ st. Some st)"
| "ip_send_upto (Suc k) = ip_send_with (ip_send_upto k)"

definition ip_send :: sender where
  "ip_send dest proto data n st = ip_send_upto (length (polls st)) dest proto data n st"

definition icmp_receive :: "u32 \<Rightarrow> bytes \<Rightarrow> u16 \<Rightarrow> net \<Rightarrow> net option" where
  "icmp_receive = icmp_receive_with ip_send"

definition ip_receive :: "bytes \<Rightarrow> u16 \<Rightarrow> net \<Rightarrow> net option" where
  "ip_receive = ip_receive_with ip_send"

definition eth_receive_frame :: "bytes \<Rightarrow> u16 \<Rightarrow> net \<Rightarrow> net option" where
  "eth_receive_frame = eth_receive_with ip_send"

definition udp_send :: "u32 \<Rightarrow> u16 \<Rightarrow> u16 \<Rightarrow> bytes \<Rightarrow> u16 \<Rightarrow> net \<Rightarrow> net option" where
  "udp_send dest sport dport data n st =
     (let tot = 8 + n in
      if 1500 < tot then Some st
      else if length data < unat n \<or> 1492 < n then None
      else let h = \<lparr>src_port = htons sport, dest_port = htons dport, udp_length = htons tot, udp_sum = 0\<rparr>
           in ip_send dest 17 (enc_udp h @ take (unat n) data) tot st)"

end
