(* ===== verification/NetRec.thy ===== *)
theory NetRec
  imports NetStack
begin

text \<open>
  The recursion of the stack: every operation leaves the number of unanswered polls or lowers it,
  a frame that is handed to the stack has cost one, and so the bound in \<open>ip_send\<close> is enough.
  What a sender may change and what not is collected in \<open>keeps\<close>.
\<close>

section \<open>What the operations keep\<close>

text \<open>
  \<open>keeps st st'\<close>: no new polls, the same identity, timers, handlers and constants, and the frames
  sent so far.
\<close>

definition keeps :: "net \<Rightarrow> net \<Rightarrow> bool" where
  "keeps st st' \<longleftrightarrow> length (polls st') \<le> length (polls st) \<and> ip_address st' = ip_address st \<and>
     mac_address st' = mac_address st \<and> local_mac st' = local_mac st \<and> initialized st' = initialized st \<and>
     arp_timer st' = arp_timer st \<and> icmp_timer st' = icmp_timer st \<and> udp_handlers st' = udp_handlers st \<and>
     stack_rx st' = stack_rx st \<and> dns_server st' = dns_server st \<and> ntp_server st' = ntp_server st \<and>
     dns_transaction_id st' = dns_transaction_id st \<and> (\<exists>fs. sent st' = sent st @ fs)"

named_theorems keeps_intros

lemma keeps_refl [simp, keeps_intros]: "keeps st st"
  by (simp add: keeps_def)

lemma keeps_trans [trans]: "keeps st st' \<Longrightarrow> keeps st' st'' \<Longrightarrow> keeps st st''"
  by (auto simp: keeps_def)

lemma keeps_log [simp]: "keeps st (log es st') = keeps st st'" "keeps (log es st) st' = keeps st st'"
  by (simp_all add: keeps_def log_def)

lemma keeps_upd [simp]:
  "keeps st (st\<lparr>rx_offset := v1\<rparr>)" "keeps st (st\<lparr>arp_cache := v2\<rparr>)" "keeps st (st\<lparr>ip_id_counter := v3\<rparr>)"
  "keeps st (st\<lparr>ping_states := v4\<rparr>)" "keeps st (st\<lparr>resolved_ip := v5, resolution_complete := v6\<rparr>)"
  "keeps st (st\<lparr>synced_timestamp := v7, sync_complete := v8\<rparr>)"
  by (simp_all add: keeps_def)

definition sender_keeps :: "sender \<Rightarrow> bool" where
  "sender_keeps f \<longleftrightarrow> (\<forall>d p b n st st'. f d p b n st = Some st' \<longrightarrow> keeps st st')"

lemma sender_keepsD: "sender_keeps f \<Longrightarrow> f d p b n st = Some st' \<Longrightarrow> keeps st st'"
  unfolding sender_keeps_def by blast

lemma network_send_keeps: "network_send_packet d n st = Some st' \<Longrightarrow> keeps st st'"
  by (auto simp: network_send_packet_def Let_def keeps_def log_def split: if_splits)

lemma eth_send_keeps: "eth_send_frame m ty d n st = Some st' \<Longrightarrow> keeps st st'"
  by (auto simp: eth_send_frame_def Let_def intro: network_send_keeps split: if_splits)

lemma arp_add_keeps [simp]: "keeps st (arp_add_entry ip mac st)"
  by (simp add: arp_add_entry_def split: prod.split bool.split)

lemma arp_receive_keeps: "arp_receive d n st = Some st' \<Longrightarrow> keeps st st'"
  by (auto simp: arp_receive_def Let_def split: if_splits dest!: eth_send_keeps
      intro: keeps_trans[OF arp_add_keeps])

lemma dns_answers_keeps: "dns_answers d e k p st = Some st' \<Longrightarrow> keeps st st'"
proof (induction d e k p st arbitrary: st' rule: dns_answers.induct)
  case (2 data e k p st)
  then show ?case by (auto simp: Let_def Option.bind_eq_Some_conv split: if_splits)
qed simp

lemma dns_handler_keeps: "dns_response_handler d n st = Some st' \<Longrightarrow> keeps st st'"
  by (auto simp: dns_response_handler_def Let_def Option.bind_eq_Some_conv intro: dns_answers_keeps split: if_splits)

lemma ntp_handler_keeps: "ntp_response_handler d n st = Some st' \<Longrightarrow> keeps st st'"
  by (auto simp: ntp_response_handler_def Let_def split: if_splits)

lemma udp_receive_keeps: "udp_receive d n st = Some st' \<Longrightarrow> keeps st st'"
proof -
  have c: "udp_call cb x m st = Some st' \<Longrightarrow> keeps st st'" for cb x m
    by (cases cb) (auto intro: dns_handler_keeps ntp_handler_keeps)
  show "udp_receive d n st = Some st' \<Longrightarrow> keeps st st'"
    by (auto simp: udp_receive_def Let_def intro: c split: if_splits option.splits)
qed

lemma icmp_receive_keeps: "sender_keeps f \<Longrightarrow> icmp_receive_with f s d n st = Some st' \<Longrightarrow> keeps st st'"
  by (auto simp: icmp_receive_with_def Let_def Option.bind_eq_Some_conv intro: sender_keepsD split: if_splits)

lemma ip_receive_keeps: "sender_keeps f \<Longrightarrow> ip_receive_with f d n st = Some st' \<Longrightarrow> keeps st st'"
  by (auto simp: ip_receive_with_def Let_def intro: icmp_receive_keeps udp_receive_keeps split: if_splits)

lemma eth_receive_keeps: "sender_keeps f \<Longrightarrow> eth_receive_with f d n st = Some st' \<Longrightarrow> keeps st st'"
  by (auto simp: eth_receive_with_def Let_def intro: ip_receive_keeps arp_receive_keeps split: if_splits)

text \<open>A received frame has cost a poll.\<close>

lemma poll_card_keeps: "poll_card st = (c, st') \<Longrightarrow> keeps st st'"
  by (auto simp: poll_card_def keeps_def split: list.splits)

lemma network_receive_keeps:
  assumes "network_receive_packet buf m st = Some (r, buf', st')"
  shows "keeps st st'" "0 < r \<Longrightarrow> length (polls st') < length (polls st)"
proof -
  show "keeps st st'" using assms
    by (auto simp: network_receive_packet_def Let_def split: if_splits prod.splits
        intro: keeps_trans[OF poll_card_keeps])
  assume "0 < r"
  with assms show "length (polls st') < length (polls st)"
    by (auto simp: network_receive_packet_def poll_card_def Let_def log_def split: if_splits prod.splits list.splits)
qed

lemma receive_one_keeps:
  assumes f: "sender_keeps f" and r: "receive_one f st = Some st'"
  shows "keeps st st'"
proof -
  from r obtain l buf s1 where n: "network_receive_packet (stack_rx st) 1518 st = Some (l, buf, s1)"
    and e: "(if 0 < l then eth_receive_with f buf (of_int l) s1 else Some s1) = Some st'"
    by (auto simp: receive_one_def Option.bind_eq_Some_conv)
  have "keeps s1 st'" using e eth_receive_keeps[OF f] by (auto split: if_splits)
  with network_receive_keeps(1)[OF n] show ?thesis by (rule keeps_trans)
qed

lemma arp_wait_keeps: "sender_keeps f \<Longrightarrow> arp_wait f t k st = Some st' \<Longrightarrow> keeps st st'"
proof (induction f t k st arbitrary: st' rule: arp_wait.induct)
  case (2 f t k st)
  from 2(3) obtain s1 where s1: "receive_one f st = Some s1"
    "(if arp_resolve t s1 \<noteq> None then Some s1 else arp_wait f t k s1) = Some st'"
    by (auto simp: Option.bind_eq_Some_conv)
  have "keeps s1 st'" using s1(2) 2(1)[OF s1(1) _ 2(2)] by (auto split: if_splits)
  with receive_one_keeps[OF 2(2) s1(1)] show ?case by (rule keeps_trans)
qed simp

lemma ip_transmit_keeps:
  assumes f: "sender_keeps f" and s: "ip_transmit f t packet n st = Some st'"
  shows "keeps st st'"
proof (cases "arp_resolve t st")
  case (Some mac)
  with s show ?thesis by (auto simp: ip_transmit_def intro: eth_send_keeps)
next
  case None
  with s obtain s1 s2 where w: "arp_send_request t st = Some s1" "arp_wait f t 10 s1 = Some s2"
    and e: "(case arp_resolve t s2 of None \<Rightarrow> Some s2 | Some mac \<Rightarrow> eth_send_frame mac 0x0800 packet n s2) = Some st'"
    by (auto simp: ip_transmit_def Option.bind_eq_Some_conv)
  have "keeps st s1" using w(1) unfolding arp_send_request_def by (rule eth_send_keeps)
  also have "keeps s1 s2" by (rule arp_wait_keeps[OF f w(2)])
  also have "keeps s2 st'" using e by (auto intro: eth_send_keeps split: option.splits)
  finally show ?thesis .
qed

lemma ip_send_with_keeps:
  assumes f: "sender_keeps f"
  shows "sender_keeps (ip_send_with f)"
  unfolding sender_keeps_def
  by (auto simp: ip_send_with_def Let_def Option.bind_eq_Some_conv split: if_splits
      dest!: ip_transmit_keeps[OF f] intro: keeps_trans[OF keeps_upd(3)])

lemma ip_send_upto_keeps: "sender_keeps (ip_send_upto k)"
proof (induction k)
  case 0
  have "sender_keeps (\<lambda>_ _ _ _ st. Some st)" by (simp add: sender_keeps_def)
  then show ?case by (simp add: ip_send_with_keeps)
qed (simp add: ip_send_with_keeps)

lemma ip_send_keeps: "sender_keeps ip_send"
  unfolding sender_keeps_def ip_send_def using sender_keepsD[OF ip_send_upto_keeps] by blast

section \<open>The bound on the nesting is enough\<close>

text \<open>Two senders that agree on states with fewer than \<open>N\<close> polls.\<close>

definition agree :: "nat \<Rightarrow> sender \<Rightarrow> sender \<Rightarrow> bool" where
  "agree N f g \<longleftrightarrow> (\<forall>d p b n st. length (polls st) < N \<longrightarrow> f d p b n st = g d p b n st)"

lemma eth_receive_agree:
  assumes "agree N f g" "length (polls st) < N"
  shows "eth_receive_with f d n st = eth_receive_with g d n st"
proof -
  have fg: "f x p b m st = g x p b m st" for x p b m using assms by (simp add: agree_def)
  have icmp: "icmp_receive_with f s x m st = icmp_receive_with g s x m st" for s x m
    unfolding icmp_receive_with_def fg ..
  have ip: "ip_receive_with f d n st = ip_receive_with g d n st" for d n
    unfolding ip_receive_with_def icmp ..
  show ?thesis unfolding eth_receive_with_def ip ..
qed

lemma receive_one_agree:
  assumes "agree N f g" "length (polls st) \<le> N"
  shows "receive_one f st = receive_one g st"
proof (cases "network_receive_packet (stack_rx st) 1518 st")
  case (Some a)
  obtain l buf s1 where a: "a = (l, buf, s1)" by (cases a)
  have "eth_receive_with f buf (of_int l) s1 = eth_receive_with g buf (of_int l) s1" if "0 < l"
    using eth_receive_agree[OF assms(1)] network_receive_keeps(2) Some that assms(2) a by fastforce
  with Some a show ?thesis by (simp add: receive_one_def)
qed (simp add: receive_one_def)

lemma arp_wait_agree:
  assumes fg: "agree N f g" and g: "sender_keeps g"
  shows "length (polls st) \<le> N \<Longrightarrow> arp_wait f t k st = arp_wait g t k st"
proof (induction k arbitrary: st)
  case (Suc k)
  have r: "receive_one f st = receive_one g st" by (rule receive_one_agree[OF fg Suc(2)])
  show ?case
  proof (cases "receive_one g st")
    case (Some s1)
    with receive_one_keeps[OF g Some] Suc(2) have "length (polls s1) \<le> N" by (simp add: keeps_def)
    with Suc(1) Some r show ?thesis by simp
  qed (simp add: r)
qed simp

lemma ip_transmit_agree:
  assumes fg: "agree N f g" and g: "sender_keeps g" and N: "length (polls st) \<le> N"
  shows "ip_transmit f t packet n st = ip_transmit g t packet n st"
proof (cases "arp_send_request t st")
  case (Some s1)
  then have "keeps st s1" unfolding arp_send_request_def by (rule eth_send_keeps)
  with N have "length (polls s1) \<le> N" by (simp add: keeps_def)
  then have w: "arp_wait f t 10 s1 = arp_wait g t 10 s1" by (rule arp_wait_agree[OF fg g])
  show ?thesis unfolding ip_transmit_def Some Option.bind.simps w ..
next
  case None
  show ?thesis unfolding ip_transmit_def None Option.bind.simps ..
qed

lemma ip_send_with_agree:
  assumes fg: "agree N f g" and g: "sender_keeps g" and N: "length (polls st) \<le> N"
  shows "ip_send_with f d p b n st = ip_send_with g d p b n st"
proof -
  have tr: "ip_transmit f t packet m (st\<lparr>ip_id_counter := i\<rparr>) = ip_transmit g t packet m (st\<lparr>ip_id_counter := i\<rparr>)" for t packet m i
    using N by (intro ip_transmit_agree[OF fg g]) simp
  show ?thesis unfolding ip_send_with_def Let_def tr ..
qed

lemma ip_send_upto_enough:
  "length (polls st) \<le> k \<Longrightarrow> ip_send_upto k d p b n st = ip_send_upto (length (polls st)) d p b n st"
proof (induction k arbitrary: d p b n st rule: less_induct)
  case (less k)
  show ?case
  proof (cases "length (polls st) = k")
    case False
    with less(2) obtain j where k: "k = Suc j" and j: "length (polls st) \<le> j" by (cases k) auto
    have ag: "agree (length (polls st)) (ip_send_upto j) (ip_send_upto i)" if "length (polls st) \<le> Suc i" "i \<le> j" for i
      unfolding agree_def
    proof (intro allI impI)
      fix d p b n and s :: net
      assume "length (polls s) < length (polls st)"
      then have "length (polls s) \<le> i" "length (polls s) \<le> j" using that(1) j by simp_all
      with less(1)[of i s d p b n] less(1)[of j s d p b n] k that(2)
      show "ip_send_upto j d p b n s = ip_send_upto i d p b n s" by simp
    qed
    show ?thesis
    proof (cases "length (polls st)")
      case 0
      have "agree 0 (ip_send_upto j) (\<lambda>_ _ _ _ st. Some st)" by (simp add: agree_def)
      then show ?thesis unfolding k 0 ip_send_upto.simps
        by (rule ip_send_with_agree) (simp_all add: sender_keeps_def 0)
    next
      case (Suc i)
      have "agree (Suc i) (ip_send_upto j) (ip_send_upto i)" using ag[of i] Suc j by simp
      then show ?thesis unfolding k Suc ip_send_upto.simps
        by (rule ip_send_with_agree) (simp_all add: ip_send_upto_keeps Suc)
    qed
  qed simp
qed

lemma ip_send_unfold: "ip_send d p b n st = ip_send_with ip_send d p b n st"
proof -
  have "ip_send d p b n st = ip_send_upto (Suc (length (polls st))) d p b n st"
    unfolding ip_send_def by (rule ip_send_upto_enough[symmetric]) simp
  also have "\<dots> = ip_send_with (ip_send_upto (length (polls st))) d p b n st" by simp
  also have "\<dots> = ip_send_with ip_send d p b n st"
  proof (rule ip_send_with_agree[OF _ ip_send_keeps order_refl])
    show "agree (length (polls st)) (ip_send_upto (length (polls st))) ip_send"
      unfolding agree_def ip_send_def using ip_send_upto_enough by (meson less_imp_le)
  qed
  finally show ?thesis .
qed

end
