(* ===== verification/NetApps.thy ===== *)
theory NetApps
  imports NetRec
begin

text \<open>
  The clients of the stack: \<open>dns_resolve\<close>, \<open>ntp_sync_time\<close>, and the echo requests and the wait for
  their replies in \<open>net/icmp.c\<close>. Their waiting loops poll the card and count down a bound.
\<close>

section \<open>Waiting\<close>

text \<open>\<open>while (timeout > 0 && !done)\<close>: one poll for each unit of the timeout.\<close>

fun wait_until :: "(net \<Rightarrow> bool) \<Rightarrow> nat \<Rightarrow> net \<Rightarrow> net option" where
  "wait_until finished 0 st = Some st"
| "wait_until finished (Suc k) st =
     (if finished st then Some st else do { st1 \<leftarrow> receive_one ip_send st; wait_until finished k st1 })"

section \<open>\<open>net/dns.c\<close>\<close>

definition dns_init :: "net \<Rightarrow> net" where
  "dns_init st = udp_register_handler 53 Dns_response_handler st"

definition dns_set_server :: "u32 \<Rightarrow> net \<Rightarrow> net" where
  "dns_set_server server_ip st = st\<lparr>dns_server := server_ip\<rparr>"

abbreviation (input) DOT :: u8 where "DOT \<equiv> 46"

fun is_ip_loop :: "bytes \<Rightarrow> nat \<Rightarrow> nat \<Rightarrow> bool" where
  "is_ip_loop [] dts digits \<longleftrightarrow> dts = 3 \<and> 0 < digits \<and> digits \<le> 3"
| "is_ip_loop (c # s) dts digits \<longleftrightarrow>
     (if c = DOT then if digits = 0 \<or> 3 < digits then False else is_ip_loop s (dts + 1) 0
      else if 48 \<le> c \<and> c \<le> 57 then is_ip_loop s dts (digits + 1)
      else False)"

definition is_ip_address :: "bytes \<Rightarrow> bool" where
  "is_ip_address str = is_ip_loop str 0 0"

text \<open>\<open>octet << shift\<close> keeps the low 32 bits; a negative shift count and an overflow are undefined.\<close>

fun parse_ip_loop :: "bytes \<Rightarrow> u32 \<Rightarrow> int \<Rightarrow> int \<Rightarrow> u32 option" where
  "parse_ip_loop [] ip octet shift =
     (if shift < 0 then None else Some (ip OR push_bit (nat shift) (of_int octet)))"
| "parse_ip_loop (c # s) ip octet shift =
     (if c = DOT then
        if shift < 0 then None
        else parse_ip_loop s (ip OR push_bit (nat shift) (of_int octet)) 0 (shift - 8)
      else do {
        r10 \<leftarrow> int32 (octet * 10);
        r \<leftarrow> int32 (r10 + (sint c - 48));
        parse_ip_loop s ip r shift })"

definition parse_ip :: "bytes \<Rightarrow> u32 option" where
  "parse_ip str = parse_ip_loop str 0 0 24"

text \<open>
  The loop that writes the labels: \<open>out\<close> is what has been written before the length byte of the
  current label, \<open>label\<close> the characters after it. \<open>label_len\<close> counts in 8 bits.
\<close>

fun dns_labels :: "bytes \<Rightarrow> bytes \<Rightarrow> bytes \<Rightarrow> bytes" where
  "dns_labels [] out label = out @ [of_nat (length label)] @ label @ [0]"
| "dns_labels (c # s) out label =
     (if c = DOT then dns_labels s (out @ [of_nat (length label)] @ label) []
      else dns_labels s out (label @ [c]))"

text \<open>The query in \<open>uint8_t query[512]\<close>.\<close>

definition dns_query :: "u16 \<Rightarrow> bytes \<Rightarrow> bytes option" where
  "dns_query ident host =
     (let q = enc_dns \<lparr>dns_id = htons ident, dns_flags = htons 0x0100, qdcount = htons 1, ancount = 0,
                nscount = 0, arcount = 0\<rparr> @ dns_labels host [] [] @ le16 (htons 1) @ le16 (htons 1)
      in if length q \<le> 512 then Some q else None)"

text \<open>The address written to \<open>ip_out\<close>, or \<open>None\<close> for the return value 0.\<close>

definition dns_resolve :: "bytes \<Rightarrow> net \<Rightarrow> (u32 option \<times> net) option" where
  "dns_resolve host st =
     (if is_ip_address host then do { ip \<leftarrow> parse_ip host; Some (Some ip, st) }
      else do {
        q \<leftarrow> dns_query (dns_transaction_id st) host;
        let st1 = st\<lparr>dns_transaction_id := dns_transaction_id st + 1, resolved_ip := 0, resolution_complete := False\<rparr>;
        st2 \<leftarrow> udp_send (dns_server st1) 12345 53 q (of_nat (length q)) st1;
        st3 \<leftarrow> wait_until resolution_complete 5000 st2;
        Some (if resolution_complete st3 \<and> resolved_ip st3 \<noteq> 0 then Some (resolved_ip st3) else None, st3) })"

section \<open>\<open>net/ntp.c\<close>\<close>

definition ntp_init :: "net \<Rightarrow> net" where
  "ntp_init st = udp_register_handler 123 Ntp_response_handler st"

definition ntp_set_server :: "u32 \<Rightarrow> net \<Rightarrow> net" where
  "ntp_set_server server_ip st = st\<lparr>ntp_server := server_ip\<rparr>"

text \<open>The 48 bytes of the request; only the mode and the transmit time are not 0.\<close>

definition ntp_request :: "u32 \<Rightarrow> bytes" where
  "ntp_request local_time = [push_bit 3 4 OR 3] @ replicate 39 0
     @ le32 (htonl (local_time + NTP_TIMESTAMP_DELTA)) @ replicate 4 0"

text \<open>\<open>local_time\<close> is the result of \<open>rtc_get_unix_timestamp\<close>.\<close>

definition ntp_sync_time :: "u32 \<Rightarrow> net \<Rightarrow> (u32 option \<times> net) option" where
  "ntp_sync_time local_time st = do {
     let st1 = st\<lparr>synced_timestamp := 0, sync_complete := False\<rparr>;
     st2 \<leftarrow> udp_send (ntp_server st1) 123 123 (ntp_request local_time) 48 st1;
     st3 \<leftarrow> wait_until sync_complete 5000 st2;
     Some (if sync_complete st3 \<and> synced_timestamp st3 \<noteq> 0 then Some (synced_timestamp st3) else None, st3) }"

section \<open>\<open>net/icmp.c\<close>: sending\<close>

definition icmp_init :: "net \<Rightarrow> net" where
  "icmp_init st = st\<lparr>ping_states := map (\<lambda>p. p\<lparr>ps_received := False\<rparr>) (ping_states st), icmp_timer := 0\<rparr>"

definition echo_payload :: bytes where
  "echo_payload = map (\<lambda>i. 0x41 + of_nat (i mod 26)) [0..<56]"

text \<open>The first slot that is not marked as answered, or whose answer is old.\<close>

definition ping_slot :: "net \<Rightarrow> nat option" where
  "ping_slot st = find (\<lambda>i. \<not> ps_received (ping_states st ! i) \<or>
     5000 < icmp_timer st - ps_time (ping_states st ! i)) [0..<length (ping_states st)]"

definition note_ping :: "u32 \<Rightarrow> u16 \<Rightarrow> net \<Rightarrow> net" where
  "note_ping dest seq st = (case ping_slot st of
       None \<Rightarrow> st
     | Some i \<Rightarrow> st\<lparr>ping_states := (ping_states st)
         [i := \<lparr>ps_ip = dest, ps_seq = seq, ps_time = icmp_timer st, ps_received = False\<rparr>]\<rparr>)"

definition icmp_send_echo_request :: "u32 \<Rightarrow> u16 \<Rightarrow> u16 \<Rightarrow> net \<Rightarrow> net option" where
  "icmp_send_echo_request dest ident seq st = do {
     let h = \<lparr>icmp_type = 8, icmp_code = 0, icmp_sum = 0, icmp_id = htons ident, icmp_seq = htons seq\<rparr>;
     c \<leftarrow> ip_checksum (enc_icmp h @ echo_payload) 64;
     ip_send dest 1 (enc_icmp (h\<lparr>icmp_sum := htons c\<rparr>) @ echo_payload) 64 (note_ping dest seq st) }"

definition answered :: "u32 \<Rightarrow> u16 \<Rightarrow> net \<Rightarrow> bool" where
  "answered dest seq st \<longleftrightarrow>
     (\<exists>p \<in> set (ping_states st). ps_ip p = dest \<and> ps_seq p = seq \<and> ps_received p)"

text \<open>The loop of \<open>icmp_wait_reply\<close>: \<open>icmp_timer\<close> counts its rounds and nothing else changes it.\<close>

lemma receive_one_timer: "receive_one ip_send st = Some st1 \<Longrightarrow> icmp_timer st1 = icmp_timer st"
  using receive_one_keeps[OF ip_send_keeps] by (simp add: keeps_def)

lemma timer_step:
  assumes "(t :: u32) - start < timeout"
  shows "unat timeout - unat (t + 1 - start) < unat timeout - unat (t - start)"
proof -
  have lt: "unat (t - start) < unat timeout" using assms by (simp add: word_less_nat_alt)
  moreover have "unat timeout < 2 ^ 32" using unsigned_less[where 'a = nat, of timeout] by simp
  ultimately have "unat (t - start + 1) = unat (t - start) + 1" by (simp add: unat_word_ariths)
  moreover have "t + 1 - start = t - start + 1" by simp
  ultimately have "unat (t + 1 - start) = unat (t - start) + 1" by (simp only:)
  then show ?thesis using lt by linarith
qed

function icmp_wait_loop :: "u32 \<Rightarrow> u16 \<Rightarrow> u32 \<Rightarrow> u32 \<Rightarrow> net \<Rightarrow> (int \<times> net) option" where
  "icmp_wait_loop dest seq start timeout_ms st =
     (if \<not> icmp_timer st - start < timeout_ms then Some (0, st)
      else case receive_one ip_send st of
          None \<Rightarrow> None
        | Some st1 \<Rightarrow> if answered dest seq st1 then Some (1, st1)
            else icmp_wait_loop dest seq start timeout_ms (st1\<lparr>icmp_timer := icmp_timer st1 + 1\<rparr>))"
  by pat_completeness auto
termination
  by (relation "measure (\<lambda>(d, q, start, timeout, st). unat timeout - unat (icmp_timer st - start))")
    (auto simp: receive_one_timer timer_step)

declare icmp_wait_loop.simps [simp del]

definition icmp_wait_reply :: "u32 \<Rightarrow> u16 \<Rightarrow> u32 \<Rightarrow> net \<Rightarrow> (int \<times> net) option" where
  "icmp_wait_reply dest seq timeout_ms st = icmp_wait_loop dest seq (icmp_timer st) timeout_ms st"

end
