(* ===== verification/Screen.thy ===== *)
theory Screen
  imports CString
begin

text \<open>
  The text screen, \<open>drivers/screen.c\<close>. The video memory at \<open>0xB8000\<close> is a function from cell
  numbers to 16-bit cells, of which the first 2000 are visible; a cell number outside that range
  would be memory the screen does not own. The CRT controller is written two bytes at a time;
  \<open>crtc_high\<close> and \<open>crtc_low\<close> are its cursor registers.
\<close>

section \<open>State and operations\<close>

abbreviation (input) SCREEN_WIDTH :: int where "SCREEN_WIDTH \<equiv> 80"
abbreviation (input) SCREEN_HEIGHT :: int where "SCREEN_HEIGHT \<equiv> 25"
abbreviation (input) NEWLINE :: u8 where "NEWLINE \<equiv> 10"
abbreviation (input) BACKSPACE :: u8 where "BACKSPACE \<equiv> 8"

record screen =
  cursor_x :: int
  cursor_y :: int
  current_foreground :: u8
  current_background :: u8
  video :: "int \<Rightarrow> u16"
  crtc_high :: u8
  crtc_low :: u8

definition update_cursor :: "screen \<Rightarrow> screen" where
  "update_cursor s = (let pos = cursor_y s * SCREEN_WIDTH + cursor_x s in
     s\<lparr>crtc_high := of_int (pos div 256), crtc_low := of_int pos\<rparr>)"

text \<open>
  \<open>(background << 12) | (foreground << 8) | c\<close>, truncated to 16 bits; \<open>c\<close> is a signed character.
\<close>

definition cell :: "screen \<Rightarrow> u8 \<Rightarrow> u16" where
  "cell s c = push_bit 12 (ucast (current_background s)) OR push_bit 8 (ucast (current_foreground s)) OR scast c"

definition scroll_down :: "screen \<Rightarrow> screen" where
  "scroll_down s = update_cursor (s\<lparr>video := (\<lambda>i.
       if 0 \<le> i \<and> i < SCREEN_WIDTH * (SCREEN_HEIGHT - 1) then video s (i + SCREEN_WIDTH)
       else if SCREEN_WIDTH * (SCREEN_HEIGHT - 1) \<le> i \<and> i < SCREEN_WIDTH * SCREEN_HEIGHT then cell s 32
       else video s i),
     cursor_y := SCREEN_HEIGHT - 1, cursor_x := 0\<rparr>)"

definition screen_init :: "screen \<Rightarrow> screen" where
  "screen_init s = update_cursor (s\<lparr>cursor_x := 0, cursor_y := 0, current_foreground := 0x0F, current_background := 0\<rparr>)"

definition screen_clear :: "screen \<Rightarrow> screen" where
  "screen_clear s = update_cursor (s\<lparr>video := (\<lambda>i. if 0 \<le> i \<and> i < SCREEN_WIDTH * SCREEN_HEIGHT then cell s 32 else video s i),
     cursor_x := 0, cursor_y := 0\<rparr>)"

definition screen_set_row :: "int \<Rightarrow> screen \<Rightarrow> screen" where
  "screen_set_row row s =
     (if 0 \<le> row \<and> row < SCREEN_HEIGHT then update_cursor (s\<lparr>cursor_y := row, cursor_x := 0\<rparr>) else s)"

definition screen_set_color :: "u8 \<Rightarrow> u8 \<Rightarrow> screen \<Rightarrow> screen" where
  "screen_set_color fg bg s = s\<lparr>current_foreground := fg, current_background := bg\<rparr>"

definition set_cell :: "int \<Rightarrow> u16 \<Rightarrow> screen \<Rightarrow> screen" where
  "set_cell pos v s = s\<lparr>video := (video s)(pos := v)\<rparr>"

definition screen_print_char :: "u8 \<Rightarrow> screen \<Rightarrow> screen" where
  "screen_print_char c s =
     (if c = NEWLINE then
        let s1 = s\<lparr>cursor_x := 0, cursor_y := cursor_y s + 1\<rparr> in
        update_cursor (if SCREEN_HEIGHT \<le> cursor_y s1 then scroll_down s1 else s1)
      else if c = BACKSPACE then
        let s1 = (if 0 < cursor_x s then s\<lparr>cursor_x := cursor_x s - 1\<rparr> else s) in
        update_cursor (set_cell (cursor_y s1 * SCREEN_WIDTH + cursor_x s1) (cell s1 32) s1)
      else
        let s1 = set_cell (cursor_y s * SCREEN_WIDTH + cursor_x s) (cell s c) s;
            s2 = s1\<lparr>cursor_x := cursor_x s1 + 1\<rparr>;
            s3 = (if SCREEN_WIDTH \<le> cursor_x s2 then
                    let s4 = s2\<lparr>cursor_x := 0, cursor_y := cursor_y s2 + 1\<rparr> in
                    if SCREEN_HEIGHT \<le> cursor_y s4 then scroll_down s4 else s4
                  else s2)
        in update_cursor s3)"

definition screen_backspace :: "screen \<Rightarrow> screen" where
  "screen_backspace s =
     (let s1 = (if 0 < cursor_x s then s\<lparr>cursor_x := cursor_x s - 1\<rparr>
                else if 0 < cursor_y s then s\<lparr>cursor_y := cursor_y s - 1, cursor_x := SCREEN_WIDTH - 1\<rparr>
                else s)
      in update_cursor (set_cell (cursor_y s1 * SCREEN_WIDTH + cursor_x s1) (cell s1 32) s1))"

definition screen_print :: "bytes \<Rightarrow> screen \<Rightarrow> screen" where
  "screen_print str s = fold screen_print_char str s"

section \<open>The cursor stays on the screen\<close>

definition screen_ok :: "screen \<Rightarrow> bool" where
  "screen_ok s \<longleftrightarrow> 0 \<le> cursor_x s \<and> cursor_x s < SCREEN_WIDTH \<and> 0 \<le> cursor_y s \<and> cursor_y s < SCREEN_HEIGHT"

text \<open>\<open>draws s t\<close>: the cursor is on the screen, and only visible cells have changed.\<close>

definition draws :: "screen \<Rightarrow> screen \<Rightarrow> bool" where
  "draws s t \<longleftrightarrow> screen_ok t \<and> (\<forall>i. \<not> (0 \<le> i \<and> i < SCREEN_WIDTH * SCREEN_HEIGHT) \<longrightarrow> video t i = video s i)"

lemma draws_refl: "screen_ok s \<Longrightarrow> draws s s"
  by (simp add: draws_def)

lemma draws_trans: "draws s t \<Longrightarrow> draws t u \<Longrightarrow> draws s u"
  by (simp add: draws_def)

lemma draws_ok: "draws s t \<Longrightarrow> screen_ok t"
  by (simp add: draws_def)

lemma update_cursor_simps [simp]:
  "cursor_x (update_cursor s) = cursor_x s" "cursor_y (update_cursor s) = cursor_y s"
  "video (update_cursor s) = video s" "current_foreground (update_cursor s) = current_foreground s"
  "current_background (update_cursor s) = current_background s" "draws s (update_cursor t) = draws s t"
  "cell (update_cursor s) c = cell s c"
  by (simp_all add: update_cursor_def Let_def draws_def screen_ok_def cell_def)

lemma cell_upd [simp]:
  "cell (s\<lparr>cursor_x := x\<rparr>) c = cell s c" "cell (s\<lparr>cursor_y := y\<rparr>) c = cell s c" "cell (s\<lparr>video := v\<rparr>) c = cell s c"
  by (simp_all add: cell_def)

lemma scroll_down_draws: "draws s (scroll_down s)"
  by (simp add: scroll_down_def draws_def screen_ok_def)

lemma print_char_draws: "screen_ok s \<Longrightarrow> draws s (screen_print_char c s)"
  by (auto simp: screen_print_char_def Let_def set_cell_def scroll_down_def draws_def screen_ok_def)

lemma screen_backspace_draws: "screen_ok s \<Longrightarrow> draws s (screen_backspace s)"
  by (auto simp: screen_backspace_def Let_def set_cell_def draws_def screen_ok_def)

lemma screen_clear_draws: "draws s (screen_clear s)"
  by (simp add: screen_clear_def draws_def screen_ok_def)

lemma screen_set_row_draws: "screen_ok s \<Longrightarrow> draws s (screen_set_row r s)"
  by (simp add: screen_set_row_def draws_def screen_ok_def)

lemma screen_set_color_draws: "screen_ok s \<Longrightarrow> draws s (screen_set_color f b s)"
  by (simp add: screen_set_color_def draws_def screen_ok_def)

lemma screen_print_draws: "screen_ok s \<Longrightarrow> draws s (screen_print str s)"
proof (induction str arbitrary: s)
  case (Cons c str)
  have "draws s (screen_print_char c s)" by (rule print_char_draws[OF Cons(2)])
  moreover have "draws (screen_print_char c s) (screen_print str (screen_print_char c s))"
    by (rule Cons(1)[OF draws_ok[OF calculation]])
  ultimately show ?case by (simp add: screen_print_def draws_trans)
qed (simp add: screen_print_def draws_refl)

section \<open>Operations as steps\<close>

inductive draw_step :: "screen \<Rightarrow> screen \<Rightarrow> bool" where
  "draw_step s (screen_init s)"
| "draw_step s (screen_clear s)"
| "draw_step s (screen_set_row r s)"
| "draw_step s (screen_set_color f b s)"
| "draw_step s (screen_print_char c s)"
| "draw_step s (screen_backspace s)"
| "draw_step s (screen_print str s)"

inductive draw_steps :: "screen \<Rightarrow> screen \<Rightarrow> bool" for s where
  "draw_steps s s"
| "draw_steps s t \<Longrightarrow> draw_step t u \<Longrightarrow> draw_steps s u"

lemma draw_step_draws: "draw_step s t \<Longrightarrow> screen_ok s \<Longrightarrow> draws s t"
  by (induction rule: draw_step.induct)
    (simp_all add: screen_clear_draws screen_set_row_draws screen_set_color_draws print_char_draws
      screen_backspace_draws screen_print_draws, simp add: screen_init_def draws_def screen_ok_def)

text \<open>
  C28: whatever is printed, erased and cleared in whatever order, the cursor stays on
  the screen of 80 by 25 cells, and no memory outside its 2000 cells is written.
\<close>

theorem screen_safe:
  assumes "screen_ok s" "draw_steps s t"
  shows "screen_ok t \<and> (\<forall>i. i < 0 \<or> 2000 \<le> i \<longrightarrow> video t i = video s i)"
proof -
  have "draws s t" using assms(2)
  proof induction
    case 1
    show ?case by (rule draws_refl[OF assms(1)])
  next
    case (2 t u)
    show ?case by (rule draws_trans[OF 2(3) draw_step_draws[OF 2(2) draws_ok[OF 2(3)]]])
  qed
  then show ?thesis by (auto simp: draws_def)
qed

definition blank_screen :: screen where
  "blank_screen = \<lparr>cursor_x = 0, cursor_y = 0, current_foreground = 0x0F, current_background = 0,
     video = (\<lambda>_. 0x0F20), crtc_high = 0, crtc_low = 0\<rparr>"

theorem screen_safe_witness:
  "video (screen_backspace (screen_print (lit ''hello'') blank_screen)) 2000 = 0x0F20"
proof -
  have "screen_ok blank_screen" by (simp add: screen_ok_def blank_screen_def)
  moreover have "draw_steps blank_screen (screen_backspace (screen_print (lit ''hello'') blank_screen))"
    by (rule draw_steps.intros(2)[OF draw_steps.intros(2)[OF draw_steps.intros(1) draw_step.intros(7)] draw_step.intros(6)])
  ultimately have "\<forall>i. i < 0 \<or> 2000 \<le> i \<longrightarrow>
      video (screen_backspace (screen_print (lit ''hello'') blank_screen)) i = video blank_screen i"
    by (rule screen_safe[THEN conjunct2])
  then have "video (screen_backspace (screen_print (lit ''hello'') blank_screen)) 2000 = video blank_screen 2000" by simp
  also have "\<dots> = 0x0F20" by (simp add: blank_screen_def)
  finally show ?thesis .
qed

section \<open>What a character does\<close>

lemma bit7_ge: "bit c 7 \<Longrightarrow> 128 \<le> c" for c :: u8
proof (rule ccontr)
  assume "bit c 7"
  then have "bit (unat c) 7" by (simp add: bit_unsigned_iff)
  moreover assume "\<not> 128 \<le> c"
  then have "unat c div 2 ^ 7 = 0" by (simp add: word_le_nat_alt)
  ultimately show False by (simp only: bit_iff_odd) simp
qed


text \<open>The cells of the screen in reading order, and where the cursor is among them.\<close>

definition screen_pos :: "screen \<Rightarrow> int" where
  "screen_pos s = cursor_y s * SCREEN_WIDTH + cursor_x s"

lemma print_char_cases:
  assumes "screen_ok s" "c \<noteq> 10" "c \<noteq> 8"
  shows "if screen_pos s < 1999 then screen_pos (screen_print_char c s) = screen_pos s + 1 \<and>
      video (screen_print_char c s) = (video s)(screen_pos s := cell s c)
    else screen_pos (screen_print_char c s) = 1920 \<and>
      (\<forall>i. 0 \<le> i \<and> i < 1920 \<longrightarrow> video (screen_print_char c s) i = ((video s)(screen_pos s := cell s c)) (i + 80)) \<and>
      (\<forall>i. 1920 \<le> i \<and> i < 2000 \<longrightarrow> video (screen_print_char c s) i = cell s 32)"
proof (cases "screen_pos s < 1999")
  case True
  then have "cursor_x s < 79 \<or> (cursor_x s = 79 \<and> cursor_y s < 24)"
    using assms(1) by (auto simp: screen_pos_def screen_ok_def)
  then show ?thesis using assms(2,3) True
    by (elim disjE) (simp_all add: screen_print_char_def Let_def set_cell_def screen_pos_def)
next
  case False
  then have "cursor_x s = 79 \<and> cursor_y s = 24"
    using assms(1) by (auto simp: screen_pos_def screen_ok_def)
  then show ?thesis using assms(2,3)
    by (simp add: screen_print_char_def Let_def set_cell_def screen_pos_def scroll_down_def)
qed

lemma newline_cases:
  assumes "screen_ok s"
  shows "if cursor_y s < 24 then screen_pos (screen_print_char NEWLINE s) = (cursor_y s + 1) * 80 \<and>
      video (screen_print_char NEWLINE s) = video s
    else screen_pos (screen_print_char NEWLINE s) = 1920 \<and>
      (\<forall>i. 0 \<le> i \<and> i < 1920 \<longrightarrow> video (screen_print_char NEWLINE s) i = video s (i + 80))"
  using assms by (simp add: screen_print_char_def Let_def screen_pos_def scroll_down_def screen_ok_def)

text \<open>
  A printable character is written at the cursor, with the current colours, and the
  cursor moves to the next cell in reading order; at the last cell of the screen all rows move up
  by one, the last row is blank, and the cursor is at its start. A newline moves to the start of
  the next row, and scrolls in the same way on the last row.
\<close>

lemma print_char_writes:
  assumes "screen_ok s" "32 \<le> c" "c < 127"
  shows "(let t = screen_print_char c s; v = (video s)(screen_pos s := push_bit 8 (push_bit 4 (ucast (current_background s))
        OR ucast (current_foreground s)) OR ucast c) in
      if screen_pos s < 1999 then screen_pos t = screen_pos s + 1 \<and> video t = v
      else screen_pos t = 1920 \<and> (\<forall>i. 0 \<le> i \<and> i < 1920 \<longrightarrow> video t i = v (i + 80)) \<and>
        (\<forall>i. 1920 \<le> i \<and> i < 2000 \<longrightarrow> video t i = cell s 32)) \<and>
    (let t = screen_print_char NEWLINE s in
      if cursor_y s < 24 then screen_pos t = (cursor_y s + 1) * 80 \<and> video t = video s
      else screen_pos t = 1920 \<and> (\<forall>i. 0 \<le> i \<and> i < 1920 \<longrightarrow> video t i = video s (i + 80)))"
proof -
  have nb: "c \<noteq> 10" "c \<noteq> 8" using assms(2) by auto
  have "\<not> bit c 7" using assms(3) bit7_ge[of c] by (auto simp: word_le_nat_alt word_less_nat_alt)
  then have high: "bit c n \<Longrightarrow> n < 7" for n using bit_imp_le_length[of c n] by (cases "n = 7") auto
  have sc: "scast c = (ucast c :: u16)"
    by (rule bit_word_eqI) (auto simp: bit_simps min_def split: if_splits dest: high)
  have ce: "cell s c = push_bit 8 (push_bit 4 (ucast (current_background s)) OR ucast (current_foreground s)) OR ucast c"
    unfolding cell_def sc by (simp add: push_bit_or or.assoc)
  show ?thesis unfolding ce[symmetric]
    using print_char_cases[OF assms(1) nb] newline_cases[OF assms(1)] by (simp only: Let_def)
qed

end
