(* ===== verification/Keyboard.thy ===== *)
theory Keyboard
  imports Screen
begin

text \<open>
  The keyboard, \<open>drivers/keyboard.c\<close>, and the password prompts of \<open>kernel/kernel.c\<close> and
  \<open>installer/installer.c\<close>. The keyboard controller is the list of the scancodes that will arrive:
  polling its status port returns when the next one is there. When the list is exhausted the
  machine waits; a function that waits returns \<open>None\<close> as its value (nested in the \<open>option\<close>
  of the functions that write memory, whose \<open>None\<close> is an access outside an object).
\<close>

section \<open>Scancodes\<close>

definition scancode_to_ascii :: bytes where
  "scancode_to_ascii =
     [0, 0] @ lit ''1234567890-='' @ [8] @
     [9] @ lit ''qwertyuiop[]'' @ [10] @
     [0] @ lit ''asdfghjkl;'' @ [39, 96] @
     [0, 92] @ lit ''zxcvbnm,./'' @ [0] @
     lit ''*'' @ [0] @ lit '' ''"

definition scancode_to_ascii_shift :: bytes where
  "scancode_to_ascii_shift =
     [0, 0] @ lit ''!@#$%^&*()_+'' @ [8] @
     [9] @ lit ''QWERTYUIOP{}'' @ [10] @
     [0] @ lit ''ASDFGHJKL:'' @ [34, 126] @
     [0, 124] @ lit ''ZXCVBNM<>?'' @ [0] @
     lit ''*'' @ [0] @ lit '' ''"

record keyboard =
  shift_pressed :: bool
  scancodes :: bytes

definition keyboard_init :: "keyboard \<Rightarrow> keyboard" where
  "keyboard_init kb = kb\<lparr>shift_pressed := False\<rparr>"

definition keyboard_get_scancode :: "keyboard \<Rightarrow> u8 option \<times> keyboard" where
  "keyboard_get_scancode kb = (case scancodes kb of
     [] \<Rightarrow> (None, kb)
   | k # ks \<Rightarrow> (Some k, kb\<lparr>scancodes := ks\<rparr>))"

fun getchar_loop :: "bool \<Rightarrow> bytes \<Rightarrow> u8 option \<times> keyboard" where
  "getchar_loop sh [] = (None, \<lparr>shift_pressed = sh, scancodes = []\<rparr>)"
| "getchar_loop sh (k # ks) =
     (if k = 0x2A \<or> k = 0x36 then getchar_loop True ks
      else if k = 0xAA \<or> k = 0xB6 then getchar_loop False ks
      else if k AND 0x80 \<noteq> 0 then getchar_loop sh ks
      else if unat k < length scancode_to_ascii then
        (let c = (if sh then scancode_to_ascii_shift ! unat k else scancode_to_ascii ! unat k) in
         if c \<noteq> 0 then (Some c, \<lparr>shift_pressed = sh, scancodes = ks\<rparr>) else getchar_loop sh ks)
      else getchar_loop sh ks)"

definition keyboard_getchar :: "keyboard \<Rightarrow> u8 option \<times> keyboard" where
  "keyboard_getchar kb = getchar_loop (shift_pressed kb) (scancodes kb)"

lemma getchar_loop_shorter:
  "getchar_loop sh ks = (Some c, kb) \<Longrightarrow> length (scancodes kb) < length ks"
  by (induction sh ks rule: getchar_loop.induct) (auto simp: Let_def split: if_splits)

section \<open>Lines\<close>

text \<open>
  The loop of \<open>keyboard_getline\<close>: \<open>buf\<close> is the caller's buffer of at least \<open>max_length\<close> bytes,
  \<open>index\<close> how much of it is used. \<open>echo\<close> is what is printed for a character. Reading a line needs
  the keys only up to its newline, so the recursion ends with the list of scancodes.
\<close>

function getline_loop :: "(u8 \<Rightarrow> u8) \<Rightarrow> int \<Rightarrow> nat \<Rightarrow> bytes \<Rightarrow> keyboard \<Rightarrow> screen \<Rightarrow> (bytes option \<times> keyboard \<times> screen) option" where
  "getline_loop echo max_length index buf kb sc =
     (case keyboard_getchar kb of
        (None, kb1) \<Rightarrow> Some (None, kb1, sc)
      | (Some c, kb1) \<Rightarrow>
          if c = 10 then do { buf1 \<leftarrow> wr buf index 0; Some (Some buf1, kb1, screen_print_char 10 sc) }
          else if c = 8 then
            (if 0 < index then getline_loop echo max_length (index - 1) buf kb1 (screen_backspace sc)
             else getline_loop echo max_length index buf kb1 sc)
          else if int index < max_length - 1 \<and> 32 \<le> sint c \<and> sint c \<le> 126 then
            (if index < length buf
             then getline_loop echo max_length (index + 1) (buf[index := c]) kb1 (screen_print_char (echo c) sc)
             else None)
          else getline_loop echo max_length index buf kb1 sc)"
  by pat_completeness auto
termination
  by (relation "measure (\<lambda>(echo, max_length, index, buf, kb, sc). length (scancodes kb))")
    (auto simp: keyboard_getchar_def dest: getchar_loop_shorter[OF sym])

declare getline_loop.simps [simp del]

definition keyboard_getline :: "bytes \<Rightarrow> int \<Rightarrow> keyboard \<Rightarrow> screen \<Rightarrow> (bytes option \<times> keyboard \<times> screen) option" where
  "keyboard_getline buffer max_length kb sc = getline_loop (\<lambda>c. c) max_length 0 buffer kb sc"

text \<open>Two functions with the same text, in \<open>kernel.c\<close> and in \<open>installer.c\<close>: they echo asterisks.\<close>

definition keyboard_getline_password :: "bytes \<Rightarrow> int \<Rightarrow> keyboard \<Rightarrow> screen \<Rightarrow> (bytes option \<times> keyboard \<times> screen) option" where
  "keyboard_getline_password buffer max_length kb sc = getline_loop (\<lambda>c. 42) max_length 0 buffer kb sc"

section \<open>What was typed\<close>

text \<open>The characters that a list of scancodes stands for.\<close>

definition key :: "bool \<Rightarrow> u8 \<Rightarrow> u8" where
  "key sh k = (if 58 \<le> k then 0 else (if sh then scancode_to_ascii_shift else scancode_to_ascii) ! unat k)"

fun typed :: "bool \<Rightarrow> bytes \<Rightarrow> bytes" where
  "typed sh [] = []"
| "typed sh (k # ks) =
     (if k \<in> {0x2A, 0x36} then typed True ks
      else if k \<in> {0xAA, 0xB6} then typed False ks
      else if key sh k = 0 then typed sh ks
      else key sh k # typed sh ks)"

lemma table_lengths: "length scancode_to_ascii = 58" "length scancode_to_ascii_shift = 58"
  by (simp_all add: scancode_to_ascii_def scancode_to_ascii_shift_def)

lemma getchar_loop_typed:
  "getchar_loop sh ks = (r, kb) \<Longrightarrow>
     (case r of None \<Rightarrow> typed sh ks = [] \<and> scancodes kb = []
      | Some c \<Rightarrow> typed sh ks = c # typed (shift_pressed kb) (scancodes kb))"
proof (induction sh ks rule: getchar_loop.induct)
  case (2 sh k ks)
  have small: "unat k < 58 \<longleftrightarrow> \<not> 58 \<le> k" by (auto simp: word_le_nat_alt)
  have "bit k 7 \<longleftrightarrow> k AND 0x80 \<noteq> 0" using bit_iff_and_push_bit_not_eq_0[of k 7] by simp
  then have high: "k AND 0x80 \<noteq> 0 \<Longrightarrow> 58 \<le> k" using bit7_ge[of k] by (auto simp: word_le_nat_alt)
  from 2 show ?case
    by (cases r) (auto simp: key_def table_lengths small Let_def split: if_splits dest: high)
qed auto

lemma keyboard_getchar_typed:
  assumes "keyboard_getchar kb = (r, kb1)"
  shows "r = None \<Longrightarrow> typed (shift_pressed kb) (scancodes kb) = [] \<and> scancodes kb1 = []"
    and "r = Some c \<Longrightarrow> typed (shift_pressed kb) (scancodes kb) = c # typed (shift_pressed kb1) (scancodes kb1)
           \<and> length (scancodes kb1) < length (scancodes kb)"
  using getchar_loop_typed[of "shift_pressed kb" "scancodes kb" r kb1] getchar_loop_shorter assms
  by (auto simp: keyboard_getchar_def)

text \<open>A line editor: a backspace removes the last character, a printable character is added while there is room.\<close>

definition edit :: "int \<Rightarrow> bytes \<Rightarrow> u8 \<Rightarrow> bytes" where
  "edit max_length l c =
     (if c = 8 then butlast l
      else if int (length l) < max_length - 1 \<and> 32 \<le> sint c \<and> sint c \<le> 126 then l @ [c]
      else l)"

definition edited :: "int \<Rightarrow> bytes \<Rightarrow> bytes" where
  "edited max_length cs = foldl (edit max_length) [] (takeWhile (\<lambda>c. c \<noteq> 10) cs)"

definition chars :: "keyboard \<Rightarrow> bytes" where
  "chars kb = typed (shift_pressed kb) (scancodes kb)"

definition getline_post :: "int \<Rightarrow> bytes \<Rightarrow> bytes \<Rightarrow> keyboard \<Rightarrow> screen \<Rightarrow> bytes option \<times> keyboard \<times> screen \<Rightarrow> bool" where
  "getline_post max_length l buf kb sc = (\<lambda>(r, kb1, sc1). draws sc sc1 \<and> (case r of
       None \<Rightarrow> 10 \<notin> set (chars kb) \<and> scancodes kb1 = []
     | Some buf1 \<Rightarrow> 10 \<in> set (chars kb) \<and> length buf1 = length buf \<and> 0 \<in> set buf1 \<and>
         cstr buf1 = foldl (edit max_length) l (takeWhile (\<lambda>c. c \<noteq> 10) (chars kb)) \<and>
         int (length (cstr buf1)) < max_length \<and>
         chars kb1 = tl (dropWhile (\<lambda>c. c \<noteq> 10) (chars kb)) \<and> length (scancodes kb1) < length (scancodes kb)))"

lemma getline_post_step:
  assumes "getline_post mx l2 buf2 kb1 sc1 x" "draws sc sc1" "length buf2 = length buf"
    and "chars kb = c # chars kb1" "c \<noteq> 10" "l2 = edit mx l c" "length (scancodes kb1) < length (scancodes kb)"
  shows "getline_post mx l buf kb sc x"
  using assms by (auto simp: getline_post_def intro: draws_trans split: option.splits)

lemma getline_loop_edits:
  assumes "screen_ok sc" "mx \<le> int (length buf)" "int index < mx" "c_string (take index buf)"
  shows "\<exists>x. getline_loop echo mx index buf kb sc = Some x \<and> getline_post mx (take index buf) buf kb sc x"
  using assms
proof (induction echo mx index buf kb sc rule: getline_loop.induct)
  case (1 echo mx index buf kb sc)
  note step = getline_loop.simps[of echo mx index buf kb sc]
  obtain r kb1 where r: "keyboard_getchar kb = (r, kb1)" by fastforce
  have len: "index < length buf" using "1.prems"(2,3) by simp
  then have tl: "length (take index buf) = index" by simp
  show ?case
  proof (cases r)
    case None
    with r keyboard_getchar_typed(1)[OF r] step "1.prems"(1) show ?thesis
      by (simp add: getline_post_def chars_def draws_refl)
  next
    case (Some c)
    with r have rc: "keyboard_getchar kb = (Some c, kb1)" by simp
    have cs: "chars kb = c # chars kb1" "length (scancodes kb1) < length (scancodes kb)"
      using keyboard_getchar_typed(2)[OF rc] by (simp_all add: chars_def)
    consider "c = 10" | "c = 8" "0 < index" | "c = 8" "index = 0"
      | "c \<noteq> 10" "c \<noteq> 8" "int index < mx - 1 \<and> 32 \<le> sint c \<and> sint c \<le> 126"
      | "c \<noteq> 10" "c \<noteq> 8" "\<not> (int index < mx - 1 \<and> 32 \<le> sint c \<and> sint c \<le> 126)" by fastforce
    then show ?thesis
    proof cases
      case 1
      have "buf[index := 0] = take index buf @ 0 # drop (Suc index) buf" using len by (simp add: upd_conv_take_nth_drop)
      then have "cstr (buf[index := 0]) = take index buf" using "1.prems"(4) by simp
      with 1 step rc len cs "1.prems"(1,3) show ?thesis
        by (simp add: getline_post_def print_char_draws wr_def set_update_memI)
    next
      case 2
      have b: "take (index - 1) buf = edit mx (take index buf) c" using 2 len by (simp add: edit_def butlast_take)
      moreover have "c_string (take (index - 1) buf)"
        unfolding b using "1.prems"(4) 2(1) by (auto simp: c_string_def edit_def dest: in_set_butlastD)
      ultimately obtain x where x: "getline_loop echo mx (index - 1) buf kb1 (screen_backspace sc) = Some x"
        "getline_post mx (take (index - 1) buf) buf kb1 (screen_backspace sc) x"
        using "1.IH"(1)[OF rc[symmetric] refl] 2 "1.prems" draws_ok[OF screen_backspace_draws] by fastforce
      with step rc 2 show ?thesis
        using getline_post_step[OF x(2) screen_backspace_draws[OF "1.prems"(1)] refl cs(1) _ b cs(2)] by simp
    next
      case 3
      then obtain x where x: "getline_loop echo mx index buf kb1 sc = Some x" "getline_post mx (take index buf) buf kb1 sc x"
        using "1.IH"(2)[OF rc[symmetric] refl] "1.prems" by fastforce
      have "take index buf = edit mx (take index buf) c" using 3 by (simp add: edit_def)
      with step rc 3 x(1) show ?thesis
        using getline_post_step[OF x(2) draws_refl[OF "1.prems"(1)] refl cs(1) _ _ cs(2)] by simp
    next
      case 4
      have t: "take (index + 1) (buf[index := c]) = edit mx (take index buf) c"
        using 4 len tl by (simp add: edit_def take_Suc_conv_app_nth)
      have "c \<noteq> 0" using 4 by auto
      then have "c_string (take (index + 1) (buf[index := c]))" unfolding t using "1.prems"(4) 4 tl by (simp add: edit_def)
      then obtain x where x: "getline_loop echo mx (index + 1) (buf[index := c]) kb1 (screen_print_char (echo c) sc) = Some x"
        "getline_post mx (take (index + 1) (buf[index := c])) (buf[index := c]) kb1 (screen_print_char (echo c) sc) x"
        using "1.IH"(3)[OF rc[symmetric] refl] 4 len "1.prems" draws_ok[OF print_char_draws] by fastforce
      with step rc 4 len show ?thesis
        using getline_post_step[OF x(2) print_char_draws[OF "1.prems"(1)] _ cs(1) 4(1) t cs(2)] by simp
    next
      case 5
      then obtain x where x: "getline_loop echo mx index buf kb1 sc = Some x" "getline_post mx (take index buf) buf kb1 sc x"
        using "1.IH"(4)[OF rc[symmetric] refl] "1.prems" by fastforce
      have "take index buf = edit mx (take index buf) c" using 5 tl by (simp add: edit_def)
      with step rc 5 x(1) show ?thesis
        using getline_post_step[OF x(2) draws_refl[OF "1.prems"(1)] refl cs(1) 5(1) _ cs(2)] by simp
    qed
  qed
qed

lemma getline_edits_with:
  assumes "screen_ok sc" "0 < mx" "mx \<le> int (length buf)"
  obtains r kb1 sc1 where "getline_loop echo mx 0 buf kb sc = Some (r, kb1, sc1)" "draws sc sc1"
    "r = None \<Longrightarrow> 10 \<notin> set (chars kb) \<and> scancodes kb1 = []"
    "\<And>b. r = Some b \<Longrightarrow> 10 \<in> set (chars kb) \<and> cstr b = edited mx (chars kb) \<and> int (length (cstr b)) < mx \<and> 0 \<in> set b \<and>
       chars kb1 = tl (dropWhile (\<lambda>c. c \<noteq> 10) (chars kb)) \<and> length (scancodes kb1) < length (scancodes kb)"
  using getline_loop_edits[of sc mx buf 0 echo kb] assms that
  by (auto simp: getline_post_def edited_def split: option.splits)

text \<open>The line read does not depend on what is echoed.\<close>

lemma getline_echo:
  "getline_loop echo mx index buf kb sc = Some (r, kb1, sc1) \<Longrightarrow>
     \<exists>sc2'. getline_loop echo2 mx index buf kb sc2 = Some (r, kb1, sc2')"
proof (induction echo mx index buf kb sc arbitrary: sc2 rule: getline_loop.induct)
  case (1 echo mx index buf kb sc)
  obtain g kb2 where g: "keyboard_getchar kb = (g, kb2)" by fastforce
  show ?case
  proof (cases g)
    case None
    with g "1.prems" show ?thesis by (simp add: getline_loop.simps[of _ mx index buf kb])
  next
    case (Some c)
    from 1 g Some show ?thesis
      by (auto simp: getline_loop.simps[of echo mx index buf kb sc] getline_loop.simps[of echo2 mx index buf kb sc2]
          Option.bind_eq_Some_conv split: if_splits)
  qed
qed

section \<open>The property\<close>

text \<open>
  C27: reading a line is editing it. When the keys hold a newline, \<open>keyboard_getline\<close> returns the
  characters typed before it, edited by a line editor that removes the last character for a
  backspace and takes a printable character while the buffer has room for it and the final NUL;
  the characters after the newline are left for the next call. Otherwise it waits for more keys.
  It never writes outside the buffer, and on the screen only visible cells change; the password
  prompt reads the same line.
\<close>

theorem getline_edits:
  assumes "screen_ok sc" "0 < max_length" "max_length \<le> int (length buf)"
  shows "\<exists>r kb1 sc1. keyboard_getline buf max_length kb sc = Some (r, kb1, sc1) \<and> draws sc sc1 \<and>
    (if 10 \<in> set (chars kb)
     then \<exists>b. r = Some b \<and> cstr b = edited max_length (chars kb) \<and> int (length (cstr b)) < max_length \<and>
       chars kb1 = tl (dropWhile (\<lambda>c. c \<noteq> 10) (chars kb))
     else r = None) \<and>
    (\<exists>sc2. keyboard_getline_password buf max_length kb sc = Some (r, kb1, sc2) \<and> draws sc sc2)"
proof -
  obtain r kb1 sc1 where 1: "getline_loop (\<lambda>c. c) max_length 0 buf kb sc = Some (r, kb1, sc1)" "draws sc sc1"
    "r = None \<Longrightarrow> 10 \<notin> set (chars kb) \<and> scancodes kb1 = []"
    "\<And>b. r = Some b \<Longrightarrow> 10 \<in> set (chars kb) \<and> cstr b = edited max_length (chars kb) \<and> int (length (cstr b)) < max_length \<and> 0 \<in> set b \<and>
       chars kb1 = tl (dropWhile (\<lambda>c. c \<noteq> 10) (chars kb)) \<and> length (scancodes kb1) < length (scancodes kb)"
    by (rule getline_edits_with[OF assms]) (rule that)
  obtain r2 kb2 sc2 where 2: "getline_loop (\<lambda>c. 42) max_length 0 buf kb sc = Some (r2, kb2, sc2)" "draws sc sc2"
    by (rule getline_edits_with[OF assms, of "\<lambda>c. 42" kb]) (rule that)
  have "(r2, kb2) = (r, kb1)"
    using getline_echo[OF 1(1), of "\<lambda>c. 42" sc] 2(1) by auto
  with 1 2 show ?thesis by (cases r) (auto simp: keyboard_getline_def keyboard_getline_password_def)
qed

theorem getline_edits_witness:
  "\<exists>b kb1 sc1. keyboard_getline (replicate 8 0) 8 \<lparr>shift_pressed = False, scancodes = [0x2A, 0x1E, 0xAA, 0x30, 0x0E, 0x2E, 0x1C]\<rparr>
     blank_screen = Some (Some b, kb1, sc1) \<and> cstr b = lit ''Ac''"
proof -
  let ?kb = "\<lparr>shift_pressed = False, scancodes = [0x2A, 0x1E, 0xAA, 0x30, 0x0E, 0x2E, 0x1C]\<rparr>"
  have c: "chars ?kb = [65, 98, 8, 99, 10]"
    by (simp add: chars_def key_def scancode_to_ascii_def scancode_to_ascii_shift_def)
  then have "edited 8 (chars ?kb) = lit ''Ac''" by (simp add: edited_def edit_def)
  with c getline_edits[of blank_screen 8 "replicate 8 0" ?kb] show ?thesis
    by (auto simp: screen_ok_def blank_screen_def)
qed

end
