(* ===== verification/Rtc.thy ===== *)
theory Rtc
  imports Prelude
begin

text \<open>
  The real time clock, \<open>drivers/rtc.c\<close>. The clock runs while the code reads it: \<open>regs n r\<close> is
  what register \<open>r\<close> holds at the \<open>n\<close>-th access and \<open>now\<close> counts the accesses. Status register B
  is written by the code only and is a field of its own. Waiting for the end of an update may take
  forever; then the result is \<open>None\<close>, as it is for an access outside an array.
\<close>

section \<open>State and operations\<close>

record clock =
  regs :: "nat \<Rightarrow> u8 \<Rightarrow> u8"
  reg_b :: u8
  now :: nat

definition cmos_read :: "u8 \<Rightarrow> clock \<Rightarrow> u8 \<times> clock" where
  "cmos_read reg ck =
     (if reg = 0x0B then reg_b ck else regs ck (now ck) reg, ck\<lparr>now := now ck + 1\<rparr>)"

definition bcd_to_binary :: "u8 \<Rightarrow> u8" where
  "bcd_to_binary bcd = drop_bit 4 bcd * 10 + (bcd AND 0x0F)"

partial_function (option) wait_update :: "clock \<Rightarrow> clock option" where
  "wait_update ck =
     (let (a, ck1) = cmos_read 0x0A ck in if a AND 0x80 \<noteq> 0 then wait_update ck1 else Some ck1)"

definition rtc_init :: "clock \<Rightarrow> clock" where
  "rtc_init ck = (let (status, ck1) = cmos_read 0x0B ck in ck1\<lparr>reg_b := status OR 0x02\<rparr>)"

record rtc_time =
  second :: u8
  minute :: u8
  hour :: u8
  day :: u8
  month :: u8
  year :: u16
  weekday :: u8

text \<open>What the code makes of the seven registers and of status register B.\<close>

definition decode_time :: "u8 \<Rightarrow> rtc_time \<Rightarrow> rtc_time" where
  "decode_time registerB t =
     (let t1 = (if registerB AND 0x04 = 0 then
                  \<lparr>second = bcd_to_binary (second t), minute = bcd_to_binary (minute t),
                   hour = bcd_to_binary (hour t), day = bcd_to_binary (day t), month = bcd_to_binary (month t),
                   year = ucast (bcd_to_binary (ucast (year t))), weekday = bcd_to_binary (weekday t)\<rparr>
                else t);
          t2 = t1\<lparr>year := year t1 + 2000\<rparr>
      in if registerB AND 0x02 = 0 \<and> hour t2 AND 0x80 \<noteq> 0
         then t2\<lparr>hour := ((hour t2 AND 0x7F) + 12) mod 24\<rparr> else t2)"

definition rtc_get_time :: "clock \<Rightarrow> (rtc_time \<times> clock) option" where
  "rtc_get_time ck = do {
     ck0 \<leftarrow> wait_update ck;
     let (s, ck1) = cmos_read 0x00 ck0;
     let (mi, ck2) = cmos_read 0x02 ck1;
     let (h, ck3) = cmos_read 0x04 ck2;
     let (d, ck4) = cmos_read 0x07 ck3;
     let (mo, ck5) = cmos_read 0x08 ck4;
     let (y, ck6) = cmos_read 0x09 ck5;
     let (w, ck7) = cmos_read 0x06 ck6;
     let (registerB, ck8) = cmos_read 0x0B ck7;
     Some (decode_time registerB \<lparr>second = s, minute = mi, hour = h, day = d, month = mo, year = ucast y,
             weekday = w\<rparr>, ck8) }"

definition leap :: "nat \<Rightarrow> bool" where
  "leap y \<longleftrightarrow> (y mod 4 = 0 \<and> y mod 100 \<noteq> 0) \<or> y mod 400 = 0"

text \<open>The loop over the years: \<open>y\<close> is the loop variable, \<open>k\<close> the number of iterations left.\<close>

fun add_years :: "nat \<Rightarrow> nat \<Rightarrow> u32 \<Rightarrow> u32" where
  "add_years y 0 days = days"
| "add_years y (Suc k) days = add_years (Suc y) k (days + (if leap y then 366 else 365))"

fun add_months :: "bytes \<Rightarrow> nat \<Rightarrow> nat \<Rightarrow> u32 \<Rightarrow> u32 option" where
  "add_months days_in_month m 0 days = Some days"
| "add_months days_in_month m (Suc k) days =
     (if m < length days_in_month then add_months days_in_month (Suc m) k (days + ucast (days_in_month ! m)) else None)"

text \<open>
  Month 0 makes the bound of the loop \<open>-1\<close>. The products are computed in \<open>int\<close>; they are below
  \<open>2 ^ 31\<close>, since the factors have 8 bits.
\<close>

definition rtc_get_unix_timestamp :: "clock \<Rightarrow> (u32 \<times> clock) option" where
  "rtc_get_unix_timestamp ck = do {
     (time, ck1) \<leftarrow> rtc_get_time ck;
     let days = add_years 1970 (unat (year time) - 1970) 0;
     let days_in_month = [31, 28, 31, 30, 31, 30, 31, 31, 30, 31, 30, 31];
     let days_in_month1 = (if leap (unat (year time)) then days_in_month[1 := 29] else days_in_month);
     days1 \<leftarrow> add_months days_in_month1 0 (unat (month time) - 1) days;
     let days2 = days1 + (ucast (day time) - 1);
     Some (days2 * 86400 + ucast (hour time) * 3600 + ucast (minute time) * 60 + ucast (second time), ck1) }"

section \<open>Lemmas: waiting and reading\<close>

lemma cmos_read_simps [simp]:
  "fst (cmos_read r ck) = (if r = 0x0B then reg_b ck else regs ck (now ck) r)"
  "snd (cmos_read r ck) = ck\<lparr>now := now ck + 1\<rparr>"
  by (simp_all add: cmos_read_def)

text \<open>The wait ends at the first access that finds the update bit clear.\<close>

lemma wait_update_ends:
  assumes "\<And>i. i < k \<Longrightarrow> regs ck (now ck + i) 0x0A AND 0x80 \<noteq> 0" "regs ck (now ck + k) 0x0A AND 0x80 = 0"
  shows "wait_update ck = Some (ck\<lparr>now := now ck + k + 1\<rparr>)"
  using assms
proof (induction k arbitrary: ck)
  case 0
  then show ?case by (subst wait_update.simps) (simp add: cmos_read_def)
next
  case (Suc k)
  have "wait_update (ck\<lparr>now := now ck + 1\<rparr>) = Some (ck\<lparr>now := now ck + 1 + k + 1\<rparr>)"
    using Suc.IH[of "ck\<lparr>now := now ck + 1\<rparr>"] Suc.prems(1)[of "Suc _"] Suc.prems(2) by simp
  then show ?case using Suc.prems(1)[of 0] by (subst wait_update.simps) (simp add: cmos_read_def)
qed

text \<open>The registers keep their values from the access \<open>n\<close> on, for the seven reads of the time.\<close>

definition steady :: "clock \<Rightarrow> nat \<Rightarrow> bool" where
  "steady ck n \<longleftrightarrow> (\<forall>i. n \<le> i \<and> i < n + 7 \<longrightarrow> regs ck i = regs ck n)"

definition raw_time :: "(u8 \<Rightarrow> u8) \<Rightarrow> rtc_time" where
  "raw_time r = \<lparr>second = r 0, minute = r 2, hour = r 4, day = r 7, month = r 8, year = ucast (r 9), weekday = r 6\<rparr>"

lemma cmos_read_at:
  "cmos_read r (ck\<lparr>now := n\<rparr>) = (if r = 0x0B then reg_b ck else regs ck n r, ck\<lparr>now := Suc n\<rparr>)"
  by (simp add: cmos_read_def)

lemma rtc_get_time_at:
  assumes "wait_update ck = Some (c\<lparr>now := n\<rparr>)" "\<And>i. n \<le> i \<Longrightarrow> i < n + 7 \<Longrightarrow> regs c i = r"
  shows "rtc_get_time ck = Some (decode_time (reg_b c) (raw_time r), c\<lparr>now := n + 8\<rparr>)"
proof -
  have "regs c n = r" "regs c (Suc n) = r" "regs c (Suc (Suc n)) = r" "regs c (Suc (Suc (Suc n))) = r"
    "regs c (Suc (Suc (Suc (Suc n)))) = r" "regs c (Suc (Suc (Suc (Suc (Suc n))))) = r"
    "regs c (Suc (Suc (Suc (Suc (Suc (Suc n)))))) = r"
    using assms(2) by simp_all
  then show ?thesis
    by (simp add: rtc_get_time_def assms(1) cmos_read_at raw_time_def)
qed

lemma rtc_get_time_steady:
  assumes "wait_update ck = Some ck0" "steady ck0 (now ck0)"
  shows "rtc_get_time ck = Some (decode_time (reg_b ck0) (raw_time (regs ck0 (now ck0))), ck0\<lparr>now := now ck0 + 8\<rparr>)"
proof (rule rtc_get_time_at[where c = ck0 and n = "now ck0", THEN trans])
  show "wait_update ck = Some (ck0\<lparr>now := now ck0\<rparr>)" using assms(1) by simp
  show "regs ck0 i = regs ck0 (now ck0)" if "now ck0 \<le> i" "i < now ck0 + 7" for i
    using assms(2) that unfolding steady_def by blast
qed simp

section \<open>The calendar\<close>

definition month_length :: "nat \<Rightarrow> nat \<Rightarrow> nat" where
  "month_length y m = (if m = 2 then (if leap y then 29 else 28) else if m \<in> {4, 6, 9, 11} then 30 else 31)"

definition year_length :: "nat \<Rightarrow> nat" where
  "year_length y = (if leap y then 366 else 365)"

text \<open>The day after a day.\<close>

fun next_day :: "nat \<times> nat \<times> nat \<Rightarrow> nat \<times> nat \<times> nat" where
  "next_day (y, m, d) =
     (if d < month_length y m then (y, m, d + 1) else if m < 12 then (y, m + 1, 1) else (y + 1, 1, 1))"

text \<open>The days from the first day of the year \<open>base\<close> to a date, as the code adds them up.\<close>

definition day_number :: "nat \<Rightarrow> nat \<times> nat \<times> nat \<Rightarrow> nat" where
  "day_number base = (\<lambda>(y, m, d). sum_list (map year_length [base..<y]) + sum_list (map (month_length y) [1..<m]) + (d - 1))"

definition valid_date :: "nat \<Rightarrow> nat \<times> nat \<times> nat \<Rightarrow> bool" where
  "valid_date base = (\<lambda>(y, m, d). base \<le> y \<and> 1 \<le> m \<and> m \<le> 12 \<and> 1 \<le> d \<and> d \<le> month_length y m)"

lemma upt_12: "[Suc 0..<12] = [1, 2, 3, 4, 5, 6, 7, 8, 9, 10, 11]"
  by (simp add: upt_rec[of "Suc 0"] numeral_2_eq_2[symmetric])

lemma months_of_year: "sum_list (map (month_length y) [Suc 0..<12]) + 31 = year_length y"
  by (simp add: upt_12 month_length_def year_length_def)

lemma next_day_valid: "valid_date base x \<Longrightarrow> valid_date base (next_day x)"
  by (cases x) (auto simp: valid_date_def month_length_def)

lemma next_day_number:
  assumes "valid_date base x"
  shows "day_number base (next_day x) = Suc (day_number base x)"
proof -
  obtain y m d where x: "x = (y, m, d)" by (cases x)
  consider "d < month_length y m" | "d = month_length y m" "m < 12" | "d = month_length y m" "m = 12"
    using assms by (auto simp: x valid_date_def order_le_less)
  then show ?thesis
  proof cases
    case 1
    then show ?thesis using assms by (auto simp: x valid_date_def day_number_def)
  next
    case 2
    then show ?thesis using assms by (auto simp: x valid_date_def day_number_def upt_Suc)
  next
    case 3
    then have "d = 31" by (simp add: month_length_def)
    then show ?thesis using assms 3 months_of_year[of y]
      by (auto simp: x valid_date_def day_number_def)
  qed
qed

lemma days_later:
  assumes "(next_day ^^ n) (base, 1, 1) = x"
  shows "valid_date base x \<and> day_number base x = n"
  using assms
proof (induction n arbitrary: x)
  case 0
  then show ?case by (auto simp: valid_date_def day_number_def month_length_def)
next
  case (Suc n)
  then show ?case by (auto simp: next_day_valid next_day_number simp del: next_day.simps)
qed

lemma next_day_within: "d + k \<le> month_length y m \<Longrightarrow> (next_day ^^ k) (y, m, d) = (y, m, d + k)"
  by (induction k) auto

lemma day_number_base: "b \<le> c \<Longrightarrow> c \<le> y \<Longrightarrow>
    day_number b (y, m, d) = sum_list (map year_length [b..<c]) + day_number c (y, m, d)"
  using upt_add_eq_append[of b c "y - c"] by (simp add: day_number_def)

lemma days_to_2000: "sum_list (map year_length [1970..<2000]) = 10957"
  by (simp add: year_length_def leap_def)

section \<open>The loops of the time stamp\<close>

lemma add_years_eq: "add_years y k days = days + of_nat (sum_list (map year_length [y..<y + k]))"
proof (induction y k days rule: add_years.induct)
  case (2 y k days)
  then show ?case by (simp add: upt_conv_Cons year_length_def del: upt_Suc)
qed simp

lemma add_months_eq:
  "m + k \<le> length dm \<Longrightarrow> add_months dm m k days = Some (days + of_nat (sum_list (map unat (take k (drop m dm)))))"
proof (induction dm m k days rule: add_months.induct)
  case (2 dm m k days)
  then show ?case by (simp add: Cons_nth_drop_Suc[symmetric])
qed simp

definition month_table :: "nat \<Rightarrow> bytes" where
  "month_table y = (if leap y then [31, 28, 31, 30, 31, 30, 31, 31, 30, 31, 30, 31][1 := 29]
     else [31, 28, 31, 30, 31, 30, 31, 31, 30, 31, 30, 31])"

lemma month_table_sum:
  assumes "1 \<le> m" "m \<le> 12"
  shows "sum_list (map unat (take (m - 1) (month_table y))) = sum_list (map (month_length y) [1..<m])"
proof -
  have "m = 1 \<or> m = 2 \<or> m = 3 \<or> m = 4 \<or> m = 5 \<or> m = 6 \<or> m = 7 \<or> m = 8 \<or> m = 9 \<or> m = 10 \<or> m = 11 \<or> m = 12"
    using assms by arith
  then show ?thesis
    by (elim disjE) (simp_all add: month_table_def month_length_def upt_rec[of "Suc 0"] numeral_2_eq_2[symmetric])
qed

lemma timestamp_eq:
  assumes "rtc_get_time ck = Some (t, ck1)" "1970 \<le> unat (year t)"
    and "1 \<le> unat (month t)" "unat (month t) \<le> 12" "1 \<le> unat (day t)"
  shows "rtc_get_unix_timestamp ck = Some (of_nat (day_number 1970 (unat (year t), unat (month t), unat (day t)) * 86400
     + unat (hour t) * 3600 + unat (minute t) * 60 + unat (second t)), ck1)"
proof -
  let ?y = "unat (year t)" and ?m = "unat (month t)" and ?d = "unat (day t)"
  let ?ys = "sum_list (map year_length [1970..<?y])" and ?ms = "sum_list (map (month_length ?y) [1..<?m])"
  have "length (month_table ?y) = 12" by (simp add: month_table_def)
  then have months: "add_months (month_table ?y) 0 (?m - 1) (add_years 1970 (?y - 1970) 0) = Some (of_nat ?ys + of_nat ?ms)"
    using month_table_sum[OF assms(3,4), of ?y] assms(2,4) add_months_eq[of 0 "?m - 1" "month_table ?y"]
      add_years_eq[of 1970 "?y - 1970" 0] by simp
  have "ucast (day t) - 1 = (of_nat (?d - 1) :: u32)" using assms(5) by (simp add: of_nat_diff)
  then have days: "of_nat ?ys + of_nat ?ms + (ucast (day t) - 1) = (of_nat (day_number 1970 (?y, ?m, ?d)) :: u32)"
    by (simp add: day_number_def)
  show ?thesis
    by (simp only: rtc_get_unix_timestamp_def assms(1) Option.bind.simps prod.case Let_def month_table_def[symmetric] months days)
      simp
qed

section \<open>The clock in BCD\<close>

definition bcd :: "nat \<Rightarrow> u8" where
  "bcd n = of_nat (n div 10 * 16 + n mod 10)"

lemma bcd_to_binary_unat:
  "unat (bcd_to_binary b) = unat b div 16 * 10 + unat b mod 16"
proof -
  have "b AND 0x0F = take_bit 4 b" by (simp add: take_bit_eq_mask mask_eq_decr_exp)
  then have "unat (b AND 0x0F) = unat b mod 16" by (simp add: take_bit_eq_mod unat_mod)
  moreover have "unat (drop_bit 4 b) = unat b div 16" by (simp add: drop_bit_eq_div unat_div)
  moreover have "unat b div 16 < 16" using unsigned_less[of b, where ?'a = nat] by (simp add: less_mult_imp_div_less)
  moreover have "unat b mod 16 < 16" by simp
  ultimately show ?thesis by (simp add: bcd_to_binary_def unat_word_ariths)
qed

lemma bcd_round_trip: "n < 100 \<Longrightarrow> unat (bcd_to_binary (bcd n)) = n"
proof -
  assume "n < 100"
  then have "n div 10 < 10" by simp
  then have "n div 10 * 16 + n mod 10 < 256" by linarith
  then have "unat (bcd n) = n div 10 * 16 + n mod 10" unfolding bcd_def unat_of_nat by simp
  then show ?thesis by (simp add: bcd_to_binary_unat)
qed

text \<open>In the 12-hour format bit 7 of the hour register means p.m.; the conversion from BCD destroys it.\<close>

lemma pm_hour_lost:
  assumes "b AND 0x06 = 0" "1 \<le> h" "h \<le> 12" "hour t = bcd h OR 0x80"
  shows "unat (hour (decode_time b t)) = 80 + h"
proof -
  have "b AND 4 = (b AND 6) AND 4" "b AND 2 = (b AND 6) AND 2" by (simp_all add: and.assoc)
  then have b: "b AND 4 = 0" "b AND 2 = 0" unfolding assms(1) by simp_all
  have "h = 1 \<or> h = 2 \<or> h = 3 \<or> h = 4 \<or> h = 5 \<or> h = 6 \<or> h = 7 \<or> h = 8 \<or> h = 9 \<or> h = 10 \<or> h = 11 \<or> h = 12"
    using assms(2,3) by arith
  then show ?thesis
    by (elim disjE) (simp_all add: decode_time_def b assms(4) bcd_def bcd_to_binary_def)
qed

text \<open>The clock shows a date and time of the years 2000 to 2099: BCD numbers, 24-hour format.\<close>

definition clock_shows :: "clock \<Rightarrow> nat \<times> nat \<times> nat \<Rightarrow> nat \<times> nat \<times> nat \<Rightarrow> bool" where
  "clock_shows ck = (\<lambda>(y, m, d) (h, mi, s). reg_b ck AND 0x04 = 0 \<and> reg_b ck AND 0x02 \<noteq> 0 \<and> steady ck (now ck) \<and>
     2000 \<le> y \<and> y < 2100 \<and> h < 24 \<and> mi < 60 \<and> s < 60 \<and>
     (let r = regs ck (now ck) in r 0x00 = bcd s \<and> r 0x02 = bcd mi \<and> r 0x04 = bcd h \<and> r 0x07 = bcd d \<and>
        r 0x08 = bcd m \<and> r 0x09 = bcd (y - 2000)))"

lemma get_time_shown:
  assumes "wait_update ck = Some ck0" "clock_shows ck0 (y, m, d) (h, mi, s)" "m < 100" "d < 100"
  obtains t ck1 where "rtc_get_time ck = Some (t, ck1)" "unat (year t) = y" "unat (month t) = m" "unat (day t) = d"
    "unat (hour t) = h" "unat (minute t) = mi" "unat (second t) = s"
proof -
  let ?t = "decode_time (reg_b ck0) (raw_time (regs ck0 (now ck0)))"
  have c: "reg_b ck0 AND 0x04 = 0" "reg_b ck0 AND 0x02 \<noteq> 0" "steady ck0 (now ck0)" "2000 \<le> y" "y < 2100"
    using assms(2) by (simp_all add: clock_shows_def)
  have "unat (bcd_to_binary (bcd (y - 2000))) = y - 2000" using c(5) by (intro bcd_round_trip) simp
  then have "unat (ucast (bcd_to_binary (bcd (y - 2000))) + (2000 :: u16)) = y"
    using c(4,5) by (simp add: unat_word_ariths unsigned_ucast_eq take_bit_eq_mod)
  moreover have "ucast (ucast b :: u16) = b" for b :: u8 by (rule bit_word_eqI) (simp add: bit_simps)
  ultimately show thesis
    using assms(2-4) c by (intro that[OF rtc_get_time_steady[OF assms(1) c(3)]])
      (simp_all add: clock_shows_def decode_time_def raw_time_def bcd_round_trip Let_def)
qed

lemma sum_list_bound: "(\<And>x. f x \<le> k) \<Longrightarrow> sum_list (map f xs) \<le> k * length xs" for k :: nat
  by (induction xs) (auto simp: add_mono)

lemma day_number_bound:
  assumes "valid_date base (y, m, d)"
  shows "day_number base (y, m, d) \<le> 366 * (y - base) + 371"
proof -
  have "sum_list (map year_length [base..<y]) \<le> 366 * (y - base)"
    using sum_list_bound[of year_length 366 "[base..<y]"] by (simp add: year_length_def)
  moreover have "sum_list (map (month_length y) [1..<m]) \<le> 31 * (m - 1)"
    using sum_list_bound[of "month_length y" 31 "[1..<m]"] by (simp add: month_length_def)
  moreover have "m \<le> 12" "d \<le> 31" using assms by (auto simp: valid_date_def month_length_def split: if_splits)
  ultimately show ?thesis by (simp add: day_number_def)
qed

section \<open>The property\<close>

text \<open>
  C29: \<open>rtc_get_unix_timestamp\<close> waits for the end of an update; if the registers then keep their values
  for the seven reads and show in BCD a time of day and the date that comes \<open>n\<close> days after
  1 January 2000, in the calendar with leap years, the result is 946684800 (the time stamp of that
  day) plus 86400 for each of the \<open>n\<close> days plus the seconds of the day, without overflow, for every
  date before 2100.
\<close>

theorem rtc_timestamp:
  assumes "wait_update ck = Some ck0" "clock_shows ck0 (y, m, d) (h, mi, s)" "(next_day ^^ n) (2000, 1, 1) = (y, m, d)"
  shows "\<exists>ts ck1. rtc_get_unix_timestamp ck = Some (ts, ck1) \<and> unat ts = 946684800 + 86400 * n + 3600 * h + 60 * mi + s"
proof -
  have date: "valid_date 2000 (y, m, d)" "day_number 2000 (y, m, d) = n"
    using days_later[OF assms(3)] by auto
  then have md: "1 \<le> m" "m \<le> 12" "1 \<le> d" "d \<le> 31" "2000 \<le> y"
    by (auto simp: valid_date_def month_length_def split: if_splits)
  have bounds: "y < 2100" "h < 24" "mi < 60" "s < 60" using assms(2) by (auto simp: clock_shows_def)
  obtain t ck1 where t: "rtc_get_time ck = Some (t, ck1)" "unat (year t) = y" "unat (month t) = m" "unat (day t) = d"
    "unat (hour t) = h" "unat (minute t) = mi" "unat (second t) = s"
    by (rule get_time_shown[OF assms(1,2)]) (use md in auto)
  have "day_number 1970 (y, m, d) = 10957 + n"
    using day_number_base[of 1970 2000 y m d] days_to_2000 date(2) md(5) by simp
  then have r: "rtc_get_unix_timestamp ck = Some (of_nat ((10957 + n) * 86400 + h * 3600 + mi * 60 + s), ck1)"
    using timestamp_eq[OF t(1)] t(2-7) md by simp
  have "n \<le> 366 * 99 + 371" using day_number_bound[OF date(1)] date(2) bounds(1) by simp
  then have "(10957 + n) * 86400 + h * 3600 + mi * 60 + s < 2 ^ 32" using bounds(2-4) by simp
  then have "unat (of_nat ((10957 + n) * 86400 + h * 3600 + mi * 60 + s) :: u32) = (10957 + n) * 86400 + h * 3600 + mi * 60 + s"
    unfolding unat_of_nat by simp
  with r show ?thesis by (intro exI conjI) auto
qed

text \<open>29 February 2000, 23:59:58, with one access during an update.\<close>

theorem rtc_timestamp_witness:
  "\<exists>ts ck1. rtc_get_unix_timestamp \<lparr>regs = (\<lambda>n r. if r = 0x0A then if n = 0 then 0x80 else 0
       else if r = 0 then 0x58 else if r = 2 then 0x59 else if r = 4 then 0x23 else if r = 7 then 0x29
       else if r = 8 then 0x02 else 0), reg_b = 0x02, now = 0\<rparr> = Some (ts, ck1) \<and> unat ts = 951868798"
proof -
  let ?r = "\<lambda>r::u8. if r = 0 then 0x58 else if r = 2 then 0x59 else if r = 4 then 0x23 else if r = 7 then 0x29
       else if r = 8 then 0x02 else (0::u8)"
  let ?ck = "\<lparr>regs = (\<lambda>n r. if r = 0x0A then if n = 0 then 0x80 else 0 else ?r r), reg_b = 0x02, now = 0\<rparr>"
  have "wait_update ?ck = Some (?ck\<lparr>now := now ?ck + 1 + 1\<rparr>)" by (rule wait_update_ends) simp_all
  then have w: "wait_update ?ck = Some (?ck\<lparr>now := 2\<rparr>)" by simp
  have "clock_shows (?ck\<lparr>now := 2\<rparr>) (2000, 2, 29) (23, 59, 58)"
    by (auto simp: clock_shows_def steady_def bcd_def Let_def fun_eq_iff)
  moreover have "(next_day ^^ 59) (2000, 1, 1) = (next_day ^^ 28) (next_day ((next_day ^^ 30) (2000, 1, 1)))"
    using funpow_add[of 28 "Suc 30" next_day] by (simp add: funpow.simps(2)[of 30, simplified])
  then have "(next_day ^^ 59) (2000, 1, 1) = (2000, 2, 29)"
    by (simp add: next_day_within month_length_def leap_def)
  ultimately show ?thesis using rtc_timestamp[OF w] by fastforce
qed

end
