(* ===== verification/Pci.thy ===== *)
theory Pci
  imports Prelude
begin

text \<open>
  The PCI bus, \<open>drivers/pci.c\<close>. The configuration space is a parameter: \<open>cfg\<close> gives the 32-bit
  register at a configuration address, as a write of the address to port \<open>0xCF8\<close> and a read of
  port \<open>0xCFC\<close> deliver it.
\<close>

section \<open>Configuration registers\<close>

type_synonym config_space = "u32 \<Rightarrow> u32"

text \<open>The BIOS has initialised the bus.\<close>

definition pci_init :: "config_space \<Rightarrow> config_space" where
  "pci_init cfg = cfg"

definition pci_address :: "u8 \<Rightarrow> u8 \<Rightarrow> u8 \<Rightarrow> u8 \<Rightarrow> u32" where
  "pci_address bus dev func offset =
     push_bit 16 (ucast bus) OR push_bit 11 (ucast dev) OR push_bit 8 (ucast func) OR
     (ucast offset AND 0xFC) OR 0x80000000"

definition pci_read_config :: "config_space \<Rightarrow> u8 \<Rightarrow> u8 \<Rightarrow> u8 \<Rightarrow> u8 \<Rightarrow> u32" where
  "pci_read_config cfg bus dev func offset = cfg (pci_address bus dev func offset)"

definition pci_write_config :: "u8 \<Rightarrow> u8 \<Rightarrow> u8 \<Rightarrow> u8 \<Rightarrow> u32 \<Rightarrow> config_space \<Rightarrow> config_space" where
  "pci_write_config bus dev func offset value cfg = cfg(pci_address bus dev func offset := value)"

record pci_device =
  vendor_id :: u16
  device_id :: u16
  bus :: u8
  device :: u8
  func :: u8
  dev_class :: u8
  dev_subclass :: u8
  bar0 :: u32
  bar1 :: u32
  irq :: u8

section \<open>Searching\<close>

text \<open>The three nested loops, in their order.\<close>

definition pci_functions :: "(u8 \<times> u8 \<times> u8) list" where
  "pci_functions = concat (map (\<lambda>b. concat (map (\<lambda>d. map (\<lambda>f. (of_nat b, of_nat d, of_nat f)) [0..<8]) [0..<32])) [0..<256])"

definition vendor_of :: "config_space \<Rightarrow> u8 \<times> u8 \<times> u8 \<Rightarrow> u16" where
  "vendor_of cfg = (\<lambda>(b, d, f). ucast (pci_read_config cfg b d f 0 AND 0xFFFF))"

definition device_of :: "config_space \<Rightarrow> u8 \<times> u8 \<times> u8 \<Rightarrow> u16" where
  "device_of cfg = (\<lambda>(b, d, f). ucast (drop_bit 16 (pci_read_config cfg b d f 0) AND 0xFFFF))"

definition class_of :: "config_space \<Rightarrow> u8 \<times> u8 \<times> u8 \<Rightarrow> u8" where
  "class_of cfg = (\<lambda>(b, d, f). ucast (drop_bit 24 (pci_read_config cfg b d f 0x08) AND 0xFF))"

definition subclass_of :: "config_space \<Rightarrow> u8 \<times> u8 \<times> u8 \<Rightarrow> u8" where
  "subclass_of cfg = (\<lambda>(b, d, f). ucast (drop_bit 16 (pci_read_config cfg b d f 0x08) AND 0xFF))"

text \<open>What the body of the innermost loop stores in \<open>*dev\<close>.\<close>

definition describe :: "config_space \<Rightarrow> u8 \<times> u8 \<times> u8 \<Rightarrow> pci_device" where
  "describe cfg x = (case x of (b, d, f) \<Rightarrow>
     \<lparr>vendor_id = vendor_of cfg x, device_id = device_of cfg x, bus = b, device = d, func = f,
      dev_class = class_of cfg x, dev_subclass = subclass_of cfg x,
      bar0 = pci_read_config cfg b d f 0x10, bar1 = pci_read_config cfg b d f 0x14,
      irq = ucast (pci_read_config cfg b d f 0x3C AND 0xFF)\<rparr>)"

definition pci_find_device :: "config_space \<Rightarrow> u16 \<Rightarrow> u16 \<Rightarrow> pci_device option" where
  "pci_find_device cfg vendor dev_id = map_option (describe cfg)
     (find (\<lambda>x. vendor_of cfg x \<noteq> 0xFFFF \<and> vendor_of cfg x = vendor \<and> device_of cfg x = dev_id) pci_functions)"

definition pci_find_class :: "config_space \<Rightarrow> u8 \<Rightarrow> u8 \<Rightarrow> pci_device option" where
  "pci_find_class cfg cls subcls = map_option (describe cfg)
     (find (\<lambda>x. vendor_of cfg x \<noteq> 0xFFFF \<and> class_of cfg x = cls \<and> subclass_of cfg x = subcls) pci_functions)"

section \<open>The order of the search\<close>

text \<open>The functions of the bus are numbered in the order in which the loops visit them.\<close>

definition slot :: "u8 \<times> u8 \<times> u8 \<Rightarrow> nat" where
  "slot = (\<lambda>(b, d, f). unat b * 256 + unat d * 8 + unat f)"

definition on_bus :: "u8 \<times> u8 \<times> u8 \<Rightarrow> bool" where
  "on_bus = (\<lambda>(b, d, f). unat d < 32 \<and> unat f < 8)"

lemma upt_blocks: "concat (map (\<lambda>i. [c + i * k..<c + i * k + k]) [0..<n]) = [c..<c + n * k]"
proof (induction n)
  case (Suc n)
  have "[c..<c + Suc n * k] = [c..<c + n * k] @ [c + n * k..<c + n * k + k]"
    using upt_add_eq_append[of c "c + n * k" k] by (simp add: ac_simps)
  with Suc show ?case by simp
qed simp

lemma slots: "map slot pci_functions = [0..<65536]"
proof -
  have f: "map (slot \<circ> (\<lambda>f. (of_nat b, of_nat d, of_nat f))) [0..<8] = [b * 256 + d * 8..<b * 256 + d * 8 + 8]"
    if "b < 256" "d < 32" for b d
  proof -
    have "map (slot \<circ> (\<lambda>f. (of_nat b, of_nat d, of_nat f))) [0..<8] = map (\<lambda>f. b * 256 + d * 8 + f) [0..<8]"
      using that by (auto simp: slot_def unat_of_nat)
    also have "\<dots> = map (\<lambda>f. f + (b * 256 + d * 8)) [0..<8]" by (simp add: add.commute)
    also have "\<dots> = [b * 256 + d * 8..<b * 256 + d * 8 + 8]" by (simp add: map_add_upt add.commute)
    finally show ?thesis .
  qed
  have d: "concat (map (\<lambda>d. map (slot \<circ> (\<lambda>f. (of_nat b, of_nat d, of_nat f))) [0..<8]) [0..<32]) = [0 + b * 256..<0 + b * 256 + 256]"
    if "b < 256" for b
  proof -
    have "concat (map (\<lambda>d. map (slot \<circ> (\<lambda>f. (of_nat b, of_nat d, of_nat f))) [0..<8]) [0..<32]) =
      concat (map (\<lambda>d. [b * 256 + d * 8..<b * 256 + d * 8 + 8]) [0..<32])"
      using f[OF that] by (intro arg_cong[where f = concat] map_cong) auto
    also have "\<dots> = [b * 256..<b * 256 + 256]" using upt_blocks[of "b * 256" 8 32] by simp
    finally show ?thesis by simp
  qed
  have "map slot pci_functions = concat (map (\<lambda>b. [0 + b * 256..<0 + b * 256 + 256]) [0..<256])"
    unfolding pci_functions_def map_concat map_map
    using d by (intro arg_cong[where f = concat] map_cong) (auto simp: map_concat o_def)
  also have "\<dots> = [0..<65536]" using upt_blocks[of 0 256 256] by simp
  finally show ?thesis .
qed

lemma slot_less: "on_bus x \<Longrightarrow> slot x < 65536"
proof -
  obtain b d f where x: "x = (b, d, f)" by (cases x)
  have "unat b < 256" using unsigned_less[of b, where ?'a = nat] by simp
  moreover assume "on_bus x"
  ultimately show "slot x < 65536" by (simp add: x slot_def on_bus_def)
qed

lemma slot_inj: "on_bus x \<Longrightarrow> on_bus y \<Longrightarrow> slot x = slot y \<Longrightarrow> x = y"
proof -
  obtain b d f where x: "x = (b, d, f)" by (cases x)
  obtain b2 d2 f2 where y: "y = (b2, d2, f2)" by (cases y)
  assume *: "on_bus x" "on_bus y" "slot x = slot y"
  then have eq: "unat b * 256 + unat d * 8 + unat f = unat b2 * 256 + unat d2 * 8 + unat f2"
    and less: "unat d < 32" "unat f < 8" "unat d2 < 32" "unat f2 < 8" by (simp_all add: x y on_bus_def slot_def)
  have "unat b = unat b2" using eq less by arith
  moreover from this have "unat d = unat d2" using eq less by arith
  ultimately have "unat b = unat b2" "unat d = unat d2" "unat f = unat f2" using eq by simp_all
  then show "x = y" by (simp add: x y word_unat_eq_iff)
qed

lemma on_bus_functions: "set pci_functions = {x. on_bus x}"
proof (rule set_eqI, rule iffI)
  fix x
  assume "x \<in> set pci_functions"
  then show "x \<in> {x. on_bus x}" by (auto simp: pci_functions_def on_bus_def unat_of_nat)
next
  fix x
  assume "x \<in> {x. on_bus x}"
  moreover obtain b d f where x: "x = (b, d, f)" by (cases x)
  ultimately have "unat b \<in> {0..<256}" "unat d \<in> {0..<32}" "unat f \<in> {0..<8}"
    using unsigned_less[of b, where ?'a = nat] by (auto simp: on_bus_def)
  moreover have "x = (of_nat (unat b), of_nat (unat d), of_nat (unat f))" by (simp add: x)
  ultimately show "x \<in> set pci_functions" unfolding pci_functions_def by force
qed

lemma find_slot:
  "find P pci_functions = Some x \<longleftrightarrow> on_bus x \<and> P x \<and> (\<forall>y. on_bus y \<and> slot y < slot x \<longrightarrow> \<not> P y)"
proof -
  have len: "length pci_functions = 65536" using arg_cong[OF slots, of length] by simp
  have nth: "slot (pci_functions ! i) = i" if "i < 65536" for i
    using arg_cong[OF slots, of "\<lambda>l. l ! i"] that len by simp
  have mem: "on_bus (pci_functions ! i)" if "i < 65536" for i
  proof -
    have "pci_functions ! i \<in> set pci_functions" by (rule nth_mem) (simp only: len that)
    then show ?thesis by (simp add: on_bus_functions)
  qed
  have at: "pci_functions ! slot y = y" if "on_bus y" for y
    by (rule slot_inj[OF mem[OF slot_less[OF that]] that nth[OF slot_less[OF that]]])
  show ?thesis
  proof
    assume "find P pci_functions = Some x"
    then obtain i where i: "i < 65536" "P x" "x = pci_functions ! i" "\<And>j. j < i \<Longrightarrow> \<not> P (pci_functions ! j)"
      unfolding find_Some_iff len by blast
    have "\<not> P y" if "on_bus y" "slot y < slot x" for y
      using i(4)[of "slot y"] at[OF that(1)] that(2) nth[OF i(1)] i(3) by simp
    with mem[OF i(1)] i(2,3) show "on_bus x \<and> P x \<and> (\<forall>y. on_bus y \<and> slot y < slot x \<longrightarrow> \<not> P y)" by blast
  next
    assume a: "on_bus x \<and> P x \<and> (\<forall>y. on_bus y \<and> slot y < slot x \<longrightarrow> \<not> P y)"
    then have x: "slot x < 65536" by (intro slot_less) blast
    have "\<not> P (pci_functions ! j)" if "j < slot x" for j
    proof -
      have j: "j < 65536" using that x by simp
      have "slot (pci_functions ! j) < slot x" unfolding nth[OF j] by (rule that)
      with a mem[OF j] show ?thesis by blast
    qed
    moreover have "pci_functions ! slot x = x" by (rule at) (use a in blast)
    ultimately show "find P pci_functions = Some x"
      unfolding find_Some_iff len using x a by (intro exI[of _ "slot x"]) simp
  qed
qed

section \<open>The property\<close>

definition has_ids :: "config_space \<Rightarrow> u16 \<Rightarrow> u16 \<Rightarrow> u8 \<times> u8 \<times> u8 \<Rightarrow> bool" where
  "has_ids cfg vendor dev_id x \<longleftrightarrow> vendor_of cfg x \<noteq> 0xFFFF \<and> vendor_of cfg x = vendor \<and> device_of cfg x = dev_id"

text \<open>
  C30: \<open>pci_find_device\<close> finds a function exactly when one on the bus has the two identifiers, and
  it is the first in the order of bus, device and function number; the record says where it is,
  so its registers are read from that function.
\<close>

theorem pci_find_first:
  "(pci_find_device cfg vendor dev_id = None \<longleftrightarrow> \<not> (\<exists>x. on_bus x \<and> has_ids cfg vendor dev_id x)) \<and>
   (pci_find_device cfg vendor dev_id = Some r \<longleftrightarrow>
     (\<exists>x. on_bus x \<and> has_ids cfg vendor dev_id x \<and> (\<forall>y. on_bus y \<and> slot y < slot x \<longrightarrow> \<not> has_ids cfg vendor dev_id y) \<and>
        r = describe cfg x)) \<and>
   (bus (describe cfg x), device (describe cfg x), func (describe cfg x)) = x"
proof -
  have P: "(\<lambda>x. vendor_of cfg x \<noteq> 0xFFFF \<and> vendor_of cfg x = vendor \<and> device_of cfg x = dev_id) = has_ids cfg vendor dev_id"
    by (simp add: has_ids_def fun_eq_iff)
  have "pci_find_device cfg vendor dev_id = None \<longleftrightarrow> \<not> (\<exists>x. on_bus x \<and> has_ids cfg vendor dev_id x)"
    unfolding pci_find_device_def P using on_bus_functions by (auto simp: find_None_iff)
  moreover have "pci_find_device cfg vendor dev_id = Some r \<longleftrightarrow>
     (\<exists>x. on_bus x \<and> has_ids cfg vendor dev_id x \<and> (\<forall>y. on_bus y \<and> slot y < slot x \<longrightarrow> \<not> has_ids cfg vendor dev_id y) \<and>
        r = describe cfg x)"
    unfolding pci_find_device_def P by (auto simp: find_slot)
  moreover have "(bus (describe cfg x), device (describe cfg x), func (describe cfg x)) = x"
    by (cases x) (simp add: describe_def)
  ultimately show ?thesis by blast
qed

theorem pci_find_first_witness:
  "\<exists>r. pci_find_device (\<lambda>a. if a = pci_address 0 3 0 0 then 0x813910EC else 0xFFFFFFFF) 0x10EC 0x8139 = Some r \<and>
     vendor_id r = 0x10EC \<and> device_id r = 0x8139"
proof -
  let ?cfg = "\<lambda>a. if a = pci_address 0 3 0 0 then 0x813910EC else 0xFFFFFFFF"
  have "on_bus (0, 3, 0) \<and> has_ids ?cfg 0x10EC 0x8139 (0, 3, 0)"
    by (simp add: on_bus_def has_ids_def vendor_of_def device_of_def pci_read_config_def)
  then have "pci_find_device ?cfg 0x10EC 0x8139 \<noteq> None"
    using pci_find_first[where cfg = ?cfg and vendor = "0x10EC" and dev_id = "0x8139", THEN conjunct1] by blast
  then obtain r where r: "pci_find_device ?cfg 0x10EC 0x8139 = Some r" by blast
  then obtain x where x: "has_ids ?cfg 0x10EC 0x8139 x" "r = describe ?cfg x"
    unfolding pci_find_first[where cfg = ?cfg and vendor = "0x10EC" and dev_id = "0x8139" and r = r, THEN conjunct2, THEN conjunct1] by blast
  have "vendor_id (describe ?cfg x) = vendor_of ?cfg x" "device_id (describe ?cfg x) = device_of ?cfg x"
    by (cases x, simp add: describe_def)+
  with x have "vendor_id r = 0x10EC" "device_id r = 0x8139" unfolding has_ids_def by metis+
  with r show ?thesis by blast
qed

end
