(* ===== verification/Machine.thy ===== *)
theory Machine
  imports NetApps Keyboard Rtc Pci FsOps
begin

text \<open>
  The state of the whole machine as the programs of \<open>kernel\<close>, \<open>shell\<close>, \<open>bin\<close> and \<open>installer\<close> see
  it, what a call may end in, and the first functions that use several drivers: printing,
  reading a line, \<open>network_init\<close> of \<open>drivers/network.c\<close>.
\<close>

section \<open>State\<close>

text \<open>
  \<open>fsys\<close>, \<open>nets\<close>, \<open>scr\<close>, \<open>kbd\<close> and \<open>rtc\<close> are the states of the components; \<open>pci\<close> is the
  configuration space, and \<open>idr\<close> and \<open>resets\<close> what the address registers and the command register of the network
  card read. \<open>current_dir\<close>
  and \<open>user\<close> are the strings in the static buffers of \<open>shell/shell.c\<close>. \<open>garbage\<close> is what an
  uninitialised local buffer holds. \<open>pending\<close> lists how many scancodes will be waiting at each of
  the loops that empty the keyboard controller, \<open>port64\<close> is what its status port reads when the
  system is restarted, and \<open>power_outs\<close> are the writes to I/O ports by which the system is to be switched off or restarted, in their order.
\<close>

record machine =
  fsys :: fs
  nets :: net
  scr :: screen
  kbd :: keyboard
  rtc :: clock
  pci :: config_space
  idr :: bytes
  resets :: bytes
  current_dir :: bytes
  user :: bytes
  garbage :: bytes
  pending :: "nat list"
  port64 :: u8
  power_outs :: "io_event list"

text \<open>
  The end of a call: it returns, it waits for ever (for a key or for the clock), it executes a software
  interrupt, or memory outside an object would be accessed. \<open>Interrupts n rs m\<close> is the
  state \<open>m\<close> at the instruction \<open>int n\<close> with \<open>rs\<close> in the registers \<open>ax\<close>, \<open>bx\<close> and \<open>cx\<close>, as far
  as the code sets them. The model ends there: the kernel runs in protected mode, where these instructions reach no BIOS, and
  loads no interrupt descriptor table.
\<close>

datatype 'a outcome = Returns 'a machine | Waits machine | Interrupts u8 "u16 list" machine | Undefined

fun and_then :: "'a outcome \<Rightarrow> ('a \<Rightarrow> machine \<Rightarrow> 'b outcome) \<Rightarrow> 'b outcome" where
  "and_then (Returns x m) f = f x m"
| "and_then (Waits m) f = Waits m"
| "and_then (Interrupts n rs m) f = Interrupts n rs m"
| "and_then Undefined f = Undefined"

definition returns :: "machine option \<Rightarrow> unit outcome" where
  "returns r = (case r of None \<Rightarrow> Undefined | Some m \<Rightarrow> Returns () m)"

lemma returns_simps [simp]: "returns None = Undefined" "returns (Some m) = Returns () m"
  by (simp_all add: returns_def)

lemma and_then_cong [fundef_cong]:
  "r = r' \<Longrightarrow> (\<And>x m. r' = Returns x m \<Longrightarrow> f x m = g x m) \<Longrightarrow> and_then r f = and_then r' g"
  by (cases r') simp_all

lemma and_then_Returns [simp]:
  "and_then r f = Returns y m \<longleftrightarrow> (\<exists>x m1. r = Returns x m1 \<and> f x m1 = Returns y m)"
  by (cases r) simp_all

section \<open>Printing\<close>

definition emit :: "bytes \<Rightarrow> machine \<Rightarrow> machine" where
  "emit str m = m\<lparr>scr := screen_print str (scr m)\<rparr>"

text \<open>A literal, and a literal that ends with a newline.\<close>

definition print :: "string \<Rightarrow> machine \<Rightarrow> machine" where
  "print s m = emit (lit s) m"

definition println :: "string \<Rightarrow> machine \<Rightarrow> machine" where
  "println s m = emit (lit s @ [10]) m"

definition color :: "u8 \<Rightarrow> u8 \<Rightarrow> machine \<Rightarrow> machine" where
  "color fg bg m = m\<lparr>scr := screen_set_color fg bg (scr m)\<rparr>"

definition row :: "int \<Rightarrow> machine \<Rightarrow> machine" where
  "row r m = m\<lparr>scr := screen_set_row r (scr m)\<rparr>"

text \<open>\<open>m1\<close> differs from \<open>m\<close> on the screen only, and there as drawing can.\<close>

definition drawn :: "machine \<Rightarrow> machine \<Rightarrow> bool" where
  "drawn m m1 \<longleftrightarrow> (\<exists>sc. m1 = m\<lparr>scr := sc\<rparr> \<and> (screen_ok (scr m) \<longrightarrow> draws (scr m) sc))"

section \<open>Reading a line\<close>

definition line_result :: "machine \<Rightarrow> (bytes option \<times> keyboard \<times> screen) option \<Rightarrow> bytes outcome" where
  "line_result m r = (case r of
       None \<Rightarrow> Undefined
     | Some (b, kb, sc) \<Rightarrow>
         let m1 = m\<lparr>kbd := kb, scr := sc\<rparr> in
         case b of None \<Rightarrow> Waits m1 | Some buf \<Rightarrow> Returns (cstr buf) m1)"

text \<open>A call with a local buffer of \<open>n\<close> bytes and \<open>sizeof\<close> of it.\<close>

definition read_line :: "nat \<Rightarrow> machine \<Rightarrow> bytes outcome" where
  "read_line n m = line_result m (keyboard_getline (take n (garbage m)) (int n) (kbd m) (scr m))"

definition read_password :: "nat \<Rightarrow> machine \<Rightarrow> bytes outcome" where
  "read_password n m = line_result m (keyboard_getline_password (take n (garbage m)) (int n) (kbd m) (scr m))"

definition out_port :: "io_event \<Rightarrow> machine \<Rightarrow> machine" where
  "out_port w m = m\<lparr>power_outs := power_outs m @ [w]\<rparr>"

text \<open>The loops that read at most \<open>n\<close> scancodes while some are waiting.\<close>

definition drain :: "nat \<Rightarrow> machine \<Rightarrow> machine" where
  "drain n m = (case pending m of
       [] \<Rightarrow> m
     | k # ks \<Rightarrow> m\<lparr>kbd := (kbd m)\<lparr>scancodes := drop (min k n) (scancodes (kbd m))\<rparr>, pending := ks\<rparr>)"

section \<open>Strings of the superblock\<close>

definition host_name :: "machine \<Rightarrow> bytes option" where
  "host_name m = map_option cstr (fs_get_hostname (fsys m) (take 64 (garbage m)))"

definition user_name :: "machine \<Rightarrow> bytes option" where
  "user_name m = map_option cstr (fs_get_username (fsys m) (take 64 (garbage m)))"

section \<open>\<open>network_init\<close>\<close>

definition hex_digit :: "u8 \<Rightarrow> u8" where
  "hex_digit n = lit ''0123456789ABCDEF'' ! unat n"

fun print_mac :: "bytes \<Rightarrow> machine \<Rightarrow> machine" where
  "print_mac [] m = m"
| "print_mac (b # bs) m =
     (let m1 = emit [hex_digit (drop_bit 4 b), hex_digit (b AND 0xF)] m in
      print_mac bs (if bs \<noteq> [] then print '':'' m1 else m1))"

definition network_init :: "machine \<Rightarrow> unit outcome" where
  "network_init m = (case pci_find_device (pci m) 0x10EC 0x8139 of
       Some nic \<Rightarrow>
         let m1 = println ''[NET] Found RTL8139 NIC'' m;
             command = (ucast (pci_read_config (pci m1) (bus nic) (device nic) (func nic) 4 AND 0xFFFF) :: u16) OR 0x05;
             m2 = m1\<lparr>pci := pci_write_config (bus nic) (device nic) (func nic) 4 (ucast command) (pci m1)\<rparr>
         in (case rtl8139_init (bar0 nic) (resets m2) (idr m2) (nets m2) of
               None \<Rightarrow> Waits m2
             | Some st \<Rightarrow> Returns () (println '''' (print_mac (mac_address st) (print ''[NET] MAC: '' (m2\<lparr>nets := st\<rparr>)))))
     | None \<Rightarrow> Returns () (println ''[NET] No supported network card found'' m))"

definition network_is_ready :: "machine \<Rightarrow> bool" where
  "network_is_ready m = initialized (nets m)"

section \<open>Lemmas\<close>

lemma drawn_refl [simp]: "drawn m m"
  by (auto simp: drawn_def draws_refl intro: exI[of _ "scr m"])

lemma drawn_trans: "drawn m m1 \<Longrightarrow> drawn m1 m2 \<Longrightarrow> drawn m m2"
proof -
  assume "drawn m m1" "drawn m1 m2"
  then obtain s1 s2 where "m1 = m\<lparr>scr := s1\<rparr>" "screen_ok (scr m) \<longrightarrow> draws (scr m) s1"
    "m2 = m\<lparr>scr := s2\<rparr>" "screen_ok s1 \<longrightarrow> draws s1 s2" by (auto simp: drawn_def)
  then show "drawn m m2" by (auto simp: drawn_def dest: draws_ok intro!: exI[of _ s2] intro: draws_trans)
qed

lemma drawn_once:
  "drawn m (emit s m)" "drawn m (print t m)" "drawn m (println t m)" "drawn m (color f b m)" "drawn m (row r m)"
  by (auto simp: drawn_def emit_def print_def println_def color_def row_def screen_print_draws screen_set_color_draws
      screen_set_row_draws)

lemma drawn_steps [simp]:
  "drawn m n \<Longrightarrow> drawn m (emit s n)" "drawn m n \<Longrightarrow> drawn m (print t n)" "drawn m n \<Longrightarrow> drawn m (println t n)"
  "drawn m n \<Longrightarrow> drawn m (color f b n)" "drawn m n \<Longrightarrow> drawn m (row r n)"
  using drawn_once drawn_trans by blast+

lemma drawn_print_mac: "drawn m n \<Longrightarrow> drawn m (print_mac bs n)"
  by (induction bs arbitrary: n) (simp_all add: Let_def)

text \<open>Printing changes no other part of the machine.\<close>

lemma emit_simps [simp]:
  "fsys (emit s m) = fsys m" "nets (emit s m) = nets m" "kbd (emit s m) = kbd m" "rtc (emit s m) = rtc m" "pci (emit s m) = pci m"
  "idr (emit s m) = idr m" "resets (emit s m) = resets m" "current_dir (emit s m) = current_dir m" "user (emit s m) = user m" "garbage (emit s m) = garbage m"
  "pending (emit s m) = pending m" "power_outs (emit s m) = power_outs m" "port64 (emit s m) = port64 m" "scr (emit s m) = screen_print s (scr m)"
  by (simp_all add: emit_def)

lemma color_simps [simp]:
  "fsys (color f b m) = fsys m" "nets (color f b m) = nets m" "kbd (color f b m) = kbd m" "rtc (color f b m) = rtc m"
  "pci (color f b m) = pci m" "idr (color f b m) = idr m" "resets (color f b m) = resets m" "current_dir (color f b m) = current_dir m"
  "user (color f b m) = user m" "garbage (color f b m) = garbage m" "pending (color f b m) = pending m" "power_outs (color f b m) = power_outs m" "port64 (color f b m) = port64 m"
  by (simp_all add: color_def)

lemma row_simps [simp]:
  "fsys (row r m) = fsys m" "nets (row r m) = nets m" "kbd (row r m) = kbd m" "rtc (row r m) = rtc m"
  "pci (row r m) = pci m" "idr (row r m) = idr m" "resets (row r m) = resets m" "current_dir (row r m) = current_dir m"
  "user (row r m) = user m" "garbage (row r m) = garbage m" "pending (row r m) = pending m" "power_outs (row r m) = power_outs m" "port64 (row r m) = port64 m"
  by (simp_all add: row_def)

lemma print_simps [simp]:
  "fsys (print s m) = fsys m" "nets (print s m) = nets m" "kbd (print s m) = kbd m" "rtc (print s m) = rtc m"
  "pci (print s m) = pci m" "idr (print s m) = idr m" "resets (print s m) = resets m" "current_dir (print s m) = current_dir m"
  "user (print s m) = user m" "garbage (print s m) = garbage m" "pending (print s m) = pending m" "power_outs (print s m) = power_outs m" "port64 (print s m) = port64 m"
  by (simp_all add: print_def)

lemma println_simps [simp]:
  "fsys (println s m) = fsys m" "nets (println s m) = nets m" "kbd (println s m) = kbd m" "rtc (println s m) = rtc m"
  "pci (println s m) = pci m" "idr (println s m) = idr m" "resets (println s m) = resets m" "current_dir (println s m) = current_dir m"
  "user (println s m) = user m" "garbage (println s m) = garbage m" "pending (println s m) = pending m" "power_outs (println s m) = power_outs m" "port64 (println s m) = port64 m"
  by (simp_all add: println_def)

lemma drawnD:
  assumes "drawn m n"
  shows "fsys n = fsys m" "nets n = nets m" "kbd n = kbd m" "rtc n = rtc m" "pci n = pci m" "idr n = idr m"
    "current_dir n = current_dir m" "user n = user m" "garbage n = garbage m" "pending n = pending m"
    "screen_ok (scr m) \<Longrightarrow> screen_ok (scr n)"
  using assms by (auto simp: drawn_def dest: draws_ok)

text \<open>What \<open>getline_edits_with\<close> says of a prompt.\<close>

definition reads :: "nat \<Rightarrow> machine \<Rightarrow> bytes outcome \<Rightarrow> bool" where
  "reads n m r \<longleftrightarrow> (if 10 \<in> set (chars (kbd m))
     then \<exists>kb sc. r = Returns (edited (int n) (chars (kbd m))) (m\<lparr>kbd := kb, scr := sc\<rparr>) \<and> draws (scr m) sc \<and>
       chars kb = tl (dropWhile (\<lambda>c. c \<noteq> 10) (chars (kbd m))) \<and> length (scancodes kb) < length (scancodes (kbd m)) \<and>
       length (edited (int n) (chars (kbd m))) < n \<and> c_string (edited (int n) (chars (kbd m)))
     else \<exists>kb sc. r = Waits (m\<lparr>kbd := kb, scr := sc\<rparr>) \<and> draws (scr m) sc \<and> scancodes kb = [])"

lemma line_result_reads:
  assumes "screen_ok (scr m)" "0 < n" "n \<le> length (garbage m)"
  shows "reads n m (line_result m (getline_loop echo (int n) 0 (take n (garbage m)) (kbd m) (scr m)))"
proof -
  let ?g = "getline_loop echo (int n) 0 (take n (garbage m)) (kbd m) (scr m)"
  have n: "0 < int n" "int n \<le> int (length (take n (garbage m)))" using assms by simp_all
  obtain r kb sc where g: "?g = Some (r, kb, sc)" "draws (scr m) sc"
    "r = None \<Longrightarrow> 10 \<notin> set (chars (kbd m)) \<and> scancodes kb = []"
    "\<And>b. r = Some b \<Longrightarrow> 10 \<in> set (chars (kbd m)) \<and> cstr b = edited (int n) (chars (kbd m)) \<and> int (length (cstr b)) < int n \<and>
       0 \<in> set b \<and> chars kb = tl (dropWhile (\<lambda>c. c \<noteq> 10) (chars (kbd m))) \<and> length (scancodes kb) < length (scancodes (kbd m))"
    by (rule getline_edits_with[OF assms(1) n, where echo = echo and kb = "kbd m"]) (rule that)
  show ?thesis
  proof (cases r)
    case None
    with g show ?thesis by (auto simp: line_result_def reads_def Let_def)
  next
    case (Some b)
    from g(4)[OF Some] have b: "10 \<in> set (chars (kbd m))" "cstr b = edited (int n) (chars (kbd m))" "length (cstr b) < n"
      "chars kb = tl (dropWhile (\<lambda>c. c \<noteq> 10) (chars (kbd m)))" "length (scancodes kb) < length (scancodes (kbd m))" by auto
    then have "c_string (edited (int n) (chars (kbd m)))" using c_string_cstr[of b] by simp
    with b g(1,2) show ?thesis by (simp add: line_result_def reads_def Let_def Some) blast
  qed
qed

lemma prompts_read:
  assumes "screen_ok (scr m)" "0 < n" "n \<le> length (garbage m)"
  shows "reads n m (read_line n m)" "reads n m (read_password n m)"
  using line_result_reads[OF assms]
  by (simp_all add: read_line_def read_password_def keyboard_getline_def keyboard_getline_password_def)

text \<open>A prompt that returns has taken a key, whatever the state; loops of prompts end.\<close>

lemma getline_loop_takes:
  "getline_loop echo mx i buf kb sc = Some (Some b, kb1, sc1) \<Longrightarrow> length (scancodes kb1) < length (scancodes kb)"
proof (induction echo mx i buf kb sc rule: getline_loop.induct)
  case (1 echo mx i buf kb sc)
  obtain g kb2 where g: "keyboard_getchar kb = (g, kb2)" by fastforce
  show ?case
  proof (cases g)
    case None
    with g "1.prems" show ?thesis by (simp add: getline_loop.simps[of echo mx i buf kb sc])
  next
    case (Some c)
    then have "length (scancodes kb2) < length (scancodes kb)" using keyboard_getchar_typed(2)[OF g] by blast
    with 1 g Some show ?thesis
      by (fastforce simp: getline_loop.simps[of echo mx i buf kb sc] Option.bind_eq_Some_conv split: if_splits)
  qed
qed

lemma prompts_take:
  "read_line n m = Returns l m1 \<Longrightarrow> length (scancodes (kbd m1)) < length (scancodes (kbd m))"
  "read_password n m = Returns l m1 \<Longrightarrow> length (scancodes (kbd m1)) < length (scancodes (kbd m))"
  unfolding read_line_def read_password_def line_result_def keyboard_getline_def keyboard_getline_password_def Let_def
  by (auto split: option.splits simp: getline_loop_takes[of _ _ _ _ "kbd m"])

end
