(* ===== verification/Commands.thy ===== *)
theory Commands
  imports Machine
begin

text \<open>
  The commands of \<open>bin/\<close>. A command gets its arguments as the list of strings \<open>argv\<close>, whose first
  element is its own name; \<open>argc\<close> is the length of the list. Busy waiting has no effect.
\<close>

section \<open>Paths\<close>

text \<open>The local \<open>full_path[256]\<close> of the commands that take a path.\<close>

definition full_path :: "bytes \<Rightarrow> bytes \<Rightarrow> bytes option" where
  "full_path dir arg = fits 256
     (if arg \<noteq> [] \<and> hd arg = SLASH then arg
      else if dir = lit ''/'' then lit ''/'' @ arg
      else dir @ lit ''/'' @ arg)"

definition quoted :: "string \<Rightarrow> bytes \<Rightarrow> string \<Rightarrow> machine \<Rightarrow> machine" where
  "quoted before arg after m = println after (emit [39] (emit arg (emit (lit before @ [39]) m)))"

section \<open>Files and directories\<close>

definition cmd_cat :: "bytes list \<Rightarrow> machine \<Rightarrow> unit outcome" where
  "cmd_cat argv m =
     (if length argv < 2 then Returns () (println ''Usage: cat <filename>'' m)
      else returns (do {
        path \<leftarrow> full_path (current_dir m) (argv ! 1);
        (nbytes, buffer, s) \<leftarrow> fs_read_file path (take 16384 (garbage m)) 16384 (fsys m);
        let m1 = m\<lparr>fsys := s\<rparr>;
        if nbytes < 0
        then Some (println '': No such file or directory'' (emit (argv ! 1) (print ''cat: '' m1)))
        else if int (length buffer) < nbytes then None
        else let m2 = emit (take (nat nbytes) buffer) m1
             in Some (if 0 < nbytes \<and> buffer ! (nat nbytes - 1) \<noteq> 10 then println '''' m2 else m2) }))"

definition cmd_mkdir :: "bytes list \<Rightarrow> machine \<Rightarrow> unit outcome" where
  "cmd_mkdir argv m =
     (if length argv < 2 then Returns () (println ''Usage: mkdir <directory>'' m)
      else returns (do {
        path \<leftarrow> full_path (current_dir m) (argv ! 1);
        (r, s) \<leftarrow> fs_create_dir path (fsys m);
        let m1 = m\<lparr>fsys := s\<rparr>;
        Some (if r \<noteq> 0 then quoted ''mkdir: cannot create directory '' (argv ! 1) '': Error'' m1 else m1) }))"

definition cmd_rm :: "bytes list \<Rightarrow> machine \<Rightarrow> unit outcome" where
  "cmd_rm argv m =
     (if length argv < 2 then Returns () (println ''Usage: rm <filename>'' m)
      else returns (do {
        path \<leftarrow> full_path (current_dir m) (argv ! 1);
        (r, s) \<leftarrow> fs_delete_file path (fsys m);
        let m1 = m\<lparr>fsys := s\<rparr>;
        Some (if r \<noteq> 0 then quoted ''rm: cannot remove '' (argv ! 1) '': No such file or directory'' m1 else m1) }))"

definition cmd_touch :: "bytes list \<Rightarrow> machine \<Rightarrow> unit outcome" where
  "cmd_touch argv m =
     (if length argv < 2 then Returns () (println ''Usage: touch <filename>'' m)
      else returns (do {
        path \<leftarrow> full_path (current_dir m) (argv ! 1);
        (r, s) \<leftarrow> fs_create_file path (zstr []) 0 (fsys m);
        let m1 = m\<lparr>fsys := s\<rparr>;
        Some (if r \<noteq> 0 then quoted ''touch: cannot touch '' (argv ! 1) '''' m1 else m1) }))"

text \<open>
  The content that \<open>echo\<close> collects: \<open>out\<close> is \<open>content\<close> up to \<open>pos\<close>, the list holds the words still
  to come. A word that does not fit is left out.
\<close>

fun echo_words :: "bytes \<Rightarrow> bytes list \<Rightarrow> bytes" where
  "echo_words out [] = out"
| "echo_words out (w # ws) =
     (if length out + length w + 1 < FS_MAX_FILE_SIZE
      then echo_words (out @ w @ (if ws \<noteq> [] then [32] else [])) ws
      else echo_words out ws)"

fun print_words :: "bytes list \<Rightarrow> machine \<Rightarrow> machine" where
  "print_words [] m = m"
| "print_words (w # ws) m = print_words ws (if ws \<noteq> [] then print '' '' (emit w m) else emit w m)"

definition cmd_echo :: "bytes list \<Rightarrow> machine \<Rightarrow> unit outcome" where
  "cmd_echo argv m = (let argc = length argv in
     if argc < 2 then Returns () (println '''' m)
     else if 4 \<le> argc \<and> argv ! (argc - 2) = lit ''>'' then returns (do {
        let content = echo_words [] (take (argc - 3) (tl argv));
        path \<leftarrow> full_path (current_dir m) (argv ! (argc - 1));
        (r, s) \<leftarrow> fs_create_file path (zstr content) (of_nat (length content)) (fsys m);
        let m1 = m\<lparr>fsys := s\<rparr>;
        Some (if r \<noteq> 0 then println ''echo: write error'' m1 else m1) })
     else Returns () (println '''' (print_words (tl argv) m)))"

text \<open>
  Without an argument \<open>cd\<close> uses a local \<open>new_dir[64]\<close>, which it passes to \<open>fs_change_dir\<close> both as the
  path and as the current directory.
\<close>

definition cmd_cd :: "bytes list \<Rightarrow> machine \<Rightarrow> unit outcome" where
  "cmd_cd argv m =
     (if length argv < 2 then returns (do {
        new_dir \<leftarrow> fits 64 (lit ''/home/'' @ user m);
        (r, dir) \<leftarrow> fs_change_dir (fsys m) new_dir 64 new_dir;
        Some (if r = 0 then m\<lparr>current_dir := dir\<rparr> else m) })
      else returns (do {
        (r, dir) \<leftarrow> fs_change_dir (fsys m) (argv ! 1) 256 (current_dir m);
        Some (if r = 0 then m\<lparr>current_dir := dir\<rparr>
              else println '': No such file or directory'' (emit (argv ! 1) (print ''cd: '' m))) }))"

text \<open>The loop over the lines of the listing; a directory is printed in another colour.\<close>

function ls_lines :: "bytes \<Rightarrow> machine \<Rightarrow> machine" where
  "ls_lines str m =
     (if str = [] then m
      else let l = takeWhile (\<lambda>c. c \<noteq> 10) str;
               m1 = (if l \<noteq> [] \<and> last l = SLASH then color 0x0B 0x00 m else m);
               m2 = println '''' (color 0x0F 0x00 (emit l m1))
           in case dropWhile (\<lambda>c. c \<noteq> 10) str of [] \<Rightarrow> m2 | c # rest \<Rightarrow> ls_lines rest m2)"
  by pat_completeness auto
termination
  by (relation "measure (length \<circ> fst)") (auto dest: dropWhile_shorter)

declare ls_lines.simps [simp del]

definition cmd_ls :: "bytes list \<Rightarrow> machine \<Rightarrow> unit outcome" where
  "cmd_ls argv m = returns (do {
     (result, buffer) \<leftarrow> fs_list_dir (fsys m) (current_dir m) (take 2048 (garbage m)) 2048;
     Some (if result < 0 then quoted ''ls: cannot access '' (current_dir m) '': No such file or directory'' m
           else if result = 0 then m
           else ls_lines (cstr buffer) m) })"

section \<open>Information\<close>

definition cmd_clear :: "bytes list \<Rightarrow> machine \<Rightarrow> unit outcome" where
  "cmd_clear argv m = Returns () (m\<lparr>scr := screen_clear (scr m)\<rparr>)"

definition cmd_pwd :: "bytes list \<Rightarrow> machine \<Rightarrow> unit outcome" where
  "cmd_pwd argv m = Returns () (println '''' (emit (current_dir m) m))"

definition cmd_whoami :: "bytes list \<Rightarrow> machine \<Rightarrow> unit outcome" where
  "cmd_whoami argv m = Returns () (println '''' (emit (user m) m))"

definition cmd_uname :: "bytes list \<Rightarrow> machine \<Rightarrow> unit outcome" where
  "cmd_uname argv m = Returns () (println ''EphemeralOS'' m)"

definition help_lines :: "string list" where
  "help_lines =
     ['''', ''EphemeralOS Available Commands:'',
      ''================================'',
      ''help      - Show this help message'',
      ''clear     - Clear the screen'',
      ''ls        - List files and directories'',
      ''cd        - Change directory'',
      ''mkdir     - Create directory'',
      ''cat       - Display file contents'',
      ''echo      - Print text or create file'',
      ''touch     - Create empty file'',
      ''rm        - Remove file'',
      ''pwd       - Print working directory'',
      ''whoami    - Print current user'',
      ''uname     - Show system information'',
      ''date      - Show current date/time'',
      ''shutdown  - Power off the system'',
      ''reboot    - Restart the system'', '''',
      ''ping      - Test network connectivity'']"

definition cmd_help :: "bytes list \<Rightarrow> machine \<Rightarrow> unit outcome" where
  "cmd_help argv m = Returns () (fold println help_lines m)"

section \<open>\<open>date\<close>\<close>

definition weekday_names :: "string list" where
  "weekday_names = [''Sun'', ''Mon'', ''Tue'', ''Wed'', ''Thu'', ''Fri'', ''Sat'']"

definition month_names :: "string list" where
  "month_names = [''Jan'', ''Feb'', ''Mar'', ''Apr'', ''May'', ''Jun'', ''Jul'', ''Aug'', ''Sep'', ''Oct'', ''Nov'', ''Dec'']"

text \<open>The digits of a number, the last one first, as the loop stores them in \<open>temp[16]\<close>.\<close>

fun digits :: "nat \<Rightarrow> bytes" where
  "digits n = (if n = 0 then [] else of_nat (48 + n mod 10) # digits (n div 10))"

declare digits.simps [simp del]

definition int_to_str :: "nat \<Rightarrow> nat \<Rightarrow> bytes" where
  "int_to_str num min_width =
     (let temp = (if num = 0 then [48] else digits num)
      in replicate (min_width - length temp) 32 @ rev temp)"

text \<open>A field of the time with the leading 0 that the code means to add.\<close>

definition padded :: "u8 \<Rightarrow> bytes" where
  "padded v = (let num_str = int_to_str (unat v) 2 in if length num_str = 1 then lit ''0'' @ num_str else num_str)"

definition date_string :: "rtc_time \<Rightarrow> bytes" where
  "date_string t =
     lit (if 1 \<le> weekday t \<and> weekday t \<le> 7 then weekday_names ! (unat (weekday t) - 1) else weekday_names ! 0) @ lit '' '' @
     lit (if 1 \<le> month t \<and> month t \<le> 12 then month_names ! (unat (month t) - 1) else month_names ! 0) @ lit '' '' @
     int_to_str (unat (day t)) 2 @ lit '' '' @
     padded (hour t) @ lit '':'' @ padded (minute t) @ lit '':'' @ padded (second t) @ lit '' UTC '' @
     int_to_str (unat (year t)) 4 @ [10]"

definition cmd_date :: "bytes list \<Rightarrow> machine \<Rightarrow> unit outcome" where
  "cmd_date argv m = (case rtc_get_time (rtc m) of
       None \<Rightarrow> Waits m
     | Some (t, ck) \<Rightarrow> returns (do {
         buffer \<leftarrow> fits 128 (date_string t);
         Some (emit buffer (m\<lparr>rtc := ck\<rparr>)) }))"

section \<open>\<open>ping\<close>\<close>

definition octet_string :: "u8 \<Rightarrow> bytes" where
  "octet_string b = (if b = 0 then lit ''0'' else rev (digits (unat b)))"

definition ip_text :: "u32 \<Rightarrow> bytes" where
  "ip_text ip =
     octet_string (ucast (drop_bit 24 ip AND 0xFF)) @ lit ''.'' @
     octet_string (ucast (drop_bit 16 ip AND 0xFF)) @ lit ''.'' @
     octet_string (ucast (drop_bit 8 ip AND 0xFF)) @ lit ''.'' @ octet_string (ucast (ip AND 0xFF))"

definition print_ip :: "u32 \<Rightarrow> machine \<Rightarrow> machine" where
  "print_ip ip m = emit (ip_text ip) m"

text \<open>The loop over the four requests: \<open>k\<close> rounds are left, \<open>i\<close> is the loop variable.\<close>

fun ping_loop :: "u32 \<Rightarrow> nat \<Rightarrow> nat \<Rightarrow> nat \<Rightarrow> machine \<Rightarrow> (nat \<times> machine) option" where
  "ping_loop target i 0 received m = Some (received, m)"
| "ping_loop target i (Suc k) received m = do {
     let seq = of_nat (i + 1);
     st1 \<leftarrow> icmp_send_echo_request target 1234 seq (nets m);
     (r, st2) \<leftarrow> icmp_wait_reply target seq 1000 st1;
     let m1 = m\<lparr>nets := st2\<rparr>;
     if r \<noteq> 0
     then ping_loop target (i + 1) k (received + 1)
            (println '': bytes=64 time<1ms TTL=64'' (print_ip target (print ''Reply from '' m1)))
     else ping_loop target (i + 1) k received (println ''Request timed out.'' m1) }"

definition ping_statistics :: "u32 \<Rightarrow> nat \<Rightarrow> machine \<Rightarrow> machine" where
  "ping_statistics target received m =
     println '''' (emit [of_nat (48 + (4 - received))] (print '', Lost = '' (emit [of_nat (48 + received)]
       (print '', Received = '' (emit [of_nat (48 + 4)] (print ''    Packets: Sent = ''
         (println '':'' (print_ip target (print ''Ping statistics for '' (println '''' m))))))))))"

definition cmd_ping :: "bytes list \<Rightarrow> machine \<Rightarrow> unit outcome" where
  "cmd_ping argv m =
     (if length argv < 2 then Returns () (println ''Usage: ping <hostname or IP>'' m)
      else if \<not> network_is_ready m then Returns () (println ''ping: network not initialized'' m)
      else if ni_ip (network_get_info (nets m)) = 0 then Returns () (println ''ping: no IP address configured'' m)
      else let m1 = println '''' (emit (argv ! 1) (print ''PING '' m)) in
        returns (do {
          (found, st) \<leftarrow> dns_resolve (argv ! 1) (nets m1);
          let m2 = m1\<lparr>nets := st\<rparr>;
          case found of
            None \<Rightarrow> Some (println '''' (emit (argv ! 1) (print ''ping: cannot resolve '' m2)))
          | Some target \<Rightarrow> do {
              let m3 = println '''' (println '' with 64 bytes of data:'' (print_ip target (print ''Pinging '' m2)));
              (received, m4) \<leftarrow> ping_loop target 0 4 0 m3;
              Some (ping_statistics target received m4) } }))"

section \<open>\<open>shutdown\<close> and \<open>reboot\<close>\<close>

text \<open>
  After the message: \<open>out %ax, %dx\<close> with 0x2000 in both registers and \<open>int $0x15\<close>; the restart
  writes what the status port of the keyboard controller reads, with the bits of 0xFE set, to its command port,
  and executes \<open>int $0x19\<close>.
\<close>

definition cmd_shutdown :: "bytes list \<Rightarrow> machine \<Rightarrow> unit outcome" where
  "cmd_shutdown argv m =
     (let m1 = println ''Shutting down...'' m
      in Interrupts 0x15 [0x5307, 0x0001, 0x0003] (out_port (Outw 0x2000 0x2000) m1))"

definition cmd_reboot :: "bytes list \<Rightarrow> machine \<Rightarrow> unit outcome" where
  "cmd_reboot argv m =
     (let m1 = println ''Rebooting...'' m; temp = port64 m1
      in Interrupts 0x19 [] (out_port (Outb 0x64 (temp OR 0xFE)) m1))"

end
