(* ===== verification/Shell.thy ===== *)
theory Shell
  imports Commands
begin

text \<open>
  The shell, \<open>shell/shell.c\<close>: parsing a command line, the prompt, and the loop that reads and runs
  command lines. The loop ends with the list of scancodes, since every command line takes at least
  one and commands take none.
\<close>

section \<open>Command lines\<close>

abbreviation (input) MAX_ARGS :: nat where "MAX_ARGS \<equiv> 20"
abbreviation (input) MAX_ARG_LEN :: nat where "MAX_ARG_LEN \<equiv> 64"
abbreviation (input) QUOTE :: u8 where "QUOTE \<equiv> 34"

text \<open>
  \<open>args\<close> are the arguments that are complete, \<open>buf\<close> what \<open>argv_buffer[argc]\<close> holds of the next.
\<close>

fun parse_loop :: "bytes \<Rightarrow> bool \<Rightarrow> bytes \<Rightarrow> bytes list \<Rightarrow> bytes list" where
  "parse_loop [] in_quotes buf args =
     (if buf \<noteq> [] \<and> length args < MAX_ARGS then args @ [buf] else args)"
| "parse_loop (c # input) in_quotes buf args =
     (if MAX_ARGS \<le> length args then args
      else if c = QUOTE then parse_loop input (\<not> in_quotes) buf args
      else if (c = 32 \<or> c = 9) \<and> \<not> in_quotes then
        (if buf \<noteq> [] then parse_loop input in_quotes [] (args @ [buf]) else parse_loop input in_quotes buf args)
      else if length buf < MAX_ARG_LEN - 1 then parse_loop input in_quotes (buf @ [c]) args
      else parse_loop input in_quotes buf args)"

definition parse_command :: "bytes \<Rightarrow> bytes list" where
  "parse_command input = parse_loop input False [] []"

definition commands :: "(bytes \<times> (bytes list \<Rightarrow> machine \<Rightarrow> unit outcome)) list" where
  "commands =
     [(lit ''help'', cmd_help), (lit ''clear'', cmd_clear), (lit ''ls'', cmd_ls), (lit ''cd'', cmd_cd),
      (lit ''mkdir'', cmd_mkdir), (lit ''cat'', cmd_cat), (lit ''echo'', cmd_echo), (lit ''touch'', cmd_touch),
      (lit ''rm'', cmd_rm), (lit ''pwd'', cmd_pwd), (lit ''whoami'', cmd_whoami), (lit ''uname'', cmd_uname),
      (lit ''date'', cmd_date), (lit ''shutdown'', cmd_shutdown), (lit ''reboot'', cmd_reboot), (lit ''ping'', cmd_ping)]"

definition dispatch :: "bytes list \<Rightarrow> machine \<Rightarrow> unit outcome" where
  "dispatch argv m = (case find (\<lambda>c. fst c = argv ! 0) commands of
       Some c \<Rightarrow> snd c argv m
     | None \<Rightarrow> Returns () (println '': command not found'' (emit (argv ! 0) m)))"

text \<open>What \<open>shell_run\<close> does with a line.\<close>

definition run_line :: "bytes \<Rightarrow> machine \<Rightarrow> unit outcome" where
  "run_line command_line m =
     (if command_line = [] then Returns () m
      else let argv = parse_command command_line in if argv = [] then Returns () m else dispatch argv m)"

section \<open>The prompt\<close>

definition get_display_path :: "machine \<Rightarrow> bytes option" where
  "get_display_path m = do {
     user_home \<leftarrow> fits 128 (lit ''/home/'' @ user m);
     let cur = current_dir m;
     fits 256
       (if cur = user_home then lit ''~''
        else if length user_home < length cur \<and> cur ! length user_home = SLASH \<and> take (length user_home) cur = user_home
        then lit ''~'' @ drop (length user_home) cur
        else cur) }"

definition print_prompt :: "machine \<Rightarrow> machine option" where
  "print_prompt m = do {
     let m1 = print ''@'' (color 0x0F 0x00 (emit (user m) (color 0x0A 0x00 m)));
     host \<leftarrow> host_name m1;
     let m2 = print '':'' (color 0x0F 0x00 (emit host (color 0x0B 0x00 m1)));
     display_path \<leftarrow> get_display_path m2;
     Some (print ''$ '' (color 0x0F 0x00 (emit display_path (color 0x0E 0x00 m2)))) }"

section \<open>Starting and running\<close>

definition shell_init :: "machine \<Rightarrow> machine option" where
  "shell_init m = do {
     name \<leftarrow> user_name m;
     let m1 = m\<lparr>user := name, current_dir := lit ''/''\<rparr>;
     user_home \<leftarrow> fits 128 (lit ''/home/'' @ user m1);
     ex \<leftarrow> fs_dir_exists (fsys m1) user_home;
     if ex then map_option (\<lambda>d. m1\<lparr>current_dir := d\<rparr>) (fits 256 user_home) else Some m1 }"

definition shell_get_current_dir :: "machine \<Rightarrow> bytes" where
  "shell_get_current_dir m = current_dir m"

definition shell_set_current_dir :: "bytes \<Rightarrow> machine \<Rightarrow> machine option" where
  "shell_set_current_dir dir m = map_option (\<lambda>d. m\<lparr>current_dir := d\<rparr>) (fits 256 dir)"

definition shell_get_username :: "machine \<Rightarrow> bytes" where
  "shell_get_username m = user m"

section \<open>What commands leave alone\<close>

text \<open>The parts of the machine that no command changes.\<close>

definition parts :: "machine \<Rightarrow> keyboard \<times> config_space \<times> bytes \<times> bytes \<times> bytes \<times> nat list" where
  "parts m = (kbd m, pci m, idr m, user m, garbage m, pending m)"

lemma parts_simps [simp]:
  "parts (emit s m) = parts m" "parts (print t m) = parts m" "parts (println t m) = parts m" "parts (color f b m) = parts m"
  "parts (quoted a s c m) = parts m" "parts (print_ip ip m) = parts m" "parts (m\<lparr>fsys := s1\<rparr>) = parts m"
  "parts (m\<lparr>nets := n\<rparr>) = parts m" "parts (m\<lparr>scr := sc\<rparr>) = parts m" "parts (m\<lparr>current_dir := d\<rparr>) = parts m"
  "parts (m\<lparr>rtc := ck\<rparr>) = parts m"
  by (simp_all add: parts_def quoted_def print_ip_def)

lemma parts_loops [simp]:
  "parts (print_words ws m) = parts m" "parts (ls_lines s m) = parts m" "parts (fold println ls m) = parts m"
  "parts (ping_statistics t n m) = parts m"
proof -
  show "parts (print_words ws m) = parts m" by (induction ws m rule: print_words.induct) simp_all
  show "parts (ls_lines s m) = parts m"
    by (induction s m rule: ls_lines.induct) (subst ls_lines.simps, auto simp: Let_def split: list.split)
  show "parts (fold println ls m) = parts m" by (induction ls arbitrary: m) simp_all
  show "parts (ping_statistics t n m) = parts m" by (simp add: ping_statistics_def)
qed

lemma ping_loop_parts: "ping_loop t i k r m = Some (n, m1) \<Longrightarrow> parts m1 = parts m"
proof (induction k arbitrary: i r m)
  case (Suc k)
  from Suc.prems show ?case
    by (auto simp: Option.bind_eq_Some_conv Let_def split: if_splits dest!: Suc.IH)
qed simp

lemma returns_Returns [simp]: "returns r = Returns u m \<longleftrightarrow> r = Some m"
  by (auto simp: returns_def split: option.split)

text \<open>The rules that take a command apart into its calls.\<close>

lemmas command_simps = Let_def Option.bind_eq_Some_conv

lemma cmd_parts:
  "cmd_cat argv m = Returns u m1 \<Longrightarrow> parts m1 = parts m"
  "cmd_mkdir argv m = Returns u m1 \<Longrightarrow> parts m1 = parts m"
  "cmd_rm argv m = Returns u m1 \<Longrightarrow> parts m1 = parts m"
  "cmd_touch argv m = Returns u m1 \<Longrightarrow> parts m1 = parts m"
  "cmd_echo argv m = Returns u m1 \<Longrightarrow> parts m1 = parts m"
  "cmd_cd argv m = Returns u m1 \<Longrightarrow> parts m1 = parts m"
  "cmd_ls argv m = Returns u m1 \<Longrightarrow> parts m1 = parts m"
  by (auto simp: cmd_cat_def cmd_mkdir_def cmd_rm_def cmd_touch_def cmd_echo_def cmd_cd_def cmd_ls_def command_simps
      split: if_splits)

lemma info_parts:
  "cmd_clear argv m = Returns u m1 \<Longrightarrow> parts m1 = parts m"
  "cmd_pwd argv m = Returns u m1 \<Longrightarrow> parts m1 = parts m"
  "cmd_whoami argv m = Returns u m1 \<Longrightarrow> parts m1 = parts m"
  "cmd_uname argv m = Returns u m1 \<Longrightarrow> parts m1 = parts m"
  "cmd_help argv m = Returns u m1 \<Longrightarrow> parts m1 = parts m"
  "cmd_date argv m = Returns u m1 \<Longrightarrow> parts m1 = parts m"
  "cmd_shutdown argv m = Returns u m1 \<Longrightarrow> parts m1 = parts m"
  "cmd_reboot argv m = Returns u m1 \<Longrightarrow> parts m1 = parts m"
  by (auto simp: cmd_clear_def cmd_pwd_def cmd_whoami_def cmd_uname_def cmd_help_def cmd_date_def cmd_shutdown_def
      cmd_reboot_def command_simps split: option.splits prod.splits)

lemma ping_parts: "cmd_ping argv m = Returns u m1 \<Longrightarrow> parts m1 = parts m"
  by (auto simp: cmd_ping_def command_simps split: if_splits option.splits dest!: ping_loop_parts)

lemma command_parts: "c \<in> set commands \<Longrightarrow> snd c argv m = Returns u m1 \<Longrightarrow> parts m1 = parts m"
  by (auto simp: commands_def dest: cmd_parts info_parts ping_parts)

lemma run_line_parts: "run_line l m = Returns u m1 \<Longrightarrow> parts m1 = parts m"
  by (auto simp: run_line_def dispatch_def Let_def find_Some_iff split: if_splits option.splits
      dest: command_parts[OF nth_mem])

lemma print_prompt_parts: "print_prompt m = Some m1 \<Longrightarrow> parts m1 = parts m"
  by (auto simp: print_prompt_def command_simps)

lemma parts_keys: "parts m1 = parts m \<Longrightarrow> kbd m1 = kbd m"
  by (simp add: parts_def)

section \<open>The loop\<close>

function shell_run :: "machine \<Rightarrow> unit outcome" where
  "shell_run m = (case print_prompt m of
       None \<Rightarrow> Undefined
     | Some m1 \<Rightarrow> and_then (read_line 256 m1) (\<lambda>command_line m2.
         and_then (run_line command_line m2) (\<lambda>_ m3. shell_run m3)))"
  by pat_completeness auto
termination
proof (relation "measure (\<lambda>m. length (scancodes (kbd m)))", simp)
  fix m m1 l m2 u m3
  assume "print_prompt m = Some m1" "read_line 256 m1 = Returns l m2" "run_line l m2 = Returns u m3"
  then have "kbd m1 = kbd m" "kbd m3 = kbd m2" "length (scancodes (kbd m2)) < length (scancodes (kbd m1))"
    by (auto dest: print_prompt_parts run_line_parts prompts_take parts_keys)
  then show "(m3, m) \<in> measure (\<lambda>m. length (scancodes (kbd m)))" by simp
qed

declare shell_run.simps [simp del]

lemma shell_run_ends: "shell_run m \<noteq> Returns u m1"
proof (induction m rule: shell_run.induct)
  case (1 m)
  show ?case by (subst shell_run.simps) (auto split: option.split dest: "1.IH")
qed

end
