(* ===== verification/ShellParse.thy ===== *)
theory ShellParse
  imports Shell
begin

text \<open>
  \<open>parse_command\<close>: its result fits \<open>argv_buffer\<close> whatever the line, and it takes back the words
  that a command line is made of.
\<close>

section \<open>Bounds\<close>

definition word_fits :: "bytes \<Rightarrow> bool" where
  "word_fits w \<longleftrightarrow> w \<noteq> [] \<and> length w < MAX_ARG_LEN"

lemma parse_loop_bounds:
  assumes "length args \<le> MAX_ARGS" "list_all word_fits args" "length buf < MAX_ARG_LEN"
    and "c_string input" "c_string buf" "list_all c_string args"
  shows "length (parse_loop input q buf args) \<le> MAX_ARGS \<and> list_all word_fits (parse_loop input q buf args) \<and>
    list_all c_string (parse_loop input q buf args)"
  using assms by (induction input q buf args rule: parse_loop.induct) (auto simp: word_fits_def)

lemma parse_command_bounds:
  assumes "c_string input"
  shows "length (parse_command input) \<le> MAX_ARGS \<and> list_all word_fits (parse_command input) \<and>
    list_all c_string (parse_command input)"
  using parse_loop_bounds[of "[]" "[]" input False] assms by (simp add: parse_command_def)

section \<open>Words\<close>

text \<open>A word is written with quotes when it has a blank; it has no quote itself.\<close>

definition has_blank :: "bytes \<Rightarrow> bool" where
  "has_blank w \<longleftrightarrow> 32 \<in> set w \<or> 9 \<in> set w"

definition plain_word :: "bytes \<Rightarrow> bool" where
  "plain_word w \<longleftrightarrow> word_fits w \<and> QUOTE \<notin> set w"

definition written :: "bytes \<Rightarrow> bytes" where
  "written w = (if has_blank w then [QUOTE] @ w @ [QUOTE] else w)"

fun command_line :: "bytes list \<Rightarrow> bytes" where
  "command_line [] = []"
| "command_line (w # ws) = written w @ (if ws = [] then [] else 32 # command_line ws)"

lemma parse_chars:
  assumes "length args < MAX_ARGS" "length buf + length w < MAX_ARG_LEN" "QUOTE \<notin> set w" "q \<or> \<not> has_blank w"
  shows "parse_loop (w @ rest) q buf args = parse_loop rest q (buf @ w) args"
  using assms by (induction w arbitrary: buf) (auto simp: has_blank_def)

lemma parse_written:
  assumes "length args < MAX_ARGS" "plain_word w"
  shows "parse_loop (written w @ rest) False [] args = parse_loop rest False w args"
  using assms parse_chars[of args "[]" w True] parse_chars[of args "[]" w False]
  by (auto simp: written_def plain_word_def word_fits_def)

lemma parse_command_line:
  assumes "list_all plain_word ws" "length args + length ws \<le> MAX_ARGS"
  shows "parse_loop (command_line ws) False [] args = args @ ws"
  using assms
proof (induction ws arbitrary: args)
  case (Cons w ws)
  then have w: "w \<noteq> []" "length args < MAX_ARGS" by (simp_all add: plain_word_def word_fits_def)
  with Cons show ?case using parse_written[of args w] parse_written[of args w "[]"] by (cases ws) (auto simp: Cons.IH[of "args @ [w]"])
qed simp

section \<open>The property\<close>

text \<open>
  C13: parsing gives back the words of a command line: up to 20 words of 1 to 63 characters
  without quotes, separated by blanks, a word with a blank in quotes. And whatever line is parsed,
  the arguments fit the 20 rows of 64 bytes of \<open>argv_buffer\<close> with their NUL, and none is empty.
\<close>

theorem parse_round_trip:
  assumes "list_all plain_word ws" "length ws \<le> 20" "c_string input"
  shows "parse_command (command_line ws) = ws \<and> length (parse_command input) \<le> 20 \<and>
    (\<forall>a \<in> set (parse_command input). 1 \<le> length a \<and> length a \<le> 63)"
proof -
  have "\<forall>a \<in> set (parse_command input). word_fits a"
    using parse_command_bounds[OF assms(3)] by (auto simp: list_all_iff)
  moreover have "word_fits a \<Longrightarrow> 1 \<le> length a \<and> length a \<le> 63" for a
    by (cases a) (simp_all add: word_fits_def)
  ultimately show ?thesis
    using parse_command_line[OF assms(1), of "[]"] parse_command_bounds[OF assms(3)] assms(2)
    by (auto simp: parse_command_def)
qed

theorem parse_round_trip_witness:
  "parse_command (lit ''echo '' @ [34] @ lit ''a b'' @ [34] @ lit '' > f'') = [lit ''echo'', lit ''a b'', lit ''>'', lit ''f'']"
  using parse_round_trip[of "[lit ''echo'', lit ''a b'', lit ''>'', lit ''f'']" "[]"]
  by (simp add: plain_word_def word_fits_def written_def has_blank_def)

end
