(* ===== verification/NetDeliver.thy ===== *)
theory NetDeliver
  imports NetApps
begin

text \<open>
  What is sent arrives: the frame that \<open>eth_send_frame\<close> hands to the card, and what the receiving
  functions of another machine make of it, with the padding of short frames and whatever the
  receiver's buffer holds after the frame.
\<close>

section \<open>The shape of the state\<close>

definition net_ok :: "net \<Rightarrow> bool" where
  "net_ok st \<longleftrightarrow> initialized st \<and> length (tx_buffer st) = 2048 \<and> length (local_mac st) = 6 \<and>
     arp_ok st \<and> (\<forall>e \<in> set (arp_cache st). ae_valid e \<noteq> 0 \<longrightarrow> length (ae_mac e) = 6)"

lemma net_okD:
  assumes "net_ok st"
  shows "initialized st" "length (tx_buffer st) = 2048" "length (local_mac st) = 6" "arp_ok st"
    "arp_resolve ip st = Some mac \<Longrightarrow> length mac = 6"
  using assms by (auto simp: net_ok_def arp_resolve_def find_Some_iff intro: nth_mem)

lemma arp_add_ok:
  assumes ok: "net_ok st" and mac: "6 \<le> length mac"
  shows "net_ok (arp_add_entry ip mac st)"
proof -
  obtain k e where w: "arp_writes ip mac st k e" by (rule arp_add_writes[OF net_okD(4)[OF ok]])
  then have c: "arp_add_entry ip mac st = st\<lparr>arp_cache := (arp_cache st)[k := e]\<rparr>" "ae_mac e = take 6 mac"
    by (simp_all add: arp_writes_def)
  have "\<forall>x \<in> set (arp_cache (arp_add_entry ip mac st)). ae_valid x \<noteq> 0 \<longrightarrow> length (ae_mac x) = 6"
    using ok mac c set_update_subset_insert[of "arp_cache st" k e] by (fastforce simp: net_ok_def)
  with arp_writes_ok[OF net_okD(4)[OF ok] w] ok c(1) show ?thesis by (simp add: net_ok_def)
qed

section \<open>Frames\<close>

lemma length_eth_frame: "length d = 6 \<Longrightarrow> length s = 6 \<Longrightarrow> length (eth_frame d s ty p) = max 60 (14 + length p)"
  by (simp add: eth_frame_def Let_def length_enc_eth)

text \<open>The state after a transmission: only the driver's fields change.\<close>

definition transmits :: "bytes \<Rightarrow> net \<Rightarrow> net \<Rightarrow> bool" where
  "transmits f st st' \<longleftrightarrow> (\<exists>tx os. length tx = 2048 \<and>
     st' = st\<lparr>outs := os, tx_buffer := tx, sent := sent st @ [(tx_port st, f)], tx_port := (tx_port st + 1) mod 4\<rparr>)"

lemma transmitsD:
  assumes "transmits f st st'"
  shows "sent st' = sent st @ [(tx_port st, f)]" "ip_address st' = ip_address st" "arp_cache st' = arp_cache st"
    "local_mac st' = local_mac st" "ping_states st' = ping_states st" "udp_handlers st' = udp_handlers st"
    "net_ok st \<Longrightarrow> net_ok st'" "arp_resolve ip st' = arp_resolve ip st"
    "polls st' = polls st" "icmp_timer st' = icmp_timer st" "resolution_complete st' = resolution_complete st"
proof -
  from assms obtain tx os where "length tx = 2048" and st': "st' = st\<lparr>outs := os, tx_buffer := tx,
      sent := sent st @ [(tx_port st, f)], tx_port := (tx_port st + 1) mod 4\<rparr>" by (auto simp: transmits_def)
  then show "net_ok st \<Longrightarrow> net_ok st'" by (simp add: net_ok_def arp_ok_def)
  show "sent st' = sent st @ [(tx_port st, f)]" "ip_address st' = ip_address st" "arp_cache st' = arp_cache st"
    "local_mac st' = local_mac st" "ping_states st' = ping_states st" "udp_handlers st' = udp_handlers st"
    "arp_resolve ip st' = arp_resolve ip st" "polls st' = polls st" "icmp_timer st' = icmp_timer st"
    "resolution_complete st' = resolution_complete st"
    by (simp_all add: st' arp_resolve_def)
qed

lemma network_send_transmits:
  assumes "initialized st" "length (tx_buffer st) = 2048" "60 \<le> length f" "length f \<le> 2048" "n = of_nat (length f)"
  obtains st' where "network_send_packet f n st = Some st'" "transmits f st st'"
proof -
  have n: "unat n = length f" using assms(4,5) by (simp add: unat_nat16)
  then have "\<not> 2048 < n" "\<not> n < 60" using assms(3,4) by (simp_all add: word_less_nat_alt)
  then obtain os where "network_send_packet f n st = Some (st\<lparr>outs := os, tx_buffer := f @ drop (length f) (tx_buffer st),
      sent := sent st @ [(tx_port st, f)], tx_port := (tx_port st + 1) mod 4\<rparr>)"
    using assms n by (simp add: network_send_packet_def Let_def log_def)
  moreover have "length (f @ drop (length f) (tx_buffer st)) = 2048" using assms(2,4) by simp
  ultimately show ?thesis using that unfolding transmits_def by blast
qed

lemma eth_send_transmits:
  assumes ok: "net_ok st" and mac: "length mac = 6" and n: "unat n \<le> 1500" "unat n \<le> length data"
  obtains st' where "eth_send_frame mac ty data n st = Some st'"
    "transmits (eth_frame mac (local_mac st) ty (take (unat n) data)) st st'"
proof -
  let ?f = "eth_frame mac (local_mac st) ty (take (unat n) data)"
  have l: "length ?f = max 60 (14 + unat n)" using mac n net_okD(3)[OF ok] by (simp add: length_eth_frame)
  have n14: "unat (14 + n) = 14 + unat n" using n(1) by (simp add: unat_word_ariths)
  then have f: "(if 14 + n < 60 then 60 else 14 + n) = of_nat (length ?f)"
    unfolding l by (auto simp: word_less_nat_alt max_def word_unat_eq_iff unat_nat16)
  have bnd: "60 \<le> length ?f" "length ?f \<le> 2048" using n unfolding l by simp_all
  obtain st' where "network_send_packet ?f (of_nat (length ?f)) st = Some st'" "transmits ?f st st'"
    by (rule network_send_transmits[OF net_okD(1,2)[OF ok] bnd refl])
  moreover have "\<not> 1500 < n" using n(1) by (simp add: word_less_nat_alt)
  ultimately show ?thesis using that mac n f by (simp add: eth_send_frame_def Let_def)
qed

text \<open>Receiving it again.\<close>

lemma eth_receive_frame_eq:
  assumes d: "length d = 6" "length s = 6" and p: "length p \<le> 1500"
    and n: "n = of_nat (length (eth_frame d s ty p))"
  shows "eth_receive_with send (eth_frame d s ty p @ junk) n st =
    (let rest = replicate (46 - length p) 0 @ junk; m = of_nat (max 46 (length p)) in
     if ty = 0x0806 then arp_receive (p @ rest) m st
     else if ty = 0x0800 then ip_receive_with send (p @ rest) m st else Some st)"
proof -
  let ?h = "\<lparr>eth_dest = d, eth_src = s, eth_type = htons ty\<rparr>"
  have l14: "length (enc_eth ?h) = 14" using d by (simp add: length_enc_eth)
  then have f: "eth_frame d s ty p @ junk = enc_eth ?h @ p @ replicate (46 - length p) 0 @ junk"
    by (simp add: eth_frame_def Let_def)
  have ty: "ntohs (eth_type (dec_eth (eth_frame d s ty p @ junk))) = ty"
    unfolding f using d by (simp add: dec_enc_eth ntohs_def)
  have dr: "drop 14 (eth_frame d s ty p @ junk) = p @ replicate (46 - length p) 0 @ junk"
    unfolding f using l14 by simp
  have ln: "length (eth_frame d s ty p) = 14 + max 46 (length p)" using d by (simp add: length_eth_frame)
  have n14: "n - 14 = of_nat (max 46 (length p))" unfolding n ln by simp
  have "unat n = 14 + max 46 (length p)" unfolding n ln using p by (subst unat_nat16) auto
  then have "\<not> n < 14" "\<not> length (eth_frame d s ty p @ junk) < 14" using ln by (simp_all add: word_less_nat_alt)
  then show ?thesis unfolding eth_receive_with_def Let_def ty dr n14 by simp
qed

section \<open>Packets\<close>

lemma ip_receive_packet:
  assumes "length p = unat n" "unat n \<le> 1480" "20 + unat n \<le> unat m" "dest = ip_address st \<or> dest = 0xFFFFFFFF"
  shows "ip_receive_with send (enc_ip (new_ip_header a dest proto (20 + n)\<lparr>ip_sum := c\<rparr>) @ p @ rest) m st =
    (if proto = 1 then icmp_receive_with send (ip_address a) (p @ rest) n st
     else if proto = 17 then udp_receive (p @ rest) n st else Some st)"
proof -
  have n20: "unat (20 + n) = 20 + unat n" using assms(2) by (simp add: unat_word_ariths)
  then have m: "\<not> m < 20" "\<not> m < 20 + n" using assms(3) by (simp_all add: word_less_nat_alt)
  have v: "drop_bit 4 (0x45 :: u8) AND 0x0F = 4" "((0x45 :: u8) AND 0x0F) * 4 = 20"
    "unat (20 :: u8) = 20" "(ucast (20 :: u8) :: u16) = 20"
    by (simp_all add: drop_bit_eq_div)
  from assms(4) show ?thesis using m
    by (elim disjE) (simp_all add: ip_receive_with_def dec_enc_ip new_ip_header_def Let_def ntohs_def ntohl_def v)
qed

text \<open>\<open>ip_send\<close> when the address of the next hop is in the cache.\<close>

definition ip_packet :: "net \<Rightarrow> u32 \<Rightarrow> u8 \<Rightarrow> bytes \<Rightarrow> u16 \<Rightarrow> bytes" where
  "ip_packet st dest proto data n =
     (let h = new_ip_header st dest proto (20 + n)
      in enc_ip (h\<lparr>ip_sum := htons (the (ip_checksum (enc_ip h) 20))\<rparr>) @ take (unat n) data)"

lemma ip_target_id: "ip_target (st\<lparr>ip_id_counter := i\<rparr>) d = ip_target st d"
  by (simp add: ip_target_def)

lemma arp_resolve_id: "arp_resolve ip (st\<lparr>ip_id_counter := i\<rparr>) = arp_resolve ip st"
  by (simp add: arp_resolve_def)

lemma net_ok_id: "net_ok (st\<lparr>ip_id_counter := i\<rparr>) = net_ok st" "net_ok (st\<lparr>ping_states := ps\<rparr>) = net_ok st"
  by (simp_all add: net_ok_def arp_ok_def)

lemma ip_send_transmits:
  assumes ok: "net_ok st" and n: "unat n \<le> 1480" "unat n \<le> length data"
    and mac: "arp_resolve (ip_target st dest) st = Some mac"
  obtains st' where "ip_send dest proto data n st = Some st'"
    "transmits (eth_frame mac (local_mac st) 0x0800 (ip_packet st dest proto data n))
       (st\<lparr>ip_id_counter := ip_id_counter st + 1\<rparr>) st'"
proof -
  let ?s1 = "st\<lparr>ip_id_counter := ip_id_counter st + 1\<rparr>" and ?p = "ip_packet st dest proto data n"
  have n20: "unat (20 + n) = 20 + unat n" using n(1) by (simp add: unat_word_ariths)
  have lp: "length ?p = 20 + unat n" using n by (simp add: ip_packet_def Let_def)
  have ok1: "net_ok ?s1" using ok by (simp add: net_ok_id)
  obtain st' where s: "eth_send_frame mac 0x0800 ?p (20 + n) ?s1 = Some st'"
    "transmits (eth_frame mac (local_mac ?s1) 0x0800 (take (unat (20 + n)) ?p)) ?s1 st'"
    by (rule eth_send_transmits[where n = "20 + n" and data = ?p and ty = "0x0800", OF ok1 net_okD(5)[OF ok mac]]) (use n20 n lp in auto)
  obtain c where c: "ip_checksum (enc_ip (new_ip_header st dest proto (20 + n))) 20 = Some c"
    using ip_checksum_defined[of 20 "enc_ip (new_ip_header st dest proto (20 + n))"] by auto
  have "\<not> 1500 < 20 + n" "\<not> 1480 < n" using n n20 by (simp_all add: word_less_nat_alt)
  then have "ip_send dest proto data n st = Some st'"
    using s(1) c n mac by (simp add: ip_send_unfold ip_send_with_def ip_transmit_def Let_def ip_target_id
        arp_resolve_id ip_packet_def)
  moreover have "take (unat (20 + n)) ?p = ?p" using lp n20 by simp
  ultimately show ?thesis using that s(2) by simp
qed

lemma ip_packet_arrives:
  assumes "unat n \<le> 1480" "unat n \<le> length data" "ip_address b = dest \<or> dest = 0xFFFFFFFF"
    and "length d = 6" "length s = 6" "f = eth_frame d s 0x0800 (ip_packet a dest proto data n)"
  shows "eth_receive_frame (f @ junk) (of_nat (length f)) b =
    (let p = take (unat n) data @ replicate (26 - unat n) 0 @ junk in
     if proto = 1 then icmp_receive (ip_address a) p n b
     else if proto = 17 then udp_receive p n b else Some b)"
proof -
  let ?p = "ip_packet a dest proto data n"
  have lp: "length ?p = 20 + unat n" using assms(2) by (simp add: ip_packet_def Let_def)
  then have l: "length ?p \<le> 1500" using assms(1) by simp
  have m: "unat (of_nat (max 46 (length ?p)) :: u16) = max 46 (length ?p)"
    using l by (subst unat_nat16) auto
  have "eth_receive_frame (f @ junk) (of_nat (length f)) b =
      ip_receive_with ip_send (?p @ replicate (46 - length ?p) 0 @ junk) (of_nat (max 46 (length ?p))) b"
    unfolding eth_receive_frame_def assms(6) eth_receive_frame_eq[OF assms(4,5) l refl] by simp
  also have "?p @ replicate (46 - length ?p) 0 @ junk =
      enc_ip (new_ip_header a dest proto (20 + n)\<lparr>ip_sum := htons (the (ip_checksum (enc_ip (new_ip_header a dest proto (20 + n))) 20))\<rparr>)
        @ take (unat n) data @ replicate (26 - unat n) 0 @ junk"
    using lp by (simp add: ip_packet_def Let_def)
  finally show ?thesis
    using assms(1-3) m lp by (subst (asm) ip_receive_packet) (auto simp: Let_def icmp_receive_def)
qed

end
