(* ===== verification/NetProps.thy ===== *)
theory NetProps
  imports NetDeliver
begin

text \<open>
  Properties of the network stack: that sending ends, and that datagrams, echo requests and address
  requests are understood by another machine that runs the same code. The witnesses use two
  machines with addresses 10.0.2.15 and 10.0.2.2.
\<close>

section \<open>Two machines\<close>

definition host :: "u32 \<Rightarrow> bytes \<Rightarrow> arp_entry list \<Rightarrow> net" where
  "host ip mac cache = \<lparr>io_base = 0xC000, mac_address = mac, ip_address = ip, initialized = True,
     rx_buffer = replicate 9708 0, tx_buffer = replicate 2048 0, rx_offset = 0, tx_port = 0, local_mac = mac,
     arp_cache = cache @ replicate (32 - length cache) \<lparr>ae_ip = 0, ae_mac = replicate 6 0, ae_time = 0, ae_valid = 0\<rparr>,
     arp_timer = 0, ip_id_counter = 1,
     ping_states = replicate 16 \<lparr>ps_ip = 0, ps_seq = 0, ps_time = 0, ps_received = False\<rparr>, icmp_timer = 0,
     udp_handlers = [\<lparr>uh_port = 53, uh_callback = Some Dns_response_handler\<rparr>,
       \<lparr>uh_port = 123, uh_callback = Some Ntp_response_handler\<rparr>] @ replicate 6 \<lparr>uh_port = 0, uh_callback = None\<rparr>,
     dns_server = 0x08080808, resolved_ip = 0, resolution_complete = False, dns_transaction_id = 1,
     ntp_server = 0x08080808, synced_timestamp = 0, sync_complete = False,
     polls = [], outs = [], sent = [], stack_rx = replicate 1518 0\<rparr>"

definition peer_entry :: "u32 \<Rightarrow> bytes \<Rightarrow> arp_entry" where
  "peer_entry ip mac = \<lparr>ae_ip = ip, ae_mac = mac, ae_time = 0, ae_valid = 1\<rparr>"

definition host_a :: net where
  "host_a = host 0x0A00020F [2, 0, 0, 0, 0, 1] [peer_entry 0x0A000202 [2, 0, 0, 0, 0, 2]]"

definition host_b :: net where
  "host_b = host 0x0A000202 [2, 0, 0, 0, 0, 2] [peer_entry 0x0A00020F [2, 0, 0, 0, 0, 1]]"

lemma host_ok:
  assumes "length mac = 6" "length pmac = 6"
  shows "net_ok (host ip mac [])" "net_ok (host ip mac [peer_entry pip pmac])"
proof -
  have "arp_ok (host ip mac [])" by (simp add: arp_ok_def host_def)
  moreover have "ae_valid (arp_cache (host ip mac [peer_entry pip pmac]) ! i) \<noteq> 0 \<longleftrightarrow> i = 0" if "i < 32" for i
    using that by (cases i) (simp_all add: host_def peer_entry_def)
  then have "arp_ok (host ip mac [peer_entry pip pmac])" unfolding arp_ok_def by (auto simp: host_def)
  ultimately show "net_ok (host ip mac [])" "net_ok (host ip mac [peer_entry pip pmac])"
    using assms by (auto simp: net_ok_def host_def peer_entry_def)
qed

lemma hosts_ok:
  "net_ok host_a" "net_ok host_b"
  "arp_resolve (ip_target host_a 0x0A000202) host_a = Some [2, 0, 0, 0, 0, 2]"
  "arp_resolve (ip_target host_b 0x0A00020F) host_b = Some [2, 0, 0, 0, 0, 1]"
  "ip_address host_a = 0x0A00020F" "ip_address host_b = 0x0A000202" "sent host_a = []" "tx_port host_a = 0"
proof -
  show "net_ok host_a" "net_ok host_b" unfolding host_a_def host_b_def by (rule host_ok; simp)+
  show "arp_resolve (ip_target host_a 0x0A000202) host_a = Some [2, 0, 0, 0, 0, 2]"
    "arp_resolve (ip_target host_b 0x0A00020F) host_b = Some [2, 0, 0, 0, 0, 1]"
    by (simp_all add: host_a_def host_b_def host_def peer_entry_def ip_target_def arp_resolve_def)
qed (simp_all add: host_a_def host_b_def host_def)

section \<open>Sending ends\<close>

text \<open>
  C33: sending and receiving call each other, since a machine that waits for an
  ARP reply answers echo requests meanwhile, but the nesting ends: with one level for each poll
  the card answers the result is the same as with more, and it solves the recursive equation of the
  source.
\<close>

theorem ip_send_terminates:
  "ip_send_upto (length (polls st) + k) dest proto data n st = ip_send dest proto data n st \<and>
   ip_send dest proto data n st = ip_send_with ip_send dest proto data n st"
  using ip_send_upto_enough[of st "length (polls st) + k"] ip_send_unfold by (simp add: ip_send_def)

section \<open>Datagrams\<close>

lemma udp_receive_packet:
  assumes "unat n \<le> 1472" "length p = unat n"
  shows "udp_receive (enc_udp \<lparr>src_port = htons sp, dest_port = htons dp, udp_length = htons (8 + n), udp_sum = 0\<rparr>
      @ p @ rest) (8 + n) st =
    (case find (\<lambda>u. uh_port u = dp \<and> uh_callback u \<noteq> None) (udp_handlers st) of
       None \<Rightarrow> Some st | Some u \<Rightarrow> udp_call (the (uh_callback u)) (p @ rest) n st)"
proof -
  have "unat (8 + n) = 8 + unat n" using assms(1) by (simp add: unat_word_ariths)
  then have "\<not> 8 + n < 8" by (simp add: word_less_nat_alt)
  then show ?thesis by (simp add: udp_receive_def dec_enc_udp Let_def ntohs_def split: option.split)
qed

lemma udp_send_arrives:
  assumes ok: "net_ok a" and n: "unat n \<le> 1472" "unat n \<le> length data"
    and mac: "arp_resolve (ip_target a dest) a = Some mac"
  obtains a' f where "udp_send dest sport dport data n a = Some a'"
    "transmits f (a\<lparr>ip_id_counter := ip_id_counter a + 1\<rparr>) a'" "length f = max 60 (42 + unat n)" "take 6 f = mac"
    "\<And>b junk. ip_address b = dest \<Longrightarrow> eth_receive_frame (f @ junk) (of_nat (length f)) b =
      (case find (\<lambda>u. uh_port u = dport \<and> uh_callback u \<noteq> None) (udp_handlers b) of
         None \<Rightarrow> Some b
       | Some u \<Rightarrow> udp_call (the (uh_callback u)) (take (unat n) data @ replicate (18 - unat n) 0 @ junk) n b)"
proof -
  let ?h = "\<lparr>src_port = htons sport, dest_port = htons dport, udp_length = htons (8 + n), udp_sum = 0\<rparr>"
  let ?d = "enc_udp ?h @ take (unat n) data"
  have n8: "unat (8 + n) = 8 + unat n" using n(1) by (simp add: unat_word_ariths)
  have ld: "length ?d = unat (8 + n)" using n by (simp add: n8)
  have b: "unat (8 + n) \<le> 1480" "unat (8 + n) \<le> length ?d" using n ld by (simp_all add: n8)
  obtain a' where s: "ip_send dest 17 ?d (8 + n) a = Some a'"
    "transmits (eth_frame mac (local_mac a) 0x0800 (ip_packet a dest 17 ?d (8 + n))) (a\<lparr>ip_id_counter := ip_id_counter a + 1\<rparr>) a'"
    by (rule ip_send_transmits[OF ok b mac, where proto = 17]) (rule that)
  let ?f = "eth_frame mac (local_mac a) 0x0800 (ip_packet a dest 17 ?d (8 + n))"
  note lm = net_okD(5)[OF ok mac] net_okD(3)[OF ok]
  have "\<not> 1500 < 8 + n" "\<not> 1492 < n" using n n8 by (simp_all add: word_less_nat_alt)
  then have u: "udp_send dest sport dport data n a = Some a'"
    using s(1) n by (simp add: udp_send_def Let_def)
  have "length (ip_packet a dest 17 ?d (8 + n)) = 28 + unat n" using ld by (simp add: ip_packet_def Let_def n8)
  then have l: "length ?f = max 60 (42 + unat n)" using lm by (simp add: length_eth_frame)
  have t: "take 6 ?f = mac" using lm by (simp add: eth_frame_def enc_eth_def Let_def)
  have r: "eth_receive_frame (?f @ junk) (of_nat (length ?f)) b' =
      (case find (\<lambda>u. uh_port u = dport \<and> uh_callback u \<noteq> None) (udp_handlers b') of
         None \<Rightarrow> Some b'
       | Some u \<Rightarrow> udp_call (the (uh_callback u)) (take (unat n) data @ replicate (18 - unat n) 0 @ junk) n b')"
    if "ip_address b' = dest" for b' junk
  proof -
    have "eth_receive_frame (?f @ junk) (of_nat (length ?f)) b' =
        udp_receive (?d @ replicate (18 - unat n) 0 @ junk) (8 + n) b'"
      using ip_packet_arrives[OF b, of b' dest mac "local_mac a" ?f a 17 junk] lm that ld
      by (simp add: Let_def n8)
    also have "?d @ replicate (18 - unat n) 0 @ junk = enc_udp ?h @ take (unat n) data @ replicate (18 - unat n) 0 @ junk"
      by simp
    finally show ?thesis using udp_receive_packet[OF n(1), of "take (unat n) data"] n(2) by simp
  qed
  show ?thesis by (rule that[OF u s(2) l t r])
qed

text \<open>
  C32: a datagram of at most 1472 bytes to a machine whose hardware address is known
  leaves as one frame of 60 to 1514 bytes addressed to it, and there \<open>eth_receive_frame\<close> calls the
  handler registered for the port with exactly the bytes sent, whatever the buffer holds behind
  the frame; without a handler it does nothing.
\<close>

theorem udp_end_to_end:
  assumes "net_ok a" "unat n \<le> 1472" "unat n \<le> length data"
    and "arp_resolve (ip_target a dest) a = Some mac" "ip_address b = dest"
  shows "\<exists>a' f. udp_send dest sport dport data n a = Some a' \<and> sent a' = sent a @ [(tx_port a, f)] \<and>
    60 \<le> length f \<and> length f \<le> 1514 \<and> take 6 f = mac \<and>
    (\<forall>junk. eth_receive_frame (f @ junk) (of_nat (length f)) b =
      (case find (\<lambda>u. uh_port u = dport \<and> uh_callback u \<noteq> None) (udp_handlers b) of
         None \<Rightarrow> Some b
       | Some u \<Rightarrow> udp_call (the (uh_callback u)) (take (unat n) data @ replicate (18 - unat n) 0 @ junk) n b))"
proof -
  obtain a' f where u: "udp_send dest sport dport data n a = Some a'"
    "transmits f (a\<lparr>ip_id_counter := ip_id_counter a + 1\<rparr>) a'" "length f = max 60 (42 + unat n)" "take 6 f = mac"
    "\<And>b junk. ip_address b = dest \<Longrightarrow> eth_receive_frame (f @ junk) (of_nat (length f)) b =
      (case find (\<lambda>u. uh_port u = dport \<and> uh_callback u \<noteq> None) (udp_handlers b) of
         None \<Rightarrow> Some b
       | Some u \<Rightarrow> udp_call (the (uh_callback u)) (take (unat n) data @ replicate (18 - unat n) 0 @ junk) n b)"
    by (rule udp_send_arrives[OF assms(1-4)]) (rule that)
  have "sent a' = sent a @ [(tx_port a, f)]" using transmitsD(1)[OF u(2)] by simp
  moreover have "60 \<le> length f" "length f \<le> 1514" using u(3) assms(2) by simp_all
  ultimately show ?thesis using u(1,4) u(5)[OF assms(5)] by blast
qed

theorem udp_end_to_end_witness:
  "\<exists>a' f. udp_send 0x0A000202 9 77 (lit ''hello'') 5 host_a = Some a' \<and> sent a' = [(0, f)] \<and>
     eth_receive_frame f (of_nat (length f)) host_b = Some host_b"
proof -
  have n: "unat (5 :: u16) \<le> 1472" "unat (5 :: u16) \<le> length (lit ''hello'')" by simp_all
  have "find (\<lambda>u. uh_port u = 77 \<and> uh_callback u \<noteq> None) (udp_handlers host_b) = None"
    by (auto simp: host_b_def host_def find_None_iff)
  with udp_end_to_end[OF hosts_ok(1) n hosts_ok(3,6), of 9 77] hosts_ok(7,8) show ?thesis
    by (metis (no_types, lifting) append_Nil append_Nil2 option.simps(4))
qed

section \<open>Echo requests\<close>

lemma note_ping_simps [simp]:
  "net_ok (note_ping d q st) = net_ok st" "arp_resolve ip (note_ping d q st) = arp_resolve ip st"
  "ip_target (note_ping d q st) ip = ip_target st ip" "ip_address (note_ping d q st) = ip_address st"
  "local_mac (note_ping d q st) = local_mac st" "sent (note_ping d q st) = sent st"
  "tx_port (note_ping d q st) = tx_port st"
  by (simp_all add: note_ping_def net_ok_id arp_resolve_def ip_target_def split: option.split)

lemma note_ping_waits:
  assumes "ping_slot st \<noteq> None"
  shows "\<exists>p \<in> set (ping_states (note_ping d q st)). ps_ip p = d \<and> ps_seq p = q \<and> \<not> ps_received p"
proof -
  obtain i where i: "ping_slot st = Some i" using assms by blast
  then have "i < length (ping_states st)" by (simp add: ping_slot_def find_index_Some)
  then have "\<lparr>ps_ip = d, ps_seq = q, ps_time = icmp_timer st, ps_received = False\<rparr>
      \<in> set (ping_states (note_ping d q st))"
    by (simp add: note_ping_def i set_update_memI)
  then show ?thesis by (intro bexI) simp_all
qed

lemma mark_received_answers:
  "\<exists>p \<in> set ps. ps_ip p = d \<and> ps_seq p = q \<and> \<not> ps_received p \<Longrightarrow>
   \<exists>p \<in> set (mark_received d q ps). ps_ip p = d \<and> ps_seq p = q \<and> ps_received p"
  by (induction d q ps rule: mark_received.induct) auto

lemma echo_request_sends:
  assumes ok: "net_ok a" and mac: "arp_resolve (ip_target a dest) a = Some mac"
  obtains a' c where "icmp_send_echo_request dest ident seq a = Some a'"
    "transmits (eth_frame mac (local_mac a) 0x0800 (ip_packet (note_ping dest seq a) dest 1
      (enc_icmp \<lparr>icmp_type = 8, icmp_code = 0, icmp_sum = c, icmp_id = htons ident, icmp_seq = htons seq\<rparr> @ echo_payload) 64))
      ((note_ping dest seq a)\<lparr>ip_id_counter := ip_id_counter (note_ping dest seq a) + 1\<rparr>) a'"
proof -
  let ?h = "\<lparr>icmp_type = 8, icmp_code = 0, icmp_sum = 0, icmp_id = htons ident, icmp_seq = htons seq\<rparr>"
  have le: "length echo_payload = 56" by (simp add: echo_payload_def)
  obtain c where c: "ip_checksum (enc_icmp ?h @ echo_payload) 64 = Some c"
    using ip_checksum_defined[of 64 "enc_icmp ?h @ echo_payload"] le by auto
  let ?d = "enc_icmp (?h\<lparr>icmp_sum := htons c\<rparr>) @ echo_payload"
  have b: "unat (64 :: u16) \<le> 1480" "unat (64 :: u16) \<le> length ?d" using le by simp_all
  have ok': "net_ok (note_ping dest seq a)"
    "arp_resolve (ip_target (note_ping dest seq a) dest) (note_ping dest seq a) = Some mac" using ok mac by simp_all
  obtain a' where s: "ip_send dest 1 ?d 64 (note_ping dest seq a) = Some a'"
    "transmits (eth_frame mac (local_mac (note_ping dest seq a)) 0x0800 (ip_packet (note_ping dest seq a) dest 1 ?d 64))
      ((note_ping dest seq a)\<lparr>ip_id_counter := ip_id_counter (note_ping dest seq a) + 1\<rparr>) a'"
    by (rule ip_send_transmits[OF ok'(1) b ok'(2), where proto = 1]) (rule that)
  show ?thesis by (rule that[of a' "htons c"]) (use s c in \<open>simp_all add: icmp_send_echo_request_def\<close>)
qed

text \<open>
  C31: an echo request from one machine to another is answered and the answer is
  recognised: the request is one frame; the receiver of the frame transmits one frame in reply,
  with the same identifier, sequence number and data; and when the sender receives that, the entry
  for this address and sequence number is marked as answered, which is what \<open>icmp_wait_reply\<close>
  looks for.
\<close>

theorem ping_round_trip:
  assumes "net_ok a" "net_ok b" "ping_slot a \<noteq> None"
    and "arp_resolve (ip_target a (ip_address b)) a = Some mb" "arp_resolve (ip_target b (ip_address a)) b = Some ma"
  shows "\<exists>a' b' rq rp. icmp_send_echo_request (ip_address b) ident seq a = Some a' \<and>
    sent a' = sent a @ [(tx_port a, rq)] \<and>
    (\<forall>junk. eth_receive_frame (rq @ junk) (of_nat (length rq)) b = Some b') \<and>
    sent b' = sent b @ [(tx_port b, rp)] \<and>
    (\<forall>junk. \<exists>a''. eth_receive_frame (rp @ junk) (of_nat (length rp)) a' = Some a'' \<and>
       answered (ip_address b) seq a'')"
proof -
  let ?B = "ip_address b" and ?A = "ip_address a" and ?n = "note_ping (ip_address b) seq a"
  obtain a' c where a: "icmp_send_echo_request ?B ident seq a = Some a'"
    "transmits (eth_frame mb (local_mac a) 0x0800 (ip_packet ?n ?B 1
      (enc_icmp \<lparr>icmp_type = 8, icmp_code = 0, icmp_sum = c, icmp_id = htons ident, icmp_seq = htons seq\<rparr> @ echo_payload) 64))
      (?n\<lparr>ip_id_counter := ip_id_counter ?n + 1\<rparr>) a'" (is "transmits ?rq _ _")
    by (rule echo_request_sends[OF assms(1,4)]) (rule that)
  have le: "length echo_payload = 56" by (simp add: echo_payload_def)
  let ?dq = "enc_icmp \<lparr>icmp_type = 8, icmp_code = 0, icmp_sum = c, icmp_id = htons ident, icmp_seq = htons seq\<rparr> @ echo_payload"
  have bq: "unat (64 :: u16) \<le> 1480" "unat (64 :: u16) \<le> length ?dq" using le by simp_all
  obtain c' where c': "\<And>junk. eth_receive_frame (?rq @ junk) (of_nat (length ?rq)) b = ip_send ?A 1
      (enc_icmp \<lparr>icmp_type = 0, icmp_code = 0, icmp_sum = c', icmp_id = htons ident, icmp_seq = htons seq\<rparr> @ echo_payload) 64 b"
  proof -
    have "eth_receive_frame (?rq @ junk) (of_nat (length ?rq)) b = icmp_receive ?A (?dq @ junk) 64 b" for junk
      using ip_packet_arrives[OF bq, of b ?B mb "local_mac a" ?rq ?n 1 junk] net_okD(3,5)[OF assms(1)] assms(4) le
      by (simp add: Let_def)
    moreover have "\<exists>c'. \<forall>junk. icmp_receive ?A (?dq @ junk) 64 b = ip_send ?A 1
      (enc_icmp \<lparr>icmp_type = 0, icmp_code = 0, icmp_sum = c', icmp_id = htons ident, icmp_seq = htons seq\<rparr> @ echo_payload) 64 b"
    proof -
      let ?h = "\<lparr>icmp_type = 0, icmp_code = 0, icmp_sum = 0, icmp_id = htons ident, icmp_seq = htons seq\<rparr>"
      have "icmp_receive ?A (?dq @ junk) 64 b = ip_send ?A 1
          (enc_icmp (?h\<lparr>icmp_sum := htons (the (ip_checksum (enc_icmp ?h @ echo_payload) 64))\<rparr>) @ echo_payload) 64 b" for junk
        using ip_checksum_defined[of 64 "enc_icmp ?h @ echo_payload"] le
        by (auto simp: icmp_receive_def icmp_receive_with_def dec_enc_icmp Let_def)
      then show ?thesis by auto
    qed
    ultimately show ?thesis using that by auto
  qed
  let ?dp = "enc_icmp \<lparr>icmp_type = 0, icmp_code = 0, icmp_sum = c', icmp_id = htons ident, icmp_seq = htons seq\<rparr> @ echo_payload"
  have bp: "unat (64 :: u16) \<le> 1480" "unat (64 :: u16) \<le> length ?dp" using le by simp_all
  obtain b' where b: "ip_send ?A 1 ?dp 64 b = Some b'"
    "transmits (eth_frame ma (local_mac b) 0x0800 (ip_packet b ?A 1 ?dp 64)) (b\<lparr>ip_id_counter := ip_id_counter b + 1\<rparr>) b'"
    (is "transmits ?rp _ _")
    by (rule ip_send_transmits[OF assms(2) bp assms(5), where proto = 1]) (rule that)
  have ip: "ip_address a' = ?A" and ps: "ping_states a' = ping_states ?n" using transmitsD(2,5)[OF a(2)] by simp_all
  have r: "eth_receive_frame (?rp @ junk) (of_nat (length ?rp)) a' =
      Some (a'\<lparr>ping_states := mark_received ?B seq (ping_states ?n)\<rparr>)" for junk
    using ip_packet_arrives[OF bp, of a' ?A ma "local_mac b" ?rp b 1 junk] net_okD(3,5)[OF assms(2)] assms(5) le ip ps
    by (simp add: Let_def icmp_receive_def icmp_receive_with_def dec_enc_icmp ntohs_def)
  have "answered ?B seq (a'\<lparr>ping_states := mark_received ?B seq (ping_states ?n)\<rparr>)"
    using mark_received_answers[OF note_ping_waits[OF assms(3)]] by (simp add: answered_def)
  moreover have "sent a' = sent a @ [(tx_port a, ?rq)]" "sent b' = sent b @ [(tx_port b, ?rp)]"
    using transmitsD(1)[OF a(2)] transmitsD(1)[OF b(2)] by simp_all
  ultimately show ?thesis using a(1) c' b(1) r by (intro exI[of _ a'] exI[of _ b'] exI[of _ ?rq] exI[of _ ?rp]) auto
qed

theorem ping_round_trip_witness:
  "\<exists>a' b' rq rp. icmp_send_echo_request 0x0A000202 1 1 host_a = Some a' \<and> sent a' = [(0, rq)] \<and>
     eth_receive_frame rq (of_nat (length rq)) host_b = Some b' \<and> sent b' = [(0, rp)]"
proof -
  have s: "ping_slot host_a \<noteq> None" by (simp add: ping_slot_def host_a_def host_def upt_rec[of 0])
  have "sent host_b = []" "tx_port host_b = 0" by (simp_all add: host_b_def host_def)
  with ping_round_trip[OF hosts_ok(1,2) s, of _ _ 1 1] hosts_ok show ?thesis
    by (metis append_Nil append_Nil2)
qed

end
