(* ===== verification/NetArpProps.thy ===== *)
theory NetArpProps
  imports NetProps
begin

text \<open>
  Properties of the ARP cache and of the exchange of a request and its reply.
\<close>

section \<open>The cache refines a map\<close>

text \<open>\<open>arp_timer\<close> is set to 0 by \<open>arp_init\<close> and never counted up, so all entries have time 0.\<close>

definition arp_untimed :: "net \<Rightarrow> bool" where
  "arp_untimed st \<longleftrightarrow> arp_timer st = 0 \<and> (\<forall>e \<in> set (arp_cache st). ae_valid e \<noteq> 0 \<longrightarrow> ae_time e = 0)"

definition arp_view :: "net \<Rightarrow> u32 \<Rightarrow> bytes option" where
  "arp_view st a = arp_resolve a st"

lemma arp_scan_same:
  "\<forall>e \<in> set es. ae_valid e \<noteq> 0 \<and> ae_ip e \<noteq> ip \<and> ae_time e = t \<Longrightarrow> arp_scan ip es i oi t = (False, oi)"
  by (induction es arbitrary: i oi) auto

lemma arp_scan_same_time:
  assumes "\<forall>e \<in> set es. ae_valid e \<noteq> 0 \<and> ae_ip e \<noteq> ip \<and> ae_time e = t" "t < ot" "es \<noteq> []"
  shows "arp_scan ip es i oi ot = (False, i)"
  using assms by (cases es) (auto simp: arp_scan_same)

lemma arp_add_view:
  assumes ok: "arp_ok st"
  obtains k where "k < 32" "arp_ok (arp_add_entry ip mac st)"
    "arp_view (arp_add_entry ip mac st) = (\<lambda>a. if a = ip then Some (take 6 mac)
       else if ae_valid (arp_cache st ! k) \<noteq> 0 \<and> ae_ip (arp_cache st ! k) = a then None else arp_view st a)"
    "ae_valid (arp_cache st ! k) \<noteq> 0 \<Longrightarrow> ae_ip (arp_cache st ! k) \<noteq> ip \<Longrightarrow>
       (\<forall>j < 32. ae_valid (arp_cache st ! j) \<noteq> 0 \<and> ae_ip (arp_cache st ! j) \<noteq> ip)"
proof -
  obtain k e where w: "arp_writes ip mac st k e" by (rule arp_add_writes[OF ok])
  have "arp_view (arp_add_entry ip mac st) = (\<lambda>a. if a = ip then Some (take 6 mac)
       else if ae_valid (arp_cache st ! k) \<noteq> 0 \<and> ae_ip (arp_cache st ! k) = a then None else arp_view st a)"
    using arp_writes_resolve[OF ok w] by (auto simp: arp_view_def)
  moreover have "\<forall>j < 32. ae_valid (arp_cache st ! j) \<noteq> 0 \<and> ae_ip (arp_cache st ! j) \<noteq> ip"
    if "ae_valid (arp_cache st ! k) \<noteq> 0" "ae_ip (arp_cache st ! k) \<noteq> ip"
    using w that unfolding arp_writes_def by blast
  ultimately show ?thesis using that arp_writes_ok[OF ok w] w by (auto simp: arp_writes_def)
qed

text \<open>
  C34: adding an address to a cache that satisfies its invariant keeps the invariant
  and is a map update, as long as the address is known or a slot is free. In a full cache one
  other address is forgotten, and since the timestamps never advance it is always the one in the
  first slot.
\<close>

theorem arp_add_refines:
  assumes "arp_ok st" "arp_untimed st"
  shows "arp_ok (arp_add_entry ip mac st) \<and> arp_untimed (arp_add_entry ip mac st) \<and>
    arp_view (arp_add_entry ip mac st) =
      (if \<exists>e \<in> set (arp_cache st). ae_valid e = 0 \<or> ae_ip e = ip then (arp_view st)(ip \<mapsto> take 6 mac)
       else (arp_view st)(ae_ip (arp_cache st ! 0) := None, ip \<mapsto> take 6 mac))"
proof -
  note len = arp_okD(1)[OF assms(1)]
  obtain k where k: "k < 32" "arp_ok (arp_add_entry ip mac st)"
    "arp_view (arp_add_entry ip mac st) = (\<lambda>a. if a = ip then Some (take 6 mac)
       else if ae_valid (arp_cache st ! k) \<noteq> 0 \<and> ae_ip (arp_cache st ! k) = a then None else arp_view st a)"
    "ae_valid (arp_cache st ! k) \<noteq> 0 \<Longrightarrow> ae_ip (arp_cache st ! k) \<noteq> ip \<Longrightarrow>
       (\<forall>j < 32. ae_valid (arp_cache st ! j) \<noteq> 0 \<and> ae_ip (arp_cache st ! j) \<noteq> ip)"
    by (rule arp_add_view[OF assms(1)]) (rule that)
  obtain k' e where w: "arp_writes ip mac st k' e" by (rule arp_add_writes[OF assms(1)])
  then have "arp_untimed (arp_add_entry ip mac st)"
    using assms(2) set_update_subset_insert[of "arp_cache st" k' e]
    by (fastforce simp: arp_untimed_def arp_writes_def)
  moreover have "arp_view (arp_add_entry ip mac st) =
      (if \<exists>e \<in> set (arp_cache st). ae_valid e = 0 \<or> ae_ip e = ip then (arp_view st)(ip \<mapsto> take 6 mac)
       else (arp_view st)(ae_ip (arp_cache st ! 0) := None, ip \<mapsto> take 6 mac))"
  proof (cases "\<exists>e \<in> set (arp_cache st). ae_valid e = 0 \<or> ae_ip e = ip")
    case True
    then obtain j where "j < length (arp_cache st)" "ae_valid (arp_cache st ! j) = 0 \<or> ae_ip (arp_cache st ! j) = ip"
      by (metis in_set_conv_nth)
    then have "\<not> (\<forall>j < 32. ae_valid (arp_cache st ! j) \<noteq> 0 \<and> ae_ip (arp_cache st ! j) \<noteq> ip)"
      unfolding len by blast
    then have "ae_valid (arp_cache st ! k) = 0 \<or> ae_ip (arp_cache st ! k) = ip" using k(4) by blast
    with True k(3) show ?thesis by auto
  next
    case False
    then have f: "\<forall>e \<in> set (arp_cache st). ae_valid e \<noteq> 0 \<and> ae_ip e \<noteq> ip \<and> ae_time e = 0"
      using assms(2) by (auto simp: arp_untimed_def)
    have "arp_cache st \<noteq> []" using len by auto
    then have "arp_scan ip (arp_cache st) 0 0 0xFFFFFFFF = (False, 0)"
      using arp_scan_same_time[OF f, where ot = "0xFFFFFFFF"] by simp
    then have c: "arp_cache (arp_add_entry ip mac st) =
        (arp_cache st)[0 := \<lparr>ae_ip = ip, ae_mac = take 6 mac, ae_time = arp_timer st, ae_valid = 1\<rparr>]"
      by (simp add: arp_add_entry_def)
    have v: "ae_valid (arp_cache st ! j) \<noteq> 0" "ae_ip (arp_cache st ! j) \<noteq> ip" if "j < 32" for j
      using f len that nth_mem by fastforce+
    have "ae_ip (arp_cache st ! k') = ae_ip (arp_cache st ! 0)"
    proof (cases "k' = 0")
      case False
      have "k' < 32" using w by (simp add: arp_writes_def)
      have "(arp_cache st)[k' := e] ! 0 = arp_cache st ! 0" using False by simp
      moreover have "(arp_cache st)[k' := e] ! 0 = \<lparr>ae_ip = ip, ae_mac = take 6 mac, ae_time = arp_timer st, ae_valid = 1\<rparr>"
        using w c len by (simp add: arp_writes_def)
      ultimately show ?thesis using v(2)[of 0] by (metis arp_entry.select_convs(1) zero_less_numeral)
    qed simp
    then have "arp_view (arp_add_entry ip mac st) = (\<lambda>a. if a = ip then Some (take 6 mac)
       else if ae_ip (arp_cache st ! 0) = a then None else arp_view st a)"
      using arp_writes_resolve[OF assms(1) w] v(1)[of k'] w by (auto simp: arp_view_def arp_writes_def)
    with False show ?thesis by auto
  qed
  ultimately show ?thesis using k(2) by blast
qed

theorem arp_add_refines_witness:
  "arp_view (arp_add_entry 7 [1, 2, 3, 4, 5, 6] host_a) = (arp_view host_a)(7 \<mapsto> [1, 2, 3, 4, 5, 6])"
proof -
  have u: "arp_untimed host_a" by (simp add: arp_untimed_def host_a_def host_def peer_entry_def)
  have "\<exists>e \<in> set (arp_cache host_a). ae_valid e = 0 \<or> ae_ip e = 7"
    by (simp add: host_a_def host_def peer_entry_def)
  with arp_add_refines[OF net_okD(4)[OF hosts_ok(1)] u, of 7 "[1, 2, 3, 4, 5, 6]"] show ?thesis
    by simp
qed

section \<open>Requests and replies\<close>

lemma arp_receive_message:
  assumes "length smac = 6" "length tmac = 6" "28 \<le> unat n"
  shows "arp_receive (enc_arp (arp_message operation smac (htonl sip) tmac (htonl tip)) @ rest) n st =
    (let st1 = arp_add_entry sip smac st in
     if operation = 1 \<and> tip = ip_address st
     then eth_send_frame smac 0x0806
       (enc_arp (arp_message 2 (local_mac st1) (htonl (ip_address st)) smac (htonl sip))) 28 st1
     else Some st1)"
proof -
  let ?m = "arp_message operation smac (htonl sip) tmac (htonl tip)"
  have m: "length (sha ?m) = 6" "length (tha ?m) = 6" using assms by (simp_all add: arp_message_def)
  have "\<not> n < 28" using assms(3) by (simp add: word_less_nat_alt)
  moreover have "htons (1 :: u16) = 256" "htons (256 :: u16) = 1" "htons (0x0800 :: u16) = 8" "htons (8 :: u16) = 0x0800"
    by (simp_all add: htons_def)
  ultimately show ?thesis using m
    by (simp add: arp_receive_def dec_enc_arp length_enc_arp) (simp add: arp_message_def ntohs_def ntohl_def Let_def)
qed

lemma arp_sends:
  assumes ok: "net_ok st" and l: "length mac = 6" "length smac = 6" "length tmac = 6"
  obtains st' where "eth_send_frame mac 0x0806 (enc_arp (arp_message operation smac sip tmac tip)) 28 st = Some st'"
    "transmits (eth_frame mac (local_mac st) 0x0806 (enc_arp (arp_message operation smac sip tmac tip))) st st'"
proof -
  have le: "length (enc_arp (arp_message operation smac sip tmac tip)) = 28"
    using l by (intro length_enc_arp) (simp_all add: arp_message_def)
  then have b: "unat (28 :: u16) \<le> 1500" "unat (28 :: u16) \<le> length (enc_arp (arp_message operation smac sip tmac tip))"
    by simp_all
  obtain st' where s: "eth_send_frame mac 0x0806 (enc_arp (arp_message operation smac sip tmac tip)) 28 st = Some st'"
    "transmits (eth_frame mac (local_mac st) 0x0806 (take (unat (28 :: u16)) (enc_arp (arp_message operation smac sip tmac tip)))) st st'"
    by (rule eth_send_transmits[OF ok l(1) b, where ty = "0x0806"]) (rule that)
  have "unat (28 :: u16) = 28" by simp
  with le have "take (unat (28 :: u16)) (enc_arp (arp_message operation smac sip tmac tip)) =
      enc_arp (arp_message operation smac sip tmac tip)" by simp
  with s(2) have "transmits (eth_frame mac (local_mac st) 0x0806 (enc_arp (arp_message operation smac sip tmac tip))) st st'"
    by (simp only:)
  with s(1) show ?thesis by (rule that)
qed

lemma arp_frame_arrives:
  assumes "length d = 6" "length s = 6" "length smac = 6" "length tmac = 6"
    and "f = eth_frame d s 0x0806 (enc_arp (arp_message operation smac (htonl sip) tmac (htonl tip)))"
  shows "eth_receive_frame (f @ junk) (of_nat (length f)) st =
    (let st1 = arp_add_entry sip smac st in
     if operation = 1 \<and> tip = ip_address st
     then eth_send_frame smac 0x0806
       (enc_arp (arp_message 2 (local_mac st1) (htonl (ip_address st)) smac (htonl sip))) 28 st1
     else Some st1)"
proof -
  let ?p = "enc_arp (arp_message operation smac (htonl sip) tmac (htonl tip))"
  have le: "length ?p = 28" using assms(3,4) by (intro length_enc_arp) (simp_all add: arp_message_def)
  then have l: "length ?p \<le> 1500" by simp
  have "28 \<le> unat (46 :: u16)" by simp
  with arp_receive_message[OF assms(3,4) this] show ?thesis
    unfolding eth_receive_frame_def assms(5) eth_receive_frame_eq[OF assms(1,2) l refl] by (simp add: Let_def le)
qed

lemma arp_add_local [simp]: "local_mac (arp_add_entry ip mac st) = local_mac st" "ip_address (arp_add_entry ip mac st) = ip_address st"
  "sent (arp_add_entry ip mac st) = sent st" "tx_port (arp_add_entry ip mac st) = tx_port st"
  by (simp_all add: arp_add_entry_def split: prod.split bool.split)

text \<open>
  C35: a request for the address of another machine is one broadcast frame; whoever has the
  address learns the sender's and transmits one reply to it; and when the sender receives the reply
  it knows the other's hardware address.
\<close>

theorem arp_exchange:
  assumes "net_ok a" "net_ok b"
  shows "\<exists>a' b' rq rp. arp_send_request (ip_address b) a = Some a' \<and> sent a' = sent a @ [(tx_port a, rq)] \<and>
    take 6 rq = replicate 6 0xFF \<and>
    (\<forall>junk. eth_receive_frame (rq @ junk) (of_nat (length rq)) b = Some b') \<and>
    arp_resolve (ip_address a) b' = Some (local_mac a) \<and>
    sent b' = sent b @ [(tx_port b, rp)] \<and> take 6 rp = local_mac a \<and>
    (\<forall>junk. \<exists>a''. eth_receive_frame (rp @ junk) (of_nat (length rp)) a' = Some a'' \<and>
       arp_resolve (ip_address b) a'' = Some (local_mac b))"
proof -
  let ?A = "ip_address a" and ?B = "ip_address b"
  note la = net_okD(3)[OF assms(1)] and lb = net_okD(3)[OF assms(2)]
  have z: "length (replicate 6 0xFF :: bytes) = 6" "length (replicate 6 0 :: bytes) = 6" by simp_all
  obtain a' where a: "arp_send_request ?B a = Some a'"
    "transmits (eth_frame (replicate 6 0xFF) (local_mac a) 0x0806
      (enc_arp (arp_message 1 (local_mac a) (htonl ?A) (replicate 6 0) (htonl ?B)))) a a'" (is "transmits ?rq _ _")
    by (rule arp_sends[OF assms(1) z(1) la z(2)]) (rule that, simp_all add: arp_send_request_def)
  let ?b1 = "arp_add_entry ?A (local_mac a) b"
  have ok1: "net_ok ?b1" using arp_add_ok[OF assms(2)] la by simp
  obtain b' where b: "eth_send_frame (local_mac a) 0x0806
      (enc_arp (arp_message 2 (local_mac ?b1) (htonl ?B) (local_mac a) (htonl ?A))) 28 ?b1 = Some b'"
    "transmits (eth_frame (local_mac a) (local_mac ?b1) 0x0806
      (enc_arp (arp_message 2 (local_mac ?b1) (htonl ?B) (local_mac a) (htonl ?A)))) ?b1 b'" (is "transmits ?rp _ _")
    by (rule arp_sends[OF ok1 la _ la]) (use lb in \<open>auto intro: that\<close>)
  have rb: "eth_receive_frame (?rq @ junk) (of_nat (length ?rq)) b = Some b'" for junk
    using arp_frame_arrives[OF z(1) la la z(2) refl, of 1 ?A ?B junk b] b(1) by (simp add: Let_def)
  have ra: "eth_receive_frame (?rp @ junk) (of_nat (length ?rp)) a' = Some (arp_add_entry ?B (local_mac b) a')" for junk
    using arp_frame_arrives[OF la lb lb la refl, of 2 ?B ?A junk a'] by (simp add: Let_def)
  have learns: "arp_resolve ip (arp_add_entry ip mac st) = Some mac" if ok: "net_ok st" and m: "length mac = 6" for ip mac st
  proof -
    obtain k e where w: "arp_writes ip mac st k e" by (rule arp_add_writes[OF net_okD(4)[OF ok]])
    from arp_writes_resolve(1)[OF net_okD(4)[OF ok] w] m show ?thesis by simp
  qed
  have "arp_resolve ?A b' = Some (local_mac a)" using learns[OF assms(2) la] transmitsD(8)[OF b(2)] by simp
  moreover have "arp_resolve ?B (arp_add_entry ?B (local_mac b) a') = Some (local_mac b)"
    using learns[OF transmitsD(7)[OF a(2) assms(1)] lb] .
  moreover have "take 6 ?rq = replicate 6 0xFF" "take 6 ?rp = local_mac a"
    using la by (simp_all add: eth_frame_def enc_eth_def Let_def)
  ultimately show ?thesis
    using a(1) transmitsD(1)[OF a(2)] transmitsD(1)[OF b(2)] rb ra
    by (intro exI[of _ a'] exI[of _ b'] exI[of _ ?rq] exI[of _ ?rp]) auto
qed

theorem arp_exchange_witness:
  "\<exists>a' rq b'. arp_send_request 0x0A000202 host_a = Some a' \<and> sent a' = [(0, rq)] \<and>
     eth_receive_frame rq (of_nat (length rq)) host_b = Some b' \<and>
     arp_resolve 0x0A00020F b' = Some [2, 0, 0, 0, 0, 1]"
proof -
  have "local_mac host_a = [2, 0, 0, 0, 0, 1]" by (simp add: host_a_def host_def)
  with arp_exchange[OF hosts_ok(1,2)] hosts_ok show ?thesis by (metis append_Nil append_Nil2)
qed

end
