(* ===== verification/NetDns.thy ===== *)
theory NetDns
  imports NetArpProps
begin

text \<open>
  Properties of the name service client: what a query looks like, that the handler never reads
  outside the datagram, which answers it understands, and why names are not resolved in practice.
\<close>

section \<open>Queries\<close>

text \<open>The encoded form of a name: each label after its length, and a zero.\<close>

definition qname :: "bytes list \<Rightarrow> bytes" where
  "qname ls = concat (map (\<lambda>l. of_nat (length l) # l) ls) @ [0]"

fun join_dots :: "bytes list \<Rightarrow> bytes" where
  "join_dots [] = []"
| "join_dots [l] = l"
| "join_dots (l # m # ls) = l @ DOT # join_dots (m # ls)"

definition dns_label :: "bytes \<Rightarrow> bool" where
  "dns_label l \<longleftrightarrow> l \<noteq> [] \<and> length l < 64 \<and> DOT \<notin> set l"

lemma dns_labels_chars: "DOT \<notin> set l \<Longrightarrow> dns_labels (l @ s) out label = dns_labels s out (label @ l)"
  by (induction l arbitrary: label) auto

lemma dns_labels_join:
  assumes "ls \<noteq> []" "\<forall>l \<in> set ls. DOT \<notin> set l"
  shows "dns_labels (join_dots ls) out [] = out @ qname ls"
  using assms
proof (induction ls arbitrary: out rule: join_dots.induct)
  case (2 l)
  then show ?case using dns_labels_chars[of l "[]" out "[]"] by (simp add: qname_def)
next
  case (3 l m ls)
  then show ?case by (simp add: dns_labels_chars qname_def)
qed simp

section \<open>Names in a message\<close>

lemma byte_len: "length l < 64 \<Longrightarrow> unat (of_nat (length l) :: u8) = length l"
  by (simp add: unsigned_of_nat take_bit_nat_eq_self)

lemma label_not_pointer:
  assumes "length l < 64"
  shows "(of_nat (length l) :: u8) AND 0xC0 \<noteq> 0xC0"
proof
  assume "(of_nat (length l) :: u8) AND 0xC0 = 0xC0"
  then have "0xC0 \<le> (of_nat (length l) :: u8)" using word_and_le2[of "of_nat (length l) :: u8" "0xC0"] by simp
  then show False using byte_len[OF assms] assms by (simp add: word_le_nat_alt)
qed

lemma skip_name_qname:
  assumes "\<forall>l \<in> set ls. dns_label l" "length p + length (qname ls) \<le> e"
  shows "skip_name (p @ qname ls @ r) e (length p) = Some (length p + length (qname ls) - 1)"
  using assms
proof (induction ls arbitrary: p)
  case Nil
  then show ?case by (subst skip_name.simps) (simp add: qname_def)
next
  case (Cons l ls)
  let ?n = "of_nat (length l) :: u8"
  have l: "l \<noteq> []" "length l < 64" using Cons.prems(1) by (simp_all add: dns_label_def)
  have q: "qname (l # ls) = ?n # l @ qname ls" by (simp add: qname_def)
  have n0: "?n \<noteq> 0" using byte_len[OF l(2)] l(1) by (metis length_0_conv unsigned_0)
  have "skip_name (p @ qname (l # ls) @ r) e (length p) =
      skip_name ((p @ ?n # l) @ qname ls @ r) e (length (p @ ?n # l))"
    using Cons.prems(2) n0 label_not_pointer[OF l(2)] byte_len[OF l(2)]
    by (subst skip_name.simps) (simp add: q nth_append)
  also have "\<dots> = Some (length (p @ ?n # l) + length (qname ls) - 1)"
    using Cons.prems by (intro Cons.IH) (simp_all add: q)
  finally show ?case by (simp add: q)
qed

section \<open>Answers\<close>

text \<open>
  A response with one answer of type A: \<open>owner\<close> is the name in front of it, either in full or as
  a pointer to the question.
\<close>

definition dns_response :: "u16 \<Rightarrow> bytes list \<Rightarrow> bytes \<Rightarrow> u32 \<Rightarrow> u8 \<Rightarrow> u8 \<Rightarrow> u8 \<Rightarrow> u8 \<Rightarrow> bytes" where
  "dns_response ident ls owner time a b c d =
     enc_dns \<lparr>dns_id = ident, dns_flags = htons 0x8180, qdcount = htons 1, ancount = htons 1, nscount = 0, arcount = 0\<rparr>
     @ qname ls @ [0, 1, 0, 1] @ owner @ [0, 1, 0, 1] @ le32 time @ [0, 4, a, b, c, d]"

lemma be16_simps: "be16 0 1 = 1" "be16 1 0 = 256" "be16 0 4 = 4"
  by (simp_all add: be16_def)

text \<open>The steps of the handler on a message \<open>D\<close> that ends at \<open>e\<close>, at a name that ends at \<open>p\<close>.\<close>

lemma dns_handler_step:
  assumes "e = unat n" "12 \<le> e" "e \<le> length D" "ntohs (dns_flags (dec_dns D)) AND 0x8000 \<noteq> 0"
    and "ntohs (ancount (dec_dns D)) \<noteq> 0" "skip_name D e 12 = Some p" "p < e" "D ! p = 0"
  shows "dns_response_handler D n st = dns_answers D e (unat (ntohs (ancount (dec_dns D)))) (p + 5) st"
proof -
  have "\<not> n < 12" using assms(1,2) by (simp add: word_less_nat_alt)
  then show ?thesis using assms by (simp add: dns_response_handler_def rd_def Let_def add.commute)
qed

lemma dns_answer_A:
  assumes "p < e" "e \<le> length D" "skip_name D e p = Some q" "D ! q = 0" "q + 15 \<le> e"
    and "be16 (D ! (q + 1)) (D ! (q + 2)) = 1" "be16 (D ! (q + 9)) (D ! (q + 10)) = 4"
  shows "dns_answers D e (Suc k) p st = Some (st\<lparr>resolved_ip :=
    be32 (D ! (q + 11)) (D ! (q + 12)) (D ! (q + 13)) (D ! (q + 14)), resolution_complete := True\<rparr>)"
  using assms by (simp add: rd_def Let_def add.commute[of _ q])

lemma dns_answer_other:
  assumes "p < e" "e \<le> length D" "skip_name D e p = Some q" "D ! q = 0" "q + 11 \<le> e"
    and "be16 (D ! (q + 1)) (D ! (q + 2)) \<noteq> 1"
  shows "dns_answers D e (Suc k) p st =
    dns_answers D e k (q + 11 + unat (be16 (D ! (q + 9)) (D ! (q + 10)))) st"
  using assms by (simp add: rd_def Let_def add.commute[of _ q])

definition dns_prefix :: "u16 \<Rightarrow> bytes list \<Rightarrow> bytes" where
  "dns_prefix ident ls =
     enc_dns \<lparr>dns_id = ident, dns_flags = htons 0x8180, qdcount = htons 1, ancount = htons 1, nscount = 0, arcount = 0\<rparr>
     @ qname ls @ [0, 1, 0, 1]"

lemma dns_response_eq:
  "dns_response i ls owner t a b c d = dns_prefix i ls @ owner @ [0, 1, 0, 1] @ le32 t @ [0, 4, a, b, c, d]"
  by (simp add: dns_response_def dns_prefix_def)

lemma length_dns_prefix: "length (dns_prefix i ls) = 16 + length (qname ls)"
  by (simp add: dns_prefix_def)

lemma dns_handler_question:
  assumes ls: "\<forall>l \<in> set ls. dns_label l" and n: "length (dns_response i ls owner t a b c d) < 65536"
  shows "dns_response_handler (dns_response i ls owner t a b c d @ junk) (of_nat (length (dns_response i ls owner t a b c d))) st
    = dns_answers (dns_response i ls owner t a b c d @ junk) (length (dns_response i ls owner t a b c d)) 1
        (length (dns_prefix i ls)) st"
proof -
  let ?h = "\<lparr>dns_id = i, dns_flags = htons 0x8180, qdcount = htons 1, ancount = htons 1, nscount = 0, arcount = 0\<rparr>"
  let ?rest = "[0, 1, 0, 1] @ owner @ [0, 1, 0, 1] @ le32 t @ [0, 4, a, b, c, d] @ junk"
  define D where "D = dns_response i ls owner t a b c d @ junk"
  define e where "e = length (dns_response i ls owner t a b c d)"
  have r: "D = enc_dns ?h @ qname ls @ ?rest" by (simp add: D_def dns_response_def)
  have l: "e = 30 + length (qname ls) + length owner" by (simp add: e_def dns_response_def)
  have un: "e = unat (of_nat e :: u16)" using n unfolding e_def by (simp add: unat_nat16)
  have d: "dec_dns D = ?h" unfolding r by (rule dec_enc_dns)
  have f: "ntohs (htons 0x8180) AND 0x8000 \<noteq> 0" "ntohs (htons 1) = 1" by (simp_all add: ntohs_def)
  have q: "0 < length (qname ls)" by (simp add: qname_def)
  have s: "skip_name D e 12 = Some (11 + length (qname ls))"
    unfolding r using skip_name_qname[OF ls, of "enc_dns ?h" e ?rest] l by simp
  have z: "D ! (11 + length (qname ls)) = 0" unfolding r by (simp add: qname_def nth_append)
  have "dns_response_handler D (of_nat e) st = dns_answers D e (unat (ntohs (ancount (dec_dns D)))) (11 + length (qname ls) + 5) st"
    by (rule dns_handler_step[OF un _ _ _ _ s _ z])
      (use f l in \<open>simp_all add: d\<close>, simp_all add: D_def e_def)
  then show ?thesis unfolding D_def e_def[symmetric] length_dns_prefix using f(2) d
    by (simp add: D_def)
qed

text \<open>
  C37: the handler understands an answer whose name is written in full, and records its
  address. An answer whose name is the usual pointer \<open>C0 0C\<close> it reads one byte too far: the first
  byte of the type, which is 0, is taken for the end of the name, and the answer is not recognised.
\<close>

theorem dns_answer_forms:
  assumes "\<forall>l \<in> set ls. dns_label l" "length (qname ls) \<le> 255"
  shows "dns_response_handler (dns_response i ls (qname ls) t a b c d @ junk)
      (of_nat (length (dns_response i ls (qname ls) t a b c d))) st
    = Some (st\<lparr>resolved_ip := be32 a b c d, resolution_complete := True\<rparr>) \<and>
    dns_response_handler (dns_response i ls [0xC0, 0x0C] t a b c d @ junk)
      (of_nat (length (dns_response i ls [0xC0, 0x0C] t a b c d))) st = Some st"
proof
  define C where "C = dns_prefix i ls @ concat (map (\<lambda>l. of_nat (length l) # l) ls)"
  define D where "D = dns_response i ls (qname ls) t a b c d @ junk"
  let ?tail = "[0, 1, 0, 1] @ le32 t @ [0, 4, a, b, c, d]"
  have D: "D = C @ 0 # ?tail @ junk" by (simp add: D_def C_def dns_response_eq qname_def)
  have l: "length (dns_response i ls (qname ls) t a b c d) = length C + 15" by (simp add: C_def dns_response_eq qname_def)
  have lC: "length (dns_prefix i ls) + length (qname ls) = length C + 1" by (simp add: C_def qname_def)
  have n: "length (dns_response i ls (qname ls) t a b c d) < 65536"
    using assms(2) l lC by (simp add: length_dns_prefix)
  have s: "skip_name D (length C + 15) (length (dns_prefix i ls)) = Some (length C)"
    using skip_name_qname[OF assms(1), of "dns_prefix i ls" "length C + 15" "?tail @ junk"] lC
    by (simp add: D_def dns_response_eq)
  have z: "D ! length C = 0" unfolding D by simp
  have at: "D ! (length C + Suc k) = (?tail @ junk) ! k" for k unfolding D by (simp only: nth_append_length_plus nth_Cons_Suc)
  have p: "length (dns_prefix i ls) < length C + 15" by (simp add: C_def)
  have ty: "D ! (length C + 1) = 0" "D ! (length C + 2) = 1" "D ! (length C + 9) = 0" "D ! (length C + 10) = 4"
    and addr: "D ! (length C + 11) = a" "D ! (length C + 12) = b" "D ! (length C + 13) = c" "D ! (length C + 14) = d"
    using at[of 0] at[of 1] at[of 8] at[of 9] at[of 10] at[of 11] at[of 12] at[of 13] by (simp_all add: le32_def)
  have "dns_answers D (length C + 15) (Suc 0) (length (dns_prefix i ls)) st = Some (st\<lparr>resolved_ip :=
      be32 (D ! (length C + 11)) (D ! (length C + 12)) (D ! (length C + 13)) (D ! (length C + 14)), resolution_complete := True\<rparr>)"
    by (rule dns_answer_A[OF p _ s z]) (simp_all only: ty be16_simps, simp_all add: D)
  then have "dns_answers D (length C + 15) (Suc 0) (length (dns_prefix i ls)) st =
      Some (st\<lparr>resolved_ip := be32 a b c d, resolution_complete := True\<rparr>)" by (simp only: addr)
  then show "dns_response_handler (dns_response i ls (qname ls) t a b c d @ junk)
      (of_nat (length (dns_response i ls (qname ls) t a b c d))) st
    = Some (st\<lparr>resolved_ip := be32 a b c d, resolution_complete := True\<rparr>)"
    using dns_handler_question[OF assms(1) n, of junk st] l by (simp add: D_def)
next
  define P where "P = dns_prefix i ls"
  define D where "D = dns_response i ls [0xC0, 0x0C] t a b c d @ junk"
  let ?tail = "[0xC0, 0x0C, 0, 1, 0, 1] @ le32 t @ [0, 4, a, b, c, d]"
  have D: "D = P @ ?tail @ junk" by (simp add: D_def P_def dns_response_eq)
  have l: "length (dns_response i ls [0xC0, 0x0C] t a b c d) = length P + 16" by (simp add: P_def dns_response_eq)
  have n: "length (dns_response i ls [0xC0, 0x0C] t a b c d) < 65536"
    using assms(2) l by (simp add: P_def length_dns_prefix)
  have at: "D ! (length P + k) = (?tail @ junk) ! k" for k unfolding D by (simp add: nth_append)
  have s: "skip_name D (length P + 16) (length P) = Some (length P + 2)"
    using at[of 0] by (subst skip_name.simps) (simp add: D)
  have z: "D ! (length P + 2) = 0" using at[of 2] by simp
  have ty: "D ! (length P + 2 + 1) = 1" "D ! (length P + 2 + 2) = 0"
    using at[of 3] at[of 4] by (simp_all add: eval_nat_numeral)
  have "dns_answers D (length P + 16) (Suc 0) (length P) st = dns_answers D (length P + 16) 0
      (length P + 2 + 11 + unat (be16 (D ! (length P + 2 + 9)) (D ! (length P + 2 + 10)))) st"
    by (rule dns_answer_other[OF _ _ s z]) (simp_all only: ty be16_simps, simp_all add: D)
  then have "dns_answers D (length P + 16) (Suc 0) (length P) st = Some st" by (simp only: dns_answers.simps)
  then show "dns_response_handler (dns_response i ls [0xC0, 0x0C] t a b c d @ junk)
      (of_nat (length (dns_response i ls [0xC0, 0x0C] t a b c d))) st = Some st"
    using dns_handler_question[OF assms(1) n, of junk st] l by (simp add: D_def P_def)
qed

theorem dns_answer_forms_witness:
  "dns_response_handler (dns_response 1 [lit ''a''] (qname [lit ''a'']) 60 10 0 2 9) (of_nat (length (dns_response 1 [lit ''a''] (qname [lit ''a'']) 60 10 0 2 9))) host_a
     = Some (host_a\<lparr>resolved_ip := be32 10 0 2 9, resolution_complete := True\<rparr>) \<and>
   dns_response_handler (dns_response 1 [lit ''a''] [0xC0, 0x0C] 60 10 0 2 9) (of_nat (length (dns_response 1 [lit ''a''] [0xC0, 0x0C] 60 10 0 2 9))) host_a
     = Some host_a"
proof -
  have "\<forall>l \<in> set [lit ''a'']. dns_label l" "length (qname [lit ''a'']) \<le> 255"
    by (simp_all add: dns_label_def qname_def)
  from dns_answer_forms[OF this, of 1 60 10 0 2 9 "[]" host_a] show ?thesis by simp
qed

section \<open>The handler stays inside the datagram\<close>

lemma skip_name_defined: "e \<le> length D \<Longrightarrow> \<exists>q. skip_name D e p = Some q"
proof (induction D e p rule: skip_name.induct)
  case (1 D e p)
  then show ?case by (subst skip_name.simps) auto
qed

lemma dns_answers_step:
  assumes "e \<le> length D" "p < e" "skip_name D e p = Some q" "q < e" "r = (if D ! q = 0 then q + 1 else q)"
  shows "dns_answers D e (Suc k) p st = (if e < r + 10 then Some st
    else if be16 (D ! r) (D ! (r + 1)) = 1 \<and> be16 (D ! (r + 8)) (D ! (r + 9)) = 4 \<and> r + 10 + 4 \<le> e
    then Some (st\<lparr>resolved_ip := be32 (D ! (r + 10)) (D ! (r + 11)) (D ! (r + 12)) (D ! (r + 13)), resolution_complete := True\<rparr>)
    else dns_answers D e k (r + 10 + unat (be16 (D ! (r + 8)) (D ! (r + 9)))) st)"
  using assms(1-4) by (cases "D ! q = 0") (simp_all add: rd_def Let_def assms(5) add.commute[of _ q])

definition dns_effect :: "net \<Rightarrow> net option \<Rightarrow> bool" where
  "dns_effect st r \<longleftrightarrow> (\<exists>st'. r = Some st' \<and>
     (st' = st \<or> (\<exists>ip. st' = st\<lparr>resolved_ip := ip, resolution_complete := True\<rparr>)))"

lemma dns_effect_intros [intro]:
  "dns_effect st (Some st)" "dns_effect st (Some (st\<lparr>resolved_ip := ip, resolution_complete := True\<rparr>))"
  by (auto simp: dns_effect_def)

lemma dns_effect_if: "(c \<Longrightarrow> dns_effect st x) \<Longrightarrow> (\<not> c \<Longrightarrow> dns_effect st y) \<Longrightarrow> dns_effect st (if c then x else y)"
  by simp

lemma dns_answers_safe:
  assumes "e \<le> length D"
  shows "dns_effect st (dns_answers D e k p st)"
proof (induction k arbitrary: p)
  case 0
  show ?case unfolding dns_answers.simps by (rule dns_effect_intros)
next
  case (Suc k)
  obtain q where q: "skip_name D e p = Some q" using skip_name_defined[OF assms] by blast
  show ?case
  proof (cases "p < e \<and> q < e")
    case True
    then have b: "p < e" "q < e" by simp_all
    show ?thesis unfolding dns_answers_step[OF assms b(1) q b(2) refl]
      by (intro dns_effect_if dns_effect_intros Suc)
  next
    case False
    then have "dns_answers D e (Suc k) p st = Some st" using q by auto
    then show ?thesis by (simp only: dns_effect_intros)
  qed
qed

lemma dns_handler_effect:
  assumes "unat n \<le> length data"
  shows "dns_effect st (dns_response_handler data n st)"
proof -
  obtain q where q: "skip_name data (unat n) 12 = Some q" using skip_name_defined[OF assms] by blast
  have tail: "dns_effect st (if unat n \<le> q then Some st else do { c \<leftarrow> rd data q;
      let p1 = (if c = 0 then q + 1 else q); dns_answers data (unat n) k (p1 + 4) st })" for k
  proof (cases "unat n \<le> q")
    case False
    then have "q < length data" using assms by simp
    then show ?thesis using False dns_answers_safe[OF assms] by (simp add: rd_def Let_def)
  qed (simp add: dns_effect_intros)
  show ?thesis
  proof (cases "n < 12")
    case False
    then have l: "\<not> length data < 12" using assms by (auto simp: word_less_nat_alt)
    show ?thesis unfolding dns_response_handler_def Let_def[of "dec_dns data"] Let_def[of "unat n"] if_not_P[OF l]
      by (intro dns_effect_if dns_effect_intros) (simp_all only: q Option.bind.simps tail)
  qed (simp add: dns_response_handler_def dns_effect_intros)
qed

text \<open>
  Whatever the datagram holds, the response handler reads inside its \<open>length\<close> bytes
  only and ends, and all it can change is the resolved address and its flag.
\<close>

lemma dns_handler_safe:
  assumes "unat n \<le> length data"
  shows "\<exists>st'. dns_response_handler data n st = Some st' \<and>
    (st' = st \<or> (\<exists>ip. st' = st\<lparr>resolved_ip := ip, resolution_complete := True\<rparr>))"
  using dns_handler_effect[OF assms] by (simp add: dns_effect_def)

section \<open>The query and its reply\<close>

text \<open>
  The query for a host name is the header with one question, the labels between the
  dots of the name in DNS form, and type and class A and IN in network order; a name whose query
  has more than 512 bytes overflows the buffer.
\<close>

lemma dns_query_format:
  assumes "ls \<noteq> []" "\<forall>l \<in> set ls. DOT \<notin> set l"
  shows "dns_query ident (join_dots ls) =
    (if length (qname ls) \<le> 496 then Some (enc_dns \<lparr>dns_id = htons ident, dns_flags = htons 0x0100, qdcount = htons 1,
       ancount = 0, nscount = 0, arcount = 0\<rparr> @ qname ls @ [0, 1, 0, 1]) else None)"
proof -
  have "le16 (htons 1) = [0, 1]" by (simp add: le16_def htons_def)
  then show ?thesis using dns_labels_join[OF assms, of "[]"] by (simp add: dns_query_def Let_def)
qed


lemma register_first:
  assumes "udp_handlers st = us @ u # vs" "\<forall>x \<in> set us. uh_port x \<noteq> 0" "uh_port u = 0"
  shows "udp_handlers (udp_register_handler p cb st) = us @ \<lparr>uh_port = p, uh_callback = Some cb\<rparr> # vs"
proof -
  have "find (\<lambda>i. uh_port (udp_handlers st ! i) = 0) [0..<length (udp_handlers st)] = Some (length us)"
    unfolding find_index_Some using assms by (auto simp: nth_append)
  then show ?thesis using assms(1) by (simp add: udp_register_handler_def)
qed

text \<open>The handlers after \<open>udp_init\<close>, \<open>dns_init\<close> and \<open>ntp_init\<close>, in the order of \<open>kernel_main\<close>.\<close>

lemma boot_handlers:
  assumes "length (udp_handlers st) = 8"
  shows "udp_handlers (ntp_init (dns_init (udp_init st))) = [\<lparr>uh_port = 53, uh_callback = Some Dns_response_handler\<rparr>,
       \<lparr>uh_port = 123, uh_callback = Some Ntp_response_handler\<rparr>] @ replicate 6 \<lparr>uh_port = 0, uh_callback = None\<rparr>"
proof -
  let ?z = "\<lparr>uh_port = 0, uh_callback = None\<rparr>"
  have r: "replicate 8 ?z = [] @ ?z # ?z # replicate 6 ?z" by (simp add: eval_nat_numeral)
  have "udp_handlers (udp_init st) = [] @ ?z # ?z # replicate 6 ?z"
    using assms by (simp only: r[symmetric]) (simp add: udp_init_def map_replicate_const)
  then have "udp_handlers (dns_init (udp_init st)) =
      [\<lparr>uh_port = 53, uh_callback = Some Dns_response_handler\<rparr>] @ ?z # replicate 6 ?z"
    unfolding dns_init_def using register_first[where us = "[]"] by simp
  from register_first[OF this] show ?thesis unfolding ntp_init_def by simp
qed

end
