(* ===== verification/NetLimits.thy ===== *)
theory NetLimits
  imports NetDns
begin

text \<open>
  Properties of the stack at its edges: the checksum on the wire, lengths that contradict each
  other, the ring buffer of the card, and waiting on a silent network.
\<close>

section \<open>The header checksum\<close>

lemma enc_ip_split:
  "\<exists>p r. length p = 10 \<and> length r = 8 \<and> (\<forall>c. enc_ip (h\<lparr>ip_sum := c\<rparr>) = p @ le16 c @ r)"
  by (intro exI[of _ "[version_ihl h, tos h] @ le16 (total_length h) @ le16 (identification h)
       @ le16 (flags_fragment h) @ [ttl h, protocol h]"] exI[of _ "le32 (src_ip h) @ le32 (dest_ip h)"])
    (simp add: enc_ip_def)

lemma header_checksum:
  assumes "ip_checksum (enc_ip (h\<lparr>ip_sum := 0\<rparr>)) 20 = Some c"
  shows "ip_checksum (enc_ip (h\<lparr>ip_sum := c\<rparr>)) 20 = Some 0"
    "ip_checksum (enc_ip (h\<lparr>ip_sum := htons c\<rparr>)) 20 = Some 0 \<longleftrightarrow> htons c = c"
proof -
  obtain p r where pr: "length p = 10" "length r = 8" "\<And>c. enc_ip (h\<lparr>ip_sum := c\<rparr>) = p @ le16 c @ r"
    using enc_ip_split[of h] by blast
  have f: "ip_checksum (enc_ip (h\<lparr>ip_sum := w\<rparr>)) 20 = Some 0 \<longleftrightarrow>
      unat w mod 65535 = unat c mod 65535 \<and> \<not> (c = 65535 \<and> w = 0)" for w
    unfolding pr(3) by (rule checksum_field) (use pr assms in simp_all)
  show "ip_checksum (enc_ip (h\<lparr>ip_sum := c\<rparr>)) 20 = Some 0" unfolding f by auto
  have "htons 65535 = 65535" by (simp add: htons_def)
  then have "\<not> (c = 65535 \<and> htons c = 0)" by auto
  then show "ip_checksum (enc_ip (h\<lparr>ip_sum := htons c\<rparr>)) 20 = Some 0 \<longleftrightarrow> htons c = c"
    unfolding f by (simp add: htons_cong)
qed

text \<open>
  C39: the checksum \<open>c\<close> that \<open>ip_checksum\<close> computes for the header is the one a
  receiver accepts when it is stored as it is; \<open>ip_send\<close> stores it with its bytes swapped, and the
  header that leaves verifies only when both bytes of \<open>c\<close> are equal.
\<close>

theorem ip_checksum_swapped:
  assumes "net_ok st" "unat n \<le> 1480" "unat n \<le> length data" "arp_resolve (ip_target st dest) st = Some mac"
  shows "\<exists>st' f c. ip_send dest proto data n st = Some st' \<and> sent st' = sent st @ [(tx_port st, f)] \<and>
    ip_checksum (enc_ip (new_ip_header st dest proto (20 + n))) 20 = Some c \<and>
    ip_checksum (enc_ip (new_ip_header st dest proto (20 + n)\<lparr>ip_sum := c\<rparr>)) 20 = Some 0 \<and>
    (ip_checksum (drop 14 f) 20 = Some 0 \<longleftrightarrow> htons c = c)"
proof -
  let ?h = "new_ip_header st dest proto (20 + n)"
  obtain st' where s: "ip_send dest proto data n st = Some st'"
    "transmits (eth_frame mac (local_mac st) 0x0800 (ip_packet st dest proto data n))
       (st\<lparr>ip_id_counter := ip_id_counter st + 1\<rparr>) st'" (is "transmits ?f _ _")
    by (rule ip_send_transmits[OF assms, where proto = proto]) (rule that)
  obtain c where c: "ip_checksum (enc_ip ?h) 20 = Some c" using ip_checksum_defined[of 20 "enc_ip ?h"] by auto
  have h0: "?h\<lparr>ip_sum := 0\<rparr> = ?h" by (simp add: new_ip_header_def)
  have "drop 14 ?f = enc_ip (?h\<lparr>ip_sum := htons c\<rparr>) @ take (unat n) data @ replicate (26 - unat n) 0"
    using net_okD(3,5)[OF assms(1)] assms(3,4) c
    by (simp add: eth_frame_def enc_eth_def Let_def ip_packet_def)
  then have "ip_checksum (drop 14 ?f) 20 = ip_checksum (enc_ip (?h\<lparr>ip_sum := htons c\<rparr>)) 20"
    by (simp add: ip_checksum_def)
  moreover note header_checksum[of ?h c, unfolded h0, OF c]
  moreover have "sent st' = sent st @ [(tx_port st, ?f)]" using transmitsD(1)[OF s(2)] by simp
  ultimately show ?thesis using s(1) c by auto
qed

text \<open>The first packet of a machine with address 10.0.2.15 to 10.0.2.2 does not verify.\<close>

theorem ip_checksum_swapped_witness:
  "\<exists>st' f. ip_send 0x0A000202 17 [] 0 host_a = Some st' \<and> sent st' = [(0, f)] \<and> ip_checksum (drop 14 f) 20 \<noteq> Some 0"
proof -
  have n: "unat (0 :: u16) \<le> 1480" "unat (0 :: u16) \<le> length ([] :: bytes)" by simp_all
  have h: "enc_ip (new_ip_header host_a 0x0A000202 17 (20 + 0)) =
      [0x45, 0, 0, 20, 0, 1, 0x40, 0, 64, 17, 0, 0, 10, 0, 2, 15, 10, 0, 2, 2]"
    by (simp add: enc_ip_def new_ip_header_def host_a_def host_def htons_def htonl_def le16_def le32_def drop_bit_eq_div)
  have "ip_checksum (enc_ip (new_ip_header host_a 0x0A000202 17 (20 + 0))) 20 = Some 0xC822"
    unfolding h by (simp add: ip_checksum_def get16_def fold_carry.simps)
  moreover have "htons 0xC822 \<noteq> 0xC822" by (simp add: htons_def)
  ultimately show ?thesis
    using ip_checksum_swapped[OF hosts_ok(1) n hosts_ok(3), of 17] hosts_ok(7,8) by auto
qed

section \<open>Contradicting lengths\<close>

text \<open>
  \<open>ip_receive\<close> checks that the total length in the header is not more than what arrived,
  but not that it is at least the length of the header. For an echo request with a smaller total
  length the payload length wraps around, and the reply is copied over the end of its buffer.
\<close>

lemma ip_short_total:
  assumes "20 \<le> n" "28 \<le> length data" "version_ihl (dec_ip data) = 0x45" "ntohs (total_length (dec_ip data)) < 20"
    and "ntohl (dest_ip (dec_ip data)) = ip_address st" "protocol (dec_ip data) = 1"
    and "icmp_type (dec_icmp (drop 20 data)) = 8"
  shows "ip_receive data n st = None"
proof -
  let ?t = "ntohs (total_length (dec_ip data))"
  have v: "drop_bit 4 (0x45 :: u8) AND 0x0F = 4" "((0x45 :: u8) AND 0x0F) * 4 = 20"
    "unat (20 :: u8) = 20" "(ucast (20 :: u8) :: u16) = 20"
    by (simp_all add: drop_bit_eq_div)
  have "unat ?t < 20" using assms(4) by (simp add: word_less_nat_alt)
  then have "unat (?t - 20) = 65516 + unat ?t" by (simp add: unat_sub_if_size word_size)
  then have "1500 < ?t - 20" "\<not> ?t - 20 < 8" by (simp_all add: word_less_nat_alt)
  moreover have "\<not> n < 20" "\<not> n < ?t" using assms(1,4) by simp_all
  ultimately show ?thesis using assms
    by (simp add: ip_receive_def ip_receive_with_def Let_def v icmp_receive_with_def)
qed

definition short_packet :: bytes where
  "short_packet = enc_ip \<lparr>version_ihl = 0x45, tos = 0, total_length = 0, identification = 0, flags_fragment = 0, ttl = 64,
     protocol = 1, ip_sum = 0, src_ip = 0, dest_ip = htonl 0x0A00020F\<rparr> @
   enc_icmp \<lparr>icmp_type = 8, icmp_code = 0, icmp_sum = 0, icmp_id = 0, icmp_seq = 0\<rparr>"

section \<open>The ring buffer of the card\<close>

lemma unat_align4: "unat (x AND NOT 3 :: u16) = 4 * (unat x div 4)"
proof -
  have m: "(3 :: u16) = mask 2" by (simp add: mask_eq_exp_minus_1)
  have n: "2 \<le> n \<Longrightarrow> Suc (Suc (n - 2)) = n" for n by simp
  have "x AND NOT 3 = push_bit 2 (drop_bit 2 x)"
    unfolding m by (auto intro!: bit_word_eqI simp: bit_simps not_less n)
  moreover have "unat x div 4 * 4 < 65536" using unsigned_less[where 'a = nat, of x] by simp
  ultimately show ?thesis by (simp add: push_bit_eq_mult drop_bit_eq_div unat_div unat_word_ariths)
qed

lemma unat_rx_advance:
  assumes "unat off + unat n + 7 < 65536"
  shows "unat (rx_advance off n) = (let o1 = 4 * ((unat off + unat n + 7) div 4) in if 8192 \<le> o1 then o1 - 8192 else o1)"
proof -
  have s: "unat (off + n + 4 + 3) = unat off + unat n + 7" using assms by (simp add: unat_word_ariths)
  then have o: "unat ((off + n + 4 + 3) AND NOT 3) = 4 * ((unat off + unat n + 7) div 4)" by (simp only: unat_align4)
  show ?thesis unfolding rx_advance_def Let_def word_le_nat_alt using o
    by (simp add: unat_sub word_le_nat_alt)
qed

lemma ring_wrap: "((if 8192 \<le> 4 * k then 4 * k - 8192 else 4 * k) + 4) mod 8192 = 4 * Suc k mod (8192 :: nat)"
proof (cases "8192 \<le> 4 * k")
  case True
  then have "4 * Suc k = (4 * k - 8192 + 4) + 8192" by simp
  then show ?thesis using True by (simp only: if_True mod_add_self2)
qed (simp add: add.commute)

text \<open>
  C40: after a good frame the driver hands over the frame without its checksum, and continues 4
  bytes before the next frame header: the card stores frames of \<open>n\<close> bytes, checksum included, at
  intervals of \<open>n + 4\<close> rounded up to a multiple of 4, but the driver has already subtracted the 4
  bytes of the checksum from \<open>n\<close>.
\<close>

theorem rx_lags:
  assumes "initialized st" "polls st = p # ps" "cp_cmd p AND 1 = 0" "length (cp_ring p) = 9708"
    and "unat (rx_offset st) \<le> 8188" "get16 (cp_ring p) (unat (rx_offset st)) AND 1 \<noteq> 0"
    and "60 \<le> n" "n \<le> 1518" "get16 (cp_ring p) (unat (rx_offset st) + 2) = n" "length buf = 1518"
  shows "\<exists>st'. network_receive_packet buf 1518 st = Some (int (unat n) - 4,
      take (unat n - 4) (drop (unat (rx_offset st) + 4) (cp_ring p)) @ drop (unat n - 4) buf, st') \<and>
    (unat (rx_offset st') + 4) mod 8192 = 4 * ((unat (rx_offset st) + unat n + 4 + 3) div 4) mod 8192"
proof -
  let ?off = "unat (rx_offset st)"
  have n: "60 \<le> unat n" "unat n \<le> 1518" using assms(7,8) by (simp_all add: word_le_nat_alt)
  have n4: "unat (n - 4) = unat n - 4" using n by (simp add: unat_sub word_le_nat_alt)
  have le: "\<not> n < 60" "\<not> 1518 < n" "\<not> 1518 < n - 4" using assms(7,8) n n4 by (simp_all add: word_less_nat_alt)
  have adv: "unat (rx_advance (rx_offset st) (n - 4)) =
      (let o1 = 4 * ((?off + unat n + 3) div 4) in if 8192 \<le> o1 then o1 - 8192 else o1)"
  proof -
    have e: "?off + unat (n - 4) + 7 = ?off + unat n + 3" using n n4 by simp
    have "?off + unat (n - 4) + 7 < 65536" unfolding e using n assms(5) by simp
    from unat_rx_advance[OF this] show ?thesis unfolding e .
  qed
  have "(?off + unat n + 4 + 3) div 4 = (?off + unat n + 3) div 4 + 1" by simp
  then have "(unat (rx_advance (rx_offset st) (n - 4)) + 4) mod 8192 = 4 * ((?off + unat n + 4 + 3) div 4) mod 8192"
    unfolding adv Let_def ring_wrap by simp
  moreover have "\<not> 9704 < ?off + unat n - 4" "\<not> 1518 < unat n - 4" using n assms(5) by simp_all
  ultimately show ?thesis using assms n n4 le
    by (simp add: network_receive_packet_def poll_card_def Let_def log_def)
qed

text \<open>
  The driver skips a frame whose length field is out of range by that length, and
  subtracts 8192 once. A length of 17904 or more puts the offset past the end of the buffer, and
  the next frame is read from there.
\<close>

lemma rx_bad_length:
  assumes "initialized st" "polls st = p # q # ps" "cp_cmd p AND 1 = 0" "cp_cmd q AND 1 = 0"
    and "length (cp_ring p) = 9708" "length (cp_ring q) = 9708"
    and "unat (rx_offset st) \<le> 8188" "get16 (cp_ring p) (unat (rx_offset st)) AND 1 \<noteq> 0"
    and "17904 \<le> n" "n \<le> 57000" "get16 (cp_ring p) (unat (rx_offset st) + 2) = n"
  shows "\<exists>st'. network_receive_packet buf 1518 st = Some (0, buf, st') \<and>
    9708 \<le> unat (rx_offset st') \<and> network_receive_packet buf 1518 st' = None"
proof -
  let ?off = "unat (rx_offset st)"
  have n: "17904 \<le> unat n" "unat n \<le> 57000" using assms(9,10) by (simp_all add: word_le_nat_alt)
  then have le: "1518 < n" by (simp add: word_less_nat_alt)
  have "unat (rx_advance (rx_offset st) n) = (let o1 = 4 * ((?off + unat n + 7) div 4) in if 8192 \<le> o1 then o1 - 8192 else o1)"
    using n assms(7) by (intro unat_rx_advance) simp
  moreover have "4477 \<le> (?off + unat n + 7) div 4" using n by simp
  ultimately have "9708 \<le> unat (rx_advance (rx_offset st) n)" by (auto simp: Let_def)
  then show ?thesis using assms le
    by (simp add: network_receive_packet_def poll_card_def Let_def log_def)
qed

definition ring_with :: "u16 \<Rightarrow> bytes" where
  "ring_with n = le16 1 @ le16 n @ replicate 9704 7"

lemma ring_with_simps: "length (ring_with n) = 9708" "get16 (ring_with n) 0 = 1" "get16 (ring_with n) 2 = n"
  using get16_le16[of n "replicate 9704 7"] get16_shift[of "le16 1" "le16 n @ replicate 9704 7" 0]
  by (simp_all add: ring_with_def get16_le16)

lemmas ring_with_facts = ring_with_simps ring_with_simps(3)[unfolded numeral_2_eq_2]

theorem rx_lags_witness:
  "\<exists>st' buf'. network_receive_packet (replicate 1518 0) 1518 (host_a\<lparr>polls := [\<lparr>cp_cmd = 0, cp_ring = ring_with 64\<rparr>]\<rparr>)
     = Some (60, buf', st') \<and> (unat (rx_offset st') + 4) mod 8192 = 68"
proof -
  have i: "initialized host_a" "rx_offset host_a = 0" by (simp_all add: host_a_def host_def)
  show ?thesis
    using rx_lags[of "host_a\<lparr>polls := [\<lparr>cp_cmd = 0, cp_ring = ring_with 64\<rparr>]\<rparr>" "\<lparr>cp_cmd = 0, cp_ring = ring_with 64\<rparr>" "[]" 64 "replicate 1518 0"]
    by (auto simp: i ring_with_facts)
qed

section \<open>Waiting on a silent network\<close>

lemma receive_one_silent: "polls st = [] \<Longrightarrow> receive_one send st = Some st"
  by (simp add: receive_one_def network_receive_packet_def poll_card_def)

lemma icmp_wait_loop_silent:
  "polls st = [] \<Longrightarrow> \<not> answered dest seq st \<Longrightarrow> icmp_timer st - start \<le> timeout \<Longrightarrow>
   icmp_wait_loop dest seq start timeout st = Some (0, st\<lparr>icmp_timer := start + timeout\<rparr>)"
proof (induction dest seq start timeout st rule: icmp_wait_loop.induct)
  case (1 dest seq start timeout st)
  show ?case
  proof (cases "icmp_timer st - start < timeout")
    case True
    note r = receive_one_silent[OF 1(2), of ip_send]
    let ?s = "st\<lparr>icmp_timer := icmp_timer st + 1\<rparr>"
    have "unat (icmp_timer st - start) < unat timeout" using True by (simp add: word_less_nat_alt)
    then have "icmp_timer ?s - start \<le> timeout"
      using unat_plus_simple[of "icmp_timer st - start" 1] inc_le[OF True] by (simp add: algebra_simps)
    then have "icmp_wait_loop dest seq start timeout ?s = Some (0, ?s\<lparr>icmp_timer := start + timeout\<rparr>)"
      using 1 True r by (intro "1.IH") (simp_all add: answered_def)
    then show ?thesis using 1(3) True r by (subst icmp_wait_loop.simps) simp
  next
    case False
    with 1(4) have "icmp_timer st - start = timeout" by simp
    then have "icmp_timer st = start + timeout" by (simp add: algebra_simps)
    then show ?thesis using False by (subst icmp_wait_loop.simps) simp
  qed
qed

text \<open>
  \<open>icmp_wait_reply\<close> ends: on a network where nothing more arrives it returns 0 after
  \<open>timeout_ms\<close> rounds, also when the timer wraps around, and changes nothing but the timer.
\<close>

lemma icmp_wait_silent:
  assumes "polls st = []" "\<not> answered dest seq st"
  shows "icmp_wait_reply dest seq timeout st = Some (0, st\<lparr>icmp_timer := icmp_timer st + timeout\<rparr>)"
  unfolding icmp_wait_reply_def by (rule icmp_wait_loop_silent[OF assms]) simp

end
