(* ===== verification/NetSafe.thy ===== *)
theory NetSafe
  imports NetLimits
begin

text \<open>
  The network stack stays inside its buffers, whatever it sends and receives and however deep sending
  and receiving are nested. The assumption \<open>card_ok\<close> is about the card and the frame at the start of the ring: it is stored
  the way the RTL8139 stores frames, it has a legal length, an IP header in it does not claim a total length below
  its own, and one byte of its frame check sequence, which the driver takes for the start of a header
  (\<open>rx_lags\<close>), is even. Without the last two the code leaves its memory (\<open>NetLimits\<close>, \<open>check_sequence_read\<close>). The
  locale \<open>safe_sender\<close> is what the receiving functions ask of the sender they call back.
\<close>

section \<open>What the card delivers\<close>

definition good_packet :: "bytes \<Rightarrow> bool" where
  "good_packet p \<longleftrightarrow> (ucast ((version_ihl (dec_ip p) AND 0x0F) * 4) :: u16) \<le> ntohs (total_length (dec_ip p))"

definition good_frame :: "bytes \<Rightarrow> bool" where
  "good_frame f \<longleftrightarrow> (ntohs (eth_type (dec_eth f)) = 0x0800 \<longrightarrow> good_packet (drop 14 f))"

text \<open>
  How the RTL8139 stores a frame in the ring: a status word, whose bit 0 says that the frame was received
  without error, the number of bytes of the frame with its check sequence, the frame, the check sequence. The
  next frame goes to the next multiple of 4; the card does not write over what it has stored before it has
  come round the ring of 8192 bytes.
\<close>

definition stored :: "u16 \<Rightarrow> bytes \<Rightarrow> bytes \<Rightarrow> bytes" where
  "stored status f fcs = le16 status @ le16 (of_nat (length f + 4)) @ f @ fcs"

text \<open>Where the driver goes on after a frame of \<open>n\<close> bytes at the start of the ring: to its check sequence.\<close>

definition after_first :: "u16 \<Rightarrow> u16" where
  "after_first n = rx_advance 0 (n - 4)"

text \<open>
  A ring that starts with such a frame: received without error, of a legal length (with the check
  sequence 64 to 1518 bytes), with a good IP header if it has one, and with an even byte where the driver goes on.
\<close>

definition first_frame :: "bytes \<Rightarrow> bool" where
  "first_frame rx \<longleftrightarrow> length rx = 9708 \<and> get16 rx 0 AND 1 \<noteq> 0 \<and>
     (let n = get16 rx 2 in 64 \<le> n \<and> n \<le> 1518 \<and> good_frame (take (unat (n - 4)) (drop 4 rx)) \<and>
        get16 rx (unat (after_first n)) AND 1 = 0)"

text \<open>
  The polls of a driver that is at the offset \<open>off\<close>: at the start of the ring, or behind the first frame, which is then still
  in the ring. What follows the first frame in the ring can be anything, and so can the
  bit for the empty buffer. From the check sequence the driver starts again at 0, where a card that
  has gone on shows the same frame, and a card that starts again may show another one.
\<close>

fun card_ok :: "u16 \<Rightarrow> card_poll list \<Rightarrow> bool" where
  "card_ok off [] \<longleftrightarrow> True"
| "card_ok off (p # ps) \<longleftrightarrow>
     (if cp_cmd p AND 1 \<noteq> 0 then card_ok off ps
      else first_frame (cp_ring p) \<and>
        (if off = 0 then card_ok (after_first (get16 (cp_ring p) 2)) ps
         else off = after_first (get16 (cp_ring p) 2) \<and> card_ok 0 ps))"

definition net_safe :: "net \<Rightarrow> bool" where
  "net_safe st \<longleftrightarrow> net_ok st \<and> length (stack_rx st) = 1518 \<and> card_ok (rx_offset st) (polls st)"

lemma net_safe_upd [simp]:
  "net_safe (st\<lparr>ip_id_counter := a\<rparr>) = net_safe st" "net_safe (st\<lparr>ping_states := b\<rparr>) = net_safe st"
  "net_safe (st\<lparr>icmp_timer := c\<rparr>) = net_safe st" "net_safe (log es st) = net_safe st"
  "net_safe (st\<lparr>resolved_ip := d, resolution_complete := e\<rparr>) = net_safe st"
  "net_safe (st\<lparr>synced_timestamp := f, sync_complete := g\<rparr>) = net_safe st"
  "net_safe (st\<lparr>dns_transaction_id := h\<rparr>) = net_safe st"
  by (simp_all add: net_safe_def net_ok_def arp_ok_def log_def)

lemma net_safe_transmits: "net_safe st \<Longrightarrow> transmits f st st' \<Longrightarrow> net_safe st'"
  using transmitsD(7)[of f st st'] by (auto simp: net_safe_def transmits_def)

lemma net_safe_arp_add: "net_safe st \<Longrightarrow> length mac = 6 \<Longrightarrow> net_safe (arp_add_entry ip mac st)"
  using arp_add_ok[of st mac ip] by (auto simp: net_safe_def arp_add_entry_def split: prod.splits bool.splits)

text \<open>A call that is defined and keeps the invariant.\<close>

definition safe :: "net option \<Rightarrow> bool" where
  "safe r \<longleftrightarrow> (\<exists>st. r = Some st \<and> net_safe st)"

lemma safe_Some [simp]: "safe (Some st) = net_safe st"
  by (simp add: safe_def)

lemma safe_bind: "safe r \<Longrightarrow> (\<And>st. net_safe st \<Longrightarrow> safe (f st)) \<Longrightarrow> safe (Option.bind r f)"
  by (auto simp: safe_def)

lemma eth_send_safe:
  assumes "net_safe st" "length mac = 6" "unat n \<le> 1500" "unat n \<le> length data"
  shows "safe (eth_send_frame mac ty data n st)"
proof -
  have "net_ok st" using assms(1) by (simp add: net_safe_def)
  then obtain st' where "eth_send_frame mac ty data n st = Some st'"
    "transmits (eth_frame mac (local_mac st) ty (take (unat n) data)) st st'"
    using eth_send_transmits[OF _ assms(2-4)] by blast
  with net_safe_transmits[OF assms(1)] show ?thesis by simp
qed

section \<open>The ring\<close>

lemma good_frame_append: "good_frame f \<Longrightarrow> 34 \<le> length f \<Longrightarrow> good_frame (f @ r)"
  by (cases "3 < length f - 14") (auto simp: good_frame_def good_packet_def dec_eth_def dec_ip_def get16_def nth_append)

text \<open>A card that stores frames this way makes such a ring, whatever it stores behind the first frame and whenever it is polled.\<close>

lemma and_1_bit: "(w :: 'a::len word) AND 1 = 0 \<longleftrightarrow> \<not> bit w 0"
  by (simp add: and_one_eq bit_0 flip: even_iff_mod_2_eq_zero)

lemma get16_odd: "get16 b k AND 1 = 0 \<longleftrightarrow> b ! k AND 1 = 0"
  unfolding and_1_bit by (simp add: get16_def bit_simps)

lemma unat_after_first:
  assumes "64 \<le> n" "n \<le> 1518"
  shows "unat (n - 4) = unat n - 4" "unat (after_first n) = 4 * ((unat n + 3) div 4)"
proof -
  have n: "64 \<le> unat n" "unat n \<le> 1518" using assms by (simp_all add: word_le_nat_alt)
  then show m: "unat (n - 4) = unat n - 4" by (simp add: unat_sub word_le_nat_alt)
  have "unat (0 :: u16) + unat (n - 4) + 7 < 65536" using m n by simp
  note u = unat_rx_advance[OF this]
  have e: "unat (0 :: u16) + unat (n - 4) + 7 = unat n + 3" using m n by simp
  have "\<not> 8192 \<le> 4 * ((unat n + 3) div 4)" using n by simp
  then show "unat (after_first n) = 4 * ((unat n + 3) div 4)" unfolding after_first_def u Let_def e by (simp only: if_False)
qed

lemma stored_first_frame:
  assumes "rx = stored status f fcs @ rest" "length rx = 9708" "status AND 1 \<noteq> 0" "60 \<le> length f" "length f \<le> 1514"
    and "length fcs = 4" "good_frame f" "fcs ! (3 * length f mod 4) AND 1 = 0"
  shows "first_frame rx" "get16 rx 2 = of_nat (length f + 4)"
proof -
  let ?n = "of_nat (length f + 4) :: u16"
  have n: "unat ?n = length f + 4" by (rule unat_nat16) (use assms(5) in simp)
  have n_le: "64 \<le> ?n" "?n \<le> 1518" using n assms(4,5) by (simp_all add: word_le_nat_alt)
  have rx: "rx = le16 status @ le16 ?n @ f @ fcs @ rest" using assms(1) by (simp add: stored_def)
  then have h: "get16 rx 0 = status" "get16 rx 2 = ?n" "take (length f) (drop 4 rx) = f"
    using get16_shift[of "le16 status" "le16 ?n @ f @ fcs @ rest" 0] by (simp_all add: get16_le16)
  note a = unat_after_first[OF n_le, unfolded n]
  have k: "4 * ((length f + 4 + 3) div 4) = 4 + (length f + 3 * length f mod 4)" by presburger
  have "rx ! (4 * ((length f + 4 + 3) div 4)) = fcs ! (3 * length f mod 4)"
    unfolding k rx using assms(6) by (simp add: nth_append)
  then have "get16 rx (unat (after_first ?n)) AND 1 = 0" unfolding get16_odd a using assms(8) by simp
  with h n_le a(1) assms(2,3,7) show "first_frame rx" "get16 rx 2 = ?n"
    by (simp_all add: first_frame_def Let_def)
qed

lemma card_goes_on:
  assumes "\<And>p. p \<in> set ps \<Longrightarrow> cp_cmd p AND 1 = 0 \<Longrightarrow> first_frame (cp_ring p) \<and> get16 (cp_ring p) 2 = n"
    and "off = 0 \<or> off = after_first n"
  shows "card_ok off ps"
  using assms
proof (induction ps arbitrary: off)
  case (Cons p ps)
  then have IH: "card_ok 0 ps" "card_ok (after_first n) ps" by simp_all
  show ?case
  proof (cases "cp_cmd p AND 1 = 0")
    case True
    with Cons.prems(1)[of p] have "first_frame (cp_ring p)" "get16 (cp_ring p) 2 = n" by simp_all
    with Cons.prems(2) IH True show ?thesis by auto
  next
    case False
    with IH Cons.prems(2) show ?thesis by auto
  qed
qed simp

lemma receive_first:
  assumes "initialized st" "length buf = 1518" "polls st = p # ps" "cp_cmd p AND 1 = 0" "rx_offset st = 0"
    and "length (cp_ring p) = 9708" "get16 (cp_ring p) 0 AND 1 \<noteq> 0" "64 \<le> get16 (cp_ring p) 2" "get16 (cp_ring p) 2 \<le> 1518"
  obtains es where "network_receive_packet buf 1518 st =
    (let n = get16 (cp_ring p) 2 in Some (int (unat (n - 4)), take (unat (n - 4)) (drop 4 (cp_ring p)) @ drop (unat (n - 4)) buf,
      log es (st\<lparr>polls := ps, rx_buffer := cp_ring p, rx_offset := after_first n\<rparr>)))"
proof -
  define rx where "rx = cp_ring p"
  define n where "n = get16 rx 2"
  have nn: "64 \<le> unat n" "unat n \<le> 1518" using assms(8,9) by (simp_all add: word_le_nat_alt rx_def n_def)
  have a: "unat (n - 4) = unat n - 4" using assms(8,9) by (intro unat_after_first) (simp_all add: rx_def n_def)
  have le: "\<not> n < 60" "\<not> 1518 < n" "\<not> 1518 < n - 4" using a nn by (simp_all add: word_less_nat_alt)
  have b: "\<not> length rx < 0 + 4" "\<not> (length rx < 0 + 4 + unat (n - 4) \<or> length buf < unat (n - 4))"
    using assms(2,6) a nn by (simp_all add: rx_def)
  have poll: "poll_card st = (cp_cmd p, st\<lparr>polls := ps, rx_buffer := cp_ring p\<rparr>)" using assms(3) by (simp add: poll_card_def)
  show ?thesis
    using assms(1,4,5,7) le b that unfolding rx_def[symmetric] n_def[symmetric] Let_def
    by (simp add: network_receive_packet_def poll rx_def[symmetric] n_def[symmetric, unfolded numeral_2_eq_2] n_def[symmetric] Let_def
        after_first_def)
qed

lemma get16_at: "length xs = k \<Longrightarrow> get16 (xs @ le16 w @ r) k = w"
  using get16_shift[of xs "le16 w @ r" 0] by (simp add: get16_le16)

text \<open>
  What the last condition of \<open>first_frame\<close> excludes: a legal frame whose check sequence reads as a good
  status and a length of 17904 or more. The card stores it as documented and is polled three times; the driver takes
  the frame, skips from the check sequence past the end of the ring, and reads a header there.
\<close>

lemma check_sequence_read:
  assumes "rx = stored status f (le16 a @ le16 b) @ rest" "length rx = 9708" "status AND 1 \<noteq> 0"
    and "60 \<le> length f" "length f \<le> 1514" "length f mod 4 = 0" "a AND 1 \<noteq> 0" "17904 \<le> b" "b \<le> 57000"
    and "initialized st" "rx_offset st = 0" "length buf = 1518"
    and "polls st = [\<lparr>cp_cmd = 0, cp_ring = rx\<rparr>, \<lparr>cp_cmd = 0, cp_ring = rx\<rparr>, \<lparr>cp_cmd = 0, cp_ring = rx\<rparr>]"
  shows "\<exists>st1 st2 buf1. network_receive_packet buf 1518 st = Some (int (length f), buf1, st1) \<and>
    network_receive_packet buf1 1518 st1 = Some (0, buf1, st2) \<and> network_receive_packet buf1 1518 st2 = None"
proof -
  let ?p = "\<lparr>cp_cmd = 0, cp_ring = rx\<rparr>" and ?n = "of_nat (length f + 4) :: u16"
  have n: "unat ?n = length f + 4" by (rule unat_nat16) (use assms(5) in simp)
  have n_le: "64 \<le> ?n" "?n \<le> 1518" using n assms(4,5) by (simp_all add: word_le_nat_alt)
  have rx: "rx = le16 status @ le16 ?n @ f @ le16 a @ le16 b @ rest" using assms(1) by (simp add: stored_def)
  then have h: "get16 rx 0 = status" "get16 rx 2 = ?n" "get16 rx (length f + 4) = a" "get16 rx (length f + 4 + 2) = b"
    using get16_at[of "[]" 0 status] get16_at[of "le16 status" 2 ?n] get16_at[of "le16 status @ le16 ?n @ f" "length f + 4" a]
      get16_at[of "le16 status @ le16 ?n @ f @ le16 a" "length f + 4 + 2" b] by (simp_all only: rx) (simp_all add: le16_def)
  note m = unat_after_first[OF n_le, unfolded n]
  have "unat (of_nat (length f) :: u16) = length f" by (rule unat_nat16) (use assms(5) in simp)
  then have u: "uint (of_nat (length f) :: u16) = int (length f)" by (metis uint_nat)
  have k: "unat (after_first ?n) = length f + 4" unfolding m(2) using assms(6) by presburger
  obtain es where r: "network_receive_packet buf 1518 st = Some (int (length f), take (length f) (drop 4 rx) @ drop (length f) buf,
      log es (st\<lparr>polls := [?p, ?p], rx_buffer := rx, rx_offset := after_first ?n\<rparr>))"
    by (rule receive_first[OF assms(10,12,13) _ assms(11)]) (use assms(2,3) h n_le m(1) u in \<open>simp_all add: Let_def\<close>)
  let ?st1 = "log es (st\<lparr>polls := [?p, ?p], rx_buffer := rx, rx_offset := after_first ?n\<rparr>)"
    and ?buf = "take (length f) (drop 4 rx) @ drop (length f) buf"
  have "\<exists>st2. network_receive_packet ?buf 1518 ?st1 = Some (0, ?buf, st2) \<and> 9708 \<le> unat (rx_offset st2) \<and>
      network_receive_packet ?buf 1518 st2 = None"
    by (rule rx_bad_length[of _ ?p ?p "[]" b]) (use assms(2,5,7-10) h k in \<open>simp_all add: log_def\<close>)
  with r show ?thesis by blast
qed

lemma network_receive_safe:
  assumes ok: "net_safe st"
  obtains l buf st1 where "network_receive_packet (stack_rx st) 1518 st = Some (l, buf, st1)" "net_safe st1"
    "0 < l \<Longrightarrow> \<exists>n. l = int (unat n) \<and> unat (n :: u16) \<le> 1514 \<and> unat n \<le> length buf \<and> good_frame buf"
proof (cases "polls st")
  case Nil
  then show ?thesis using ok that
    by (simp add: network_receive_packet_def poll_card_def net_safe_def net_ok_def)
next
  case (Cons p ps)
  have i: "initialized st" "length (stack_rx st) = 1518" using ok by (simp_all add: net_safe_def net_ok_def)
  let ?st1 = "st\<lparr>polls := ps, rx_buffer := cp_ring p\<rparr>"
  have poll: "poll_card st = (cp_cmd p, ?st1)" using Cons by (simp add: poll_card_def)
  have keep: "net_safe (?st1\<lparr>rx_offset := o1\<rparr>)" if "card_ok o1 ps" for o1
    using ok that by (simp add: net_safe_def net_ok_def arp_ok_def)
  have card: "card_ok (rx_offset st) (p # ps)" using ok Cons by (simp add: net_safe_def del: card_ok.simps)
  show ?thesis
  proof (cases "cp_cmd p AND 1 = 0")
    case False
    have "?st1 = ?st1\<lparr>rx_offset := rx_offset st\<rparr>" by simp
    then have "net_safe ?st1" using keep[of "rx_offset st"] card False by simp
    with i poll False show ?thesis by (intro that[of 0 "stack_rx st" ?st1]) (simp_all add: network_receive_packet_def)
  next
    case ready: True
    define rx where "rx = cp_ring p"
    define n where "n = get16 rx 2"
    have f: "length rx = 9708" "get16 rx 0 AND 1 \<noteq> 0" "64 \<le> n" "n \<le> 1518"
      "good_frame (take (unat (n - 4)) (drop 4 rx))" "get16 rx (unat (after_first n)) AND 1 = 0"
      using card ready by (simp_all add: first_frame_def Let_def rx_def n_def)
    have nn: "64 \<le> unat n" "unat n \<le> 1518" using f(3,4) by (simp_all add: word_le_nat_alt)
    note a = unat_after_first[OF f(3,4)]
    show ?thesis
    proof (cases "rx_offset st = 0")
      case True
      let ?f = "take (unat (n - 4)) (drop 4 rx)" and ?buf = "take (unat (n - 4)) (drop 4 rx) @ drop (unat (n - 4)) (stack_rx st)"
      have c: "card_ok (after_first n) ps" using card ready True by (simp add: rx_def n_def)
      obtain es where es: "network_receive_packet (stack_rx st) 1518 st =
          Some (int (unat (n - 4)), ?buf, log es (?st1\<lparr>rx_offset := after_first n\<rparr>))"
        by (rule receive_first[OF i Cons ready True]) (use f in \<open>simp_all add: rx_def n_def Let_def\<close>)
      have l: "length ?f = unat n - 4" using a(1) nn f(1) by simp
      then have "good_frame ?buf" using f(5) nn by (intro good_frame_append) simp_all
      moreover have "unat n - 4 \<le> 1514" "unat n - 4 \<le> 1518" using nn by linarith+
      ultimately have "\<exists>m. int (unat (n - 4)) = int (unat (m :: u16)) \<and> unat m \<le> 1514 \<and> unat m \<le> length ?buf \<and> good_frame ?buf"
        using i(2) l a(1) nn by (intro exI[of _ "n - 4"]) simp
      then show ?thesis using keep[OF c] by (intro that[OF es]) simp_all
    next
      case False
      then have c: "rx_offset st = after_first n" "card_ok 0 ps" using card ready by (simp_all add: rx_def n_def)
      have "\<not> length rx < unat (after_first n) + 4" using f(1) a(2) nn by simp
      then obtain es where es: "network_receive_packet (stack_rx st) 1518 st = Some (-1, stack_rx st, log es (?st1\<lparr>rx_offset := 0\<rparr>))"
        using i(1) ready c(1) f(6) by (simp add: network_receive_packet_def poll rx_def[symmetric] Let_def)
      show ?thesis by (rule that[OF es]) (use keep[OF c(2)] in simp_all)
    qed
  qed
qed

section \<open>Receiving without an answer\<close>

lemma udp_receive_safe:
  assumes "net_safe st" "unat n \<le> length data"
  shows "safe (udp_receive data n st)"
proof -
  let ?len = "ntohs (udp_length (dec_udp data))"
  have call: "safe (udp_call cb (drop 8 data) (?len - 8) st)" if "\<not> n < 8" "\<not> n < ?len" "\<not> ?len < 8" for cb
  proof -
    have "unat (?len - 8) = unat ?len - 8" using that(3) by (simp add: unat_sub word_less_nat_alt word_le_nat_alt)
    then have l: "unat (?len - 8) \<le> length (drop 8 data)" using that(2) assms(2) by (simp add: word_less_nat_alt)
    show ?thesis
    proof (cases cb)
      case Dns_response_handler
      with dns_handler_effect[OF l, of st] assms(1) show ?thesis by (auto simp: dns_effect_def)
    next
      case Ntp_response_handler
      have "\<not> ?len - 8 < 48 \<Longrightarrow> \<not> length (drop 8 data) < 48" using l by (auto simp: word_less_nat_alt)
      with assms(1) Ntp_response_handler show ?thesis by (auto simp: ntp_response_handler_def Let_def)
    qed
  qed
  have "\<not> n < 8 \<Longrightarrow> \<not> length data < 8" using assms(2) by (auto simp: word_less_nat_alt)
  with call assms(1) show ?thesis by (auto simp: udp_receive_def Let_def split: option.split)
qed

lemma arp_receive_safe:
  assumes "net_safe st" "unat n \<le> length data"
  shows "safe (arp_receive data n st)"
proof (cases "n < 28")
  case False
  then have l: "\<not> length data < 28" using assms(2) by (auto simp: word_less_nat_alt)
  then have mac: "length (sha (dec_arp data)) = 6" by (simp add: dec_arp_def)
  note s = net_safe_arp_add[OF assms(1) mac]
  have "length (local_mac st) = 6" using assms(1) by (simp add: net_safe_def net_ok_def)
  then have "safe (eth_send_frame (sha (dec_arp data)) 0x0806 (enc_arp (arp_message 2 (local_mac st) a (sha (dec_arp data)) b)) 28 t)"
    if "net_safe t" for t a b
    using that mac by (intro eth_send_safe) (simp_all add: length_enc_arp arp_message_def)
  with s show ?thesis using False l assms(1) by (auto simp: arp_receive_def Let_def)
qed (use assms(1) in \<open>simp add: arp_receive_def\<close>)

section \<open>Receiving and sending\<close>

locale safe_sender =
  fixes send :: sender
  assumes send_safe: "net_safe st \<Longrightarrow> unat n \<le> 1500 \<Longrightarrow> unat n \<le> length data \<Longrightarrow> safe (send dest proto data n st)"
begin

lemma icmp_receive_safe:
  assumes "net_safe st" "unat n \<le> 1500" "unat n \<le> length data"
  shows "safe (icmp_receive_with send src data n st)"
proof (cases "n < 8")
  case False
  have l: "\<not> length data < 8" "\<not> length data < unat n" "\<not> 1500 < n"
    using False assms(2,3) by (auto simp: word_less_nat_alt)
  let ?rest = "drop 8 (take (unat n) data)"
  have len: "unat n \<le> length (enc_icmp h @ ?rest)" for h using False assms(3) by (auto simp: word_less_nat_alt)
  obtain c where c: "ip_checksum (enc_icmp h @ ?rest) n = Some (c h)" for h
    using ip_checksum_defined[OF len] by metis
  show ?thesis using False l assms(1) c send_safe[OF assms(1,2) len] by (simp add: icmp_receive_with_def Let_def)
qed (use assms(1) in \<open>simp add: icmp_receive_with_def\<close>)

lemma ip_receive_safe:
  assumes "net_safe st" "unat n \<le> 1500" "unat n \<le> length data" "good_packet data"
  shows "safe (ip_receive_with send data n st)"
proof -
  let ?ihl = "(version_ihl (dec_ip data) AND 0x0F) * 4" and ?tot = "ntohs (total_length (dec_ip data))"
  let ?pl = "?tot - ucast ?ihl"
  have u: "unat (ucast ?ihl :: u16) = unat ?ihl"
    using unsigned_less[of ?ihl, where ?'a = nat] by (simp add: unsigned_ucast_eq take_bit_nat_eq_self)
  have p: "unat ?pl = unat ?tot - unat ?ihl"
    using assms(4) unat_sub[of "ucast ?ihl" ?tot] by (simp add: good_packet_def u)
  have b: "unat ?pl \<le> 1500" "unat ?pl \<le> length (drop (unat ?ihl) data)" if "\<not> n < ?tot"
    using that assms(2,3) unfolding p by (auto simp: word_less_nat_alt)
  have l: "\<not> n < 20 \<Longrightarrow> \<not> length data < 20" using assms(3) by (auto simp: word_less_nat_alt)
  show ?thesis using assms(1) l icmp_receive_safe[OF assms(1) b] udp_receive_safe[OF assms(1) b(2)]
    by (auto simp: ip_receive_with_def Let_def)
qed

lemma eth_receive_safe:
  assumes "net_safe st" "unat n \<le> 1514" "unat n \<le> length frame" "good_frame frame"
  shows "safe (eth_receive_with send frame n st)"
proof (cases "n < 14")
  case False
  then have n: "unat (n - 14) = unat n - 14" by (simp add: unat_sub word_less_nat_alt word_le_nat_alt)
  have b: "unat (n - 14) \<le> 1500" "unat (n - 14) \<le> length (drop 14 frame)" "\<not> length frame < 14"
    using False assms(2,3) unfolding n by (auto simp: word_less_nat_alt)
  show ?thesis
    using False b(3) assms(1,4) arp_receive_safe[OF assms(1) b(2)] ip_receive_safe[OF assms(1) b(1,2)]
    by (simp add: eth_receive_with_def Let_def good_frame_def)
qed (use assms(1) in \<open>simp add: eth_receive_with_def\<close>)


lemma receive_one_safe:
  assumes "net_safe st"
  shows "safe (receive_one send st)"
proof -
  obtain l buf st1 where r: "network_receive_packet (stack_rx st) 1518 st = Some (l, buf, st1)" "net_safe st1"
    "0 < l \<Longrightarrow> \<exists>n. l = int (unat n) \<and> unat (n :: u16) \<le> 1514 \<and> unat n \<le> length buf \<and> good_frame buf"
    by (rule network_receive_safe[OF assms]) (rule that)
  have "safe (eth_receive_with send buf (of_int l) st1)" if l: "0 < l"
  proof -
    obtain n :: u16 where n: "l = int (unat n)" "unat n \<le> 1514" "unat n \<le> length buf" "good_frame buf" using r(3)[OF l] by blast
    have "(of_int l :: u16) = n" by (simp add: n(1))
    with eth_receive_safe[OF r(2) n(2-4)] show ?thesis by simp
  qed
  with r(1,2) show ?thesis by (simp add: receive_one_def)
qed

lemma arp_wait_safe: "net_safe st \<Longrightarrow> safe (arp_wait send target k st)"
proof (induction k arbitrary: st)
  case (Suc k)
  show ?case unfolding arp_wait.simps
    by (rule safe_bind[OF receive_one_safe[OF Suc.prems]]) (simp add: Suc.IH)
qed simp

lemma ip_transmit_safe:
  assumes "net_safe st" "unat n \<le> 1500" "unat n \<le> length packet"
  shows "safe (ip_transmit send target packet n st)"
proof -
  have out: "safe (eth_send_frame mac 0x0800 packet n t)" if "net_safe t" "arp_resolve target t = Some mac" for t mac
    using that net_okD(5)[of t target mac] by (intro eth_send_safe[OF that(1) _ assms(2,3)]) (simp add: net_safe_def)
  show ?thesis
  proof (cases "arp_resolve target st")
    case None
    have "length (local_mac st) = 6" using assms(1) by (simp add: net_safe_def net_ok_def)
    then have "safe (arp_send_request target st)"
      unfolding arp_send_request_def by (intro eth_send_safe[OF assms(1)]) (simp_all add: length_enc_arp arp_message_def)
    then show ?thesis unfolding ip_transmit_def None option.case
      by (rule safe_bind, intro safe_bind[OF arp_wait_safe]) (auto simp: out split: option.split)
  qed (use out[OF assms(1)] in \<open>simp add: ip_transmit_def\<close>)
qed

lemma ip_send_with_safe:
  assumes "net_safe st" "unat n \<le> 1500" "unat n \<le> length data"
  shows "safe (ip_send_with send dest proto data n st)"
proof (cases "1500 < 20 + n")
  case False
  have n20: "unat (20 + n) = 20 + unat n" using assms(2) by (simp add: unat_word_ariths)
  then have n: "unat (20 + n) \<le> 1500" "\<not> 1480 < n" "\<not> length data < unat n"
    using False assms(3) by (simp_all add: word_less_nat_alt)
  let ?h = "new_ip_header st dest proto (20 + n)" and ?st1 = "st\<lparr>ip_id_counter := ip_id_counter st + 1\<rparr>"
  obtain c where c: "ip_checksum (enc_ip ?h) 20 = Some c" using ip_checksum_defined[of 20 "enc_ip ?h"] by auto
  have "safe (ip_transmit send (ip_target ?st1 dest) (enc_ip (?h\<lparr>ip_sum := htons c\<rparr>) @ take (unat n) data) (20 + n) ?st1)"
    by (rule ip_transmit_safe) (use assms n n20 in simp_all)
  then show ?thesis using False n c by (simp add: ip_send_with_def Let_def)
qed (use assms(1) in \<open>simp add: ip_send_with_def\<close>)

end

text \<open>The sender of the stack fulfils the contract, whatever the depth of the nesting.\<close>

lemma ip_send_upto_safe: "safe_sender (ip_send_upto k)"
proof (induction k)
  case 0
  have "safe_sender (\<lambda>_ _ _ _ st. Some st)" by unfold_locales simp
  from safe_sender.ip_send_with_safe[OF this] show ?case by unfold_locales simp
next
  case (Suc k)
  from safe_sender.ip_send_with_safe[OF Suc] show ?case by unfold_locales simp
qed

interpretation ip: safe_sender ip_send
  by unfold_locales (simp add: ip_send_def safe_sender.send_safe[OF ip_send_upto_safe])

section \<open>The clients\<close>

lemma wait_until_safe: "net_safe st \<Longrightarrow> safe (wait_until finished k st)"
proof (induction k arbitrary: st)
  case (Suc k)
  then show ?case using safe_bind[OF ip.receive_one_safe[OF Suc.prems], of "wait_until finished k"] by simp
qed simp

lemma udp_send_safe:
  assumes "net_safe st" "unat n \<le> 1492" "unat n \<le> length data"
  shows "safe (udp_send dest sport dport data n st)"
proof (cases "1500 < 8 + n")
  case False
  have n8: "unat (8 + n) = 8 + unat n" using assms(2) by (simp add: unat_word_ariths)
  have "safe (ip_send dest 17 (enc_udp h @ take (unat n) data) (8 + n) st)" for h
    by (rule ip.send_safe[OF assms(1)]) (use assms n8 in simp_all)
  moreover have "\<not> 1492 < n" using assms(2) by (simp add: word_less_nat_alt)
  ultimately show ?thesis using False assms(3) by (simp add: udp_send_def Let_def)
qed (use assms(1) in \<open>simp add: udp_send_def\<close>)

lemma echo_request_safe:
  assumes "net_safe st"
  shows "safe (icmp_send_echo_request dest ident seq st)"
proof -
  have le: "unat (64 :: u16) \<le> length (enc_icmp h @ echo_payload)" for h by (simp add: echo_payload_def)
  obtain c where c: "ip_checksum (enc_icmp h @ echo_payload) 64 = Some (c h)" for h
    using ip_checksum_defined[OF le] by metis
  have "net_safe (note_ping dest seq st)" using assms by (simp add: note_ping_def split: option.split)
  then show ?thesis using c ip.send_safe[OF _ _ le] by (simp add: icmp_send_echo_request_def Let_def)
qed

lemma wait_loop_safe:
  "net_safe st \<Longrightarrow> \<exists>r st1. icmp_wait_loop dest seq start timeout st = Some (r, st1) \<and> net_safe st1"
proof (induction dest seq start timeout st rule: icmp_wait_loop.induct)
  case (1 dest seq start timeout st)
  obtain st1 where st1: "receive_one ip_send st = Some st1" "net_safe st1"
    using ip.receive_one_safe[OF "1.prems"] by (auto simp: safe_def)
  show ?case using "1.IH"[OF _ st1(1)] "1.prems" st1 by (subst icmp_wait_loop.simps) auto
qed

lemma wait_reply_safe: "net_safe st \<Longrightarrow> \<exists>r st1. icmp_wait_reply dest seq timeout st = Some (r, st1) \<and> net_safe st1"
  unfolding icmp_wait_reply_def by (rule wait_loop_safe)

text \<open>A text that \<open>is_ip_address\<close> accepts has at most three digits between its three dots.\<close>

lemma is_ip_loop_bounds: "is_ip_loop s dts g \<Longrightarrow> dts \<le> 3 \<and> g \<le> 3"
  by (induction s dts g rule: is_ip_loop.induct) (fastforce split: if_splits)+

lemma digit_value:
  assumes "48 \<le> (c :: u8)" "c \<le> 57"
  shows "0 \<le> sint c - 48" "sint c - 48 \<le> 9"
proof -
  have "48 \<le> uint c" "uint c \<le> 57" using assms by (simp_all add: word_le_def)
  moreover from this have "sint c = uint c" by (simp add: sint_uint signed_take_bit_int_eq_self)
  ultimately show "0 \<le> sint c - 48" "sint c - 48 \<le> 9" by simp_all
qed

lemma parse_ip_loop_defined:
  "is_ip_loop s dts g \<Longrightarrow> 0 \<le> v \<Longrightarrow> v < 10 ^ g \<Longrightarrow> \<exists>r. parse_ip_loop s ip v (24 - 8 * int dts) = Some r"
proof (induction s dts g arbitrary: ip v rule: is_ip_loop.induct)
  case (2 c s dts g)
  show ?case
  proof (cases "c = DOT")
    case True
    have "24 - 8 * int dts - 8 = 24 - 8 * int (dts + 1)" by simp
    moreover have "dts \<le> 3" using is_ip_loop_bounds[OF "2.prems"(1)] by simp
    ultimately show ?thesis using True "2.IH"(1)[OF True, of 0] "2.prems"(1) by (auto split: if_splits)
  next
    case False
    then have d: "48 \<le> c \<and> c \<le> 57" "is_ip_loop s dts (g + 1)" using "2.prems"(1) by (auto split: if_splits)
    have g: "g + 1 \<le> 3" using is_ip_loop_bounds[OF d(2)] by simp
    have dv: "0 \<le> sint c - 48" "sint c - 48 \<le> 9" using digit_value d(1) by blast+
    have v: "0 \<le> v * 10 + (sint c - 48)" "v * 10 + (sint c - 48) < 10 ^ (g + 1)" using dv "2.prems"(2,3) by simp_all
    have "(10 :: int) ^ (g + 1) \<le> 10 ^ 3" by (rule power_increasing[OF g]) simp
    then have i: "int32 (v * 10) = Some (v * 10)" "int32 (v * 10 + (sint c - 48)) = Some (v * 10 + (sint c - 48))"
      using v dv "2.prems"(2) by (simp_all add: int32_def)
    have step: "parse_ip_loop (c # s) ip v (24 - 8 * int dts) = parse_ip_loop s ip (v * 10 + (sint c - 48)) (24 - 8 * int dts)"
      using False by (simp only: parse_ip_loop.simps if_False Let_def i Option.bind.simps)
    show ?thesis unfolding step by (rule "2.IH"(2)[OF False d v])
  qed
qed auto

lemma length_dns_labels: "length (dns_labels hn out label) = length out + length label + length hn + 2"
  by (induction hn out label rule: dns_labels.induct) auto

lemma dns_resolve_safe:
  assumes "net_safe st" "length hn \<le> 494"
  shows "\<exists>r st1. dns_resolve hn st = Some (r, st1) \<and> net_safe st1"
proof (cases "is_ip_address hn")
  case True
  then have "\<exists>ip. parse_ip hn = Some ip"
    using parse_ip_loop_defined[of hn 0 0 0 0] by (simp add: is_ip_address_def parse_ip_def)
  with True assms(1) show ?thesis by (auto simp: dns_resolve_def)
next
  case False
  obtain q where q: "dns_query (dns_transaction_id st) hn = Some q" "length q \<le> 512"
    using assms(2) by (simp add: dns_query_def Let_def length_dns_labels le16_def)
  let ?st1 = "st\<lparr>dns_transaction_id := dns_transaction_id st + 1, resolved_ip := 0, resolution_complete := False\<rparr>"
  have n: "unat (of_nat (length q) :: u16) = length q" using q(2) by (simp add: unat_nat16)
  have "safe (udp_send (dns_server st) 12345 53 q (of_nat (length q)) ?st1)"
    by (rule udp_send_safe) (use assms(1) q(2) n in simp_all)
  then have "safe (Option.bind (udp_send (dns_server st) 12345 53 q (of_nat (length q)) ?st1) (wait_until resolution_complete 5000))"
    by (rule safe_bind) (rule wait_until_safe)
  then obtain st2 st3 where "udp_send (dns_server st) 12345 53 q (of_nat (length q)) ?st1 = Some st2"
    "wait_until resolution_complete 5000 st2 = Some st3" "net_safe st3"
    by (auto simp: safe_def Option.bind_eq_Some_conv)
  with False q(1) show ?thesis by (simp add: dns_resolve_def Let_def)
qed

lemma ntp_sync_safe:
  assumes "net_safe st"
  shows "\<exists>r st1. ntp_sync_time t st = Some (r, st1) \<and> net_safe st1"
proof -
  let ?st1 = "st\<lparr>synced_timestamp := 0, sync_complete := False\<rparr>"
  have "length (ntp_request t) = 48" by (simp add: ntp_request_def le32_def)
  then have "safe (udp_send (ntp_server st) 123 123 (ntp_request t) 48 ?st1)"
    by (intro udp_send_safe) (use assms in simp_all)
  then have "safe (Option.bind (udp_send (ntp_server st) 123 123 (ntp_request t) 48 ?st1) (wait_until sync_complete 5000))"
    by (rule safe_bind) (rule wait_until_safe)
  then obtain st2 st3 where "udp_send (ntp_server st) 123 123 (ntp_request t) 48 ?st1 = Some st2"
    "wait_until sync_complete 5000 st2 = Some st3" "net_safe st3"
    by (auto simp: safe_def Option.bind_eq_Some_conv)
  then show ?thesis by (simp add: ntp_sync_time_def Let_def)
qed

section \<open>The property\<close>

text \<open>
  C8: every operation of the stack ends inside its buffers and leaves a state of which the same
  holds: receiving a frame, whatever else it contains, with all the replies, waits and further receptions
  that follow from it, and sending a packet, a ping, a DNS query and a time request. The
  assumption on the card (\<open>card_ok\<close> in \<open>net_safe\<close>): it stores the frame at the start of the ring as the RTL8139 does and
  keeps it there, whatever it stores behind; that frame has a legal length and, if it is IP, a
  total length of at least its own header; and the byte of its check sequence at the next multiple of 4,
  from which the driver goes on (\<open>rx_lags\<close>), is even. With an odd
  byte there the driver can leave the ring (\<open>check_sequence_read\<close>).
\<close>

theorem stack_safe:
  assumes "net_safe st" "unat n \<le> 1492" "unat n \<le> length data" "length hn \<le> 494"
  shows "(\<exists>st1. receive_one ip_send st = Some st1 \<and> net_safe st1) \<and>
    (\<exists>st1. ip_send dest proto data n st = Some st1 \<and> net_safe st1) \<and>
    (\<exists>st1. udp_send dest sport dport data n st = Some st1 \<and> net_safe st1) \<and>
    (\<exists>st1. icmp_send_echo_request dest ident seq st = Some st1 \<and> net_safe st1) \<and>
    (\<exists>r st1. icmp_wait_reply dest seq timeout st = Some (r, st1) \<and> net_safe st1) \<and>
    (\<exists>r st1. dns_resolve hn st = Some (r, st1) \<and> net_safe st1) \<and>
    (\<exists>r st1. ntp_sync_time t st = Some (r, st1) \<and> net_safe st1)"
  using ip.receive_one_safe[OF assms(1)] ip.send_safe[OF assms(1) _ assms(3)] udp_send_safe[OF assms(1-3)]
    echo_request_safe[OF assms(1)] wait_reply_safe[OF assms(1)] dns_resolve_safe[OF assms(1,4)] ntp_sync_safe[OF assms(1)] assms(2)
  unfolding safe_def by simp

lemma host_a_safe: "net_safe host_a"
  using hosts_ok(1) by (simp add: net_safe_def host_a_def host_def)

text \<open>
  A ring with an ARP request in a frame of 64 bytes; behind it is anything. It is polled three times: the request, its check
  sequence, and the request again.
\<close>

definition example_frame :: bytes where
  "example_frame = enc_eth \<lparr>eth_dest = replicate 6 255, eth_src = [2, 0, 0, 0, 0, 2], eth_type = htons 0x0806\<rparr>
     @ enc_arp \<lparr>htype = htons 1, ptype = htons 0x0800, hlen = 6, plen = 4, oper = htons 1, sha = [2, 0, 0, 0, 0, 2],
         spa = htonl 0x0A000202, tha = replicate 6 0, tpa = htonl 0x0A00020F\<rparr> @ replicate 18 0"

definition example_ring :: bytes where
  "example_ring = stored 1 example_frame [0x12, 0x34, 0x56, 0x78] @ replicate 9640 255"

theorem stack_safe_witness:
  "\<exists>st1. receive_one ip_send (host_a\<lparr>polls := replicate 3 \<lparr>cp_cmd = 0, cp_ring = example_ring\<rparr>\<rparr>) = Some st1 \<and> net_safe st1"
proof -
  let ?p = "\<lparr>cp_cmd = 0, cp_ring = example_ring\<rparr>"
  let ?st = "host_a\<lparr>polls := replicate 3 ?p\<rparr>"
  have f: "length example_frame = 60" by (simp add: example_frame_def length_enc_eth length_enc_arp)
  then have l: "length example_ring = 9708" by (simp add: example_ring_def stored_def)
  have g: "good_frame example_frame"
    by (simp add: good_frame_def example_frame_def dec_enc_eth ntohs_def)
  have "first_frame example_ring \<and> get16 example_ring 2 = of_nat (length example_frame + 4)"
    using stored_first_frame[OF example_ring_def l _ _ _ _ g] f by simp
  then have "card_ok 0 (replicate 3 ?p)" by (intro card_goes_on[where n = 64]) (simp_all add: f)
  moreover have "net_ok ?st" using hosts_ok(1) by (simp add: net_ok_def arp_ok_def)
  ultimately have "net_safe ?st" by (simp add: net_safe_def host_a_def host_def)
  with stack_safe[OF this, of 0 "[]" "[]"] show ?thesis by simp
qed

end
