(* ===== verification/Session.thy ===== *)
theory Session
  imports ShellParse FsBoot NetSafe
begin

text \<open>
  A session of the shell: an invariant of the machine that the commands keep, and that no command
  leaves the memory of its objects as long as the paths it is given fit. \<open>within P\<close> says of a call
  that it is defined and that the machine satisfies \<open>P\<close> wherever it ends.
\<close>

fun within :: "(machine \<Rightarrow> bool) \<Rightarrow> 'a outcome \<Rightarrow> bool" where
  "within P (Returns x m) = P m"
| "within P (Waits m) = P m"
| "within P (Interrupts n rs m) = P m"
| "within P Undefined = False"

lemma within_and_then:
  "within P r \<Longrightarrow> (\<And>x m. r = Returns x m \<Longrightarrow> within P (f x m)) \<Longrightarrow> within P (and_then r f)"
  by (cases r) auto

lemma within_returns: "within P (returns r) \<longleftrightarrow> (\<exists>m. r = Some m \<and> P m)"
  by (cases r) auto

section \<open>Invariants that typing and drawing keep\<close>

lemma drawnE:
  assumes "drawn m n" "screen_ok (scr m)"
  obtains sc where "n = m\<lparr>scr := sc\<rparr>" "draws (scr m) sc"
  using assms by (auto simp: drawn_def)

text \<open>
  What the prompts and the output of the commands ask of an invariant of the machine: the cursor is on the
  screen, and neither keys taken nor cells drawn break it.
\<close>

locale drawing_invariant =
  fixes ok :: "machine \<Rightarrow> bool"
  assumes on_screen: "ok m \<Longrightarrow> screen_ok (scr m)"
    and typed_keeps: "ok m \<Longrightarrow> draws (scr m) sc \<Longrightarrow> ok (m\<lparr>kbd := kb, scr := sc\<rparr>)"
begin

lemma drawn_keeps:
  assumes "ok m" "drawn m n"
  shows "ok n"
proof -
  obtain sc where "n = m\<lparr>scr := sc\<rparr>" "draws (scr m) sc" by (rule drawnE[OF assms(2) on_screen[OF assms(1)]])
  with typed_keeps[OF assms(1), of sc "kbd m"] show ?thesis by simp
qed

lemma prints_keep:
  "ok m \<Longrightarrow> ok (emit s m)" "ok m \<Longrightarrow> ok (print t m)" "ok m \<Longrightarrow> ok (println t m)" "ok m \<Longrightarrow> ok (color f b m)"
  "ok m \<Longrightarrow> ok (row r m)" "ok m \<Longrightarrow> ok (quoted a s c m)"
  by (auto intro!: drawn_keeps[of m] simp: quoted_def)

lemma loops_keep:
  "ok m \<Longrightarrow> ok (print_words ws m)" "ok m \<Longrightarrow> ok (ls_lines s m)" "ok m \<Longrightarrow> ok (fold println ls m)"
proof -
  show "ok m \<Longrightarrow> ok (print_words ws m)" by (induction ws m rule: print_words.induct) (simp_all add: prints_keep)
  show "ok m \<Longrightarrow> ok (ls_lines s m)"
    by (induction s m rule: ls_lines.induct) (subst ls_lines.simps, auto simp: Let_def prints_keep split: list.split)
  show "ok m \<Longrightarrow> ok (fold println ls m)" by (induction ls arbitrary: m) (simp_all add: prints_keep)
qed

end

section \<open>Prompts\<close>

text \<open>The lines that will be typed, as the editing of \<open>keyboard_getline\<close> with \<open>max_length\<close> \<open>n\<close> leaves them.\<close>

function entered :: "nat \<Rightarrow> bytes \<Rightarrow> bytes list" where
  "entered n cs = (if 10 \<in> set cs then edited (int n) cs # entered n (tl (dropWhile (\<lambda>c. c \<noteq> 10) cs)) else [])"
  by pat_completeness auto
termination
proof (relation "measure (length \<circ> snd)", simp)
  fix n :: nat and cs :: bytes
  assume "10 \<in> set cs"
  then have "cs \<noteq> []" by auto
  then show "((n, tl (dropWhile (\<lambda>c. c \<noteq> 10) cs)), n, cs) \<in> measure (length \<circ> snd)"
    using length_dropWhile_le[of "\<lambda>c. c \<noteq> 10" cs] by (cases cs) auto
qed

declare entered.simps [simp del]

lemma reads_entered:
  assumes "reads n m r"
  obtains (none) kb sc where "entered n (chars (kbd m)) = []" "r = Waits (m\<lparr>kbd := kb, scr := sc\<rparr>)" "draws (scr m) sc"
    | (line) l ls kb sc where "entered n (chars (kbd m)) = l # ls" "r = Returns l (m\<lparr>kbd := kb, scr := sc\<rparr>)"
        "draws (scr m) sc" "entered n (chars kb) = ls" "length l < n" "c_string l"
proof (cases "10 \<in> set (chars (kbd m))")
  case True
  then have "entered n (chars (kbd m)) =
      edited (int n) (chars (kbd m)) # entered n (tl (dropWhile (\<lambda>c. c \<noteq> 10) (chars (kbd m))))"
    by (subst entered.simps) simp
  with True assms line show ?thesis by (auto simp: reads_def)
next
  case False
  then have "entered n (chars (kbd m)) = []" by (simp add: entered.simps)
  with False assms none show ?thesis by (auto simp: reads_def)
qed

text \<open>
  The contract of the functions that read a line: with a cursor on the screen and a buffer of \<open>mx\<close> bytes
  they return the next line of what is typed, or wait when there is none.
\<close>

locale line_prompt =
  fixes get :: "machine \<Rightarrow> bytes outcome" and mx :: nat
  assumes get_reads: "screen_ok (scr m) \<Longrightarrow> mx \<le> length (garbage m) \<Longrightarrow> reads mx m (get m)"
begin

text \<open>A prompt: something is drawn, then a line is read.\<close>

lemma prompt_entered:
  assumes "screen_ok (scr m)" "mx \<le> length (garbage m)" "drawn m n"
  obtains (none) kb sc where "entered mx (chars (kbd m)) = []" "get n = Waits (m\<lparr>kbd := kb, scr := sc\<rparr>)" "draws (scr m) sc"
    | (line) l ls kb sc where "entered mx (chars (kbd m)) = l # ls" "get n = Returns l (m\<lparr>kbd := kb, scr := sc\<rparr>)"
        "draws (scr m) sc" "entered mx (chars kb) = ls" "length l < mx" "c_string l"
proof -
  obtain s where s: "n = m\<lparr>scr := s\<rparr>" "draws (scr m) s" by (rule drawnE[OF assms(3,1)])
  have "reads mx n (get n)" using get_reads[of n] s draws_ok[OF s(2)] assms(2) by simp
  then show ?thesis
  proof (cases rule: reads_entered)
    case (none kb sc)
    with that(1)[where kb = kb and sc = sc] s draws_trans[OF s(2)] show ?thesis by simp
  next
    case (line l ls kb sc)
    then have "draws (scr m) sc" using s draws_trans[OF s(2)] by simp
    with that(2)[where l = l and ls = ls and kb = kb and sc = sc] line s(1) show ?thesis by simp
  qed
qed

lemma entered_fits:
  fixes m :: machine
  assumes "screen_ok (scr m)" "mx \<le> length (garbage m)" "entered mx (chars (kbd m)) = l # ls"
  shows "length l < mx" "c_string l"
proof -
  from assms(1,2) drawn_refl[of m] have "length l < mx \<and> c_string l"
    by (cases rule: prompt_entered) (use assms(3) in auto)
  then show "length l < mx" "c_string l" by simp_all
qed

end

text \<open>A caller of a prompt whose invariant gives the prompt what it needs keeps its invariant.\<close>

locale prompting = drawing_invariant ok + line_prompt get mx
  for ok :: "machine \<Rightarrow> bool" and get :: "machine \<Rightarrow> bytes outcome" and mx :: nat +
  assumes buffer_fits: "ok m \<Longrightarrow> mx \<le> length (garbage m)"
begin

lemma prompt_cases:
  assumes "ok m" "drawn m n"
  obtains (none) kb sc where "entered mx (chars (kbd m)) = []" "get n = Waits (m\<lparr>kbd := kb, scr := sc\<rparr>)"
        "draws (scr m) sc" "ok (m\<lparr>kbd := kb, scr := sc\<rparr>)"
    | (line) l ls kb sc where "entered mx (chars (kbd m)) = l # ls" "get n = Returns l (m\<lparr>kbd := kb, scr := sc\<rparr>)"
        "draws (scr m) sc" "entered mx (chars kb) = ls" "length l < mx" "c_string l" "ok (m\<lparr>kbd := kb, scr := sc\<rparr>)"
  using on_screen[OF assms(1)] buffer_fits[OF assms(1)] assms(2)
proof (cases rule: prompt_entered)
  case (none kb sc)
  then show ?thesis by (intro that(1)) (auto intro: typed_keeps[OF assms(1)])
next
  case (line l ls kb sc)
  then show ?thesis by (intro that(2)) (auto intro: typed_keeps[OF assms(1)])
qed

end

interpretation line64: line_prompt "read_line 64" 64
  by unfold_locales (simp add: prompts_read)

interpretation pass64: line_prompt "read_password 64" 64
  by unfold_locales (simp add: prompts_read)

section \<open>The strings of the superblock stay\<close>

lemma delete_file_sb_id: "fs_delete_file p s = Some (r, t) \<Longrightarrow> sb_id (superblock t) = sb_id (superblock s)"
  by (auto simp: fs_delete_file_def Let_def Option.bind_eq_Some_conv split: if_splits)

lemma write_blocks_sb_id:
  "write_blocks ino data i k rem s = Some (w, t) \<Longrightarrow> sb_id (superblock t) = sb_id (superblock s)"
proof (induction k arbitrary: i rem s)
  case (Suc k)
  obtain b s1 where "allocate_block s = (b, s1)" by fastforce
  with sb_id_allocate_block[of s] Suc show ?case by (auto simp: Let_def split: if_splits)
qed simp

lemma new_file_sb_id: "new_file P c data nb s = Some (r, t) \<Longrightarrow> sb_id (superblock t) = sb_id (superblock s)"
proof -
  assume e: "new_file P c data nb s = Some (r, t)"
  obtain n s1 where n: "allocate_inode s = (n, s1)" by fastforce
  with sb_id_allocate_inode[of s] e show ?thesis
    by (auto simp: new_file_def Let_def Option.bind_eq_Some_conv split: if_splits dest!: write_blocks_sb_id)
qed

lemma create_file_in_sb_id: "create_file_in P p c data nb s = Some (r, t) \<Longrightarrow> sb_id (superblock t) = sb_id (superblock s)"
  by (auto simp: create_file_in_def Option.bind_eq_Some_conv split: if_splits dest!: new_file_sb_id delete_file_sb_id)

lemma create_file_sb_id: "fs_create_file p data nb s = Some (r, t) \<Longrightarrow> sb_id (superblock t) = sb_id (superblock s)"
  by (auto simp: fs_create_file_def Option.bind_eq_Some_conv split: if_splits dest!: create_file_in_sb_id fs_create_dir_sb_id)

section \<open>The invariant\<close>

definition fsys_ok :: "fs \<Rightarrow> bool" where
  "fsys_ok s \<longleftrightarrow> fs_ok s \<and> sizes_ok s \<and> 0 \<in> set (hostname (superblock s)) \<and> 0 \<in> set (username (superblock s))"

definition machine_ok :: "machine \<Rightarrow> bool" where
  "machine_ok m \<longleftrightarrow> screen_ok (scr m) \<and> fsys_ok (fsys m) \<and> good_path (current_dir m) \<and> good_user (user m) \<and>
    16384 \<le> length (garbage m) \<and> (network_is_ready m \<longrightarrow> net_safe (nets m))"

lemma fsys_ok_keeps:
  "fsys_ok s \<Longrightarrow> fs_ok t \<Longrightarrow> keeps_0 s t \<Longrightarrow> sb_id (superblock t) = sb_id (superblock s) \<Longrightarrow> fsys_ok t"
  using sb_idD[of "superblock t" "superblock s"] by (auto simp: fsys_ok_def keeps_0_def)

interpretation shell_prompt: prompting machine_ok "read_line 256" 256
  by unfold_locales (auto simp: machine_ok_def draws_ok prompts_read network_is_ready_def)

lemmas machine_ok_drawn = shell_prompt.drawn_keeps
lemmas machine_ok_prints [simp] = shell_prompt.prints_keep
lemmas machine_ok_loops [simp] = shell_prompt.loops_keep

lemma machine_ok_fsys: "machine_ok m \<Longrightarrow> fsys_ok s \<Longrightarrow> machine_ok (m\<lparr>fsys := s\<rparr>)"
  by (simp add: machine_ok_def network_is_ready_def)

lemma machine_ok_nets: "machine_ok m \<Longrightarrow> net_safe st \<Longrightarrow> machine_ok (m\<lparr>nets := st\<rparr>)"
  by (simp add: machine_ok_def)

lemma machine_ok_out [simp]: "machine_ok m \<Longrightarrow> machine_ok (out_port w m)"
  by (simp add: machine_ok_def network_is_ready_def out_port_def)

section \<open>The calls of the file system\<close>

lemma fits_Some: "fits n x = Some y \<longleftrightarrow> length x < n \<and> y = x"
  by (auto simp: fits_def)

text \<open>An argument whose full path fits.\<close>

definition good_arg :: "bytes \<Rightarrow> bytes \<Rightarrow> bool" where
  "good_arg dir a \<longleftrightarrow> (case full_path dir a of None \<Rightarrow> False | Some p \<Rightarrow> good_path p)"

lemma good_argE:
  assumes "good_arg dir a"
  obtains p where "full_path dir a = Some p" "good_path p"
  using assms by (auto simp: good_arg_def split: option.splits)

lemma mkdir_keeps:
  assumes "fsys_ok s" "good_path p"
  obtains r t where "fs_create_dir p s = Some (r, t)" "fsys_ok t"
proof -
  have "fs_ok s" using assms(1) by (simp add: fsys_ok_def)
  then obtain r t where t: "fs_create_dir p s = Some (r, t)" "fs_ok t" "keeps_0 s t" using fs_create_dir_total[OF _ assms(2)] by blast
  from that[OF t(1) fsys_ok_keeps[OF assms(1) t(2,3) fs_create_dir_sb_id[OF t(1)]]] show ?thesis .
qed

lemma store_keeps:
  assumes "fsys_ok s" "good_path p" "good_data data nb"
  obtains r t where "fs_create_file p data nb s = Some (r, t)" "fsys_ok t"
proof -
  have "fs_ok s" using assms(1) by (simp add: fsys_ok_def)
  then obtain r t where t: "fs_create_file p data nb s = Some (r, t)" "fs_ok t" "keeps_0 s t" using fs_create_file_total[OF _ assms(2,3)] by blast
  from that[OF t(1) fsys_ok_keeps[OF assms(1) t(2,3) create_file_sb_id[OF t(1)]]] show ?thesis .
qed

lemma remove_keeps:
  assumes "fsys_ok s" "good_path p"
  obtains r t where "fs_delete_file p s = Some (r, t)" "fsys_ok t"
proof -
  have "fs_ok s" using assms(1) by (simp add: fsys_ok_def)
  then obtain r t where t: "fs_delete_file p s = Some (r, t)" "fs_ok t" "keeps_0 s t" using fs_delete_file_total[OF _ assms(2)] by blast
  from that[OF t(1) fsys_ok_keeps[OF assms(1) t(2,3) delete_file_sb_id[OF t(1)]]] show ?thesis .
qed

lemma fetch_keeps:
  assumes "fsys_ok s" "good_path p" "16384 \<le> length buf"
  obtains r b t where "fs_read_file p buf 16384 s = Some (r, b, t)" "fsys_ok t" "length b = length buf" "r \<le> 16384"
proof -
  have ok: "fs_ok s" "sizes_ok s" using assms(1) by (simp_all add: fsys_ok_def)
  obtain r b w where r: "fs_read_file p buf 16384 s = Some (r, b, s\<lparr>sector_buffer := w\<rparr>)" "length w = 512" "length b = length buf"
    "r = -1 \<or> is_file s (resolves s (components p)) \<and> r = sint (isize (inode_of s (resolves s (components p))))"
    by (rule fs_read_file_total[OF ok(1) assms(2), of 16384 buf]) (use assms(3) in simp, rule that)
  have same: "fs_same s (s\<lparr>sector_buffer := w\<rparr>)" by (rule fs_same_sector_buffer[OF fs_okD(1)[OF ok(1)] r(2)])
  have "fsys_ok (s\<lparr>sector_buffer := w\<rparr>)"
    by (rule fsys_ok_keeps[OF assms(1) fs_same_ok[OF ok(1) same] keeps_0_same[OF same]]) simp
  moreover have "sint x \<le> 16384" if "unat x \<le> 16384" for x :: u32
    unfolding sint_small[OF that] uint_nat using that by linarith
  ultimately show ?thesis using that[OF r(1) _ r(3)] r(4) ok(2) by (auto simp: sizes_ok_def)
qed

lemma change_dir_keeps:
  assumes "good_path d" "a \<noteq> lit ''..'' \<Longrightarrow> good_arg d a"
  obtains r e where "fs_change_dir s a 256 d = Some (r, e)" "r = 0 \<Longrightarrow> good_path e"
proof (cases "a = lit ''..''")
  case True
  show ?thesis
  proof (cases "SLASH \<in> set d")
    case False
    then have "fs_change_dir s a 256 d = Some (0, [SLASH])"
      using True by (auto simp: fs_change_dir_def Let_def last_slash_none fits_def)
    then show ?thesis by (rule that) simp
  next
    case slash: True
    then obtain p c where p: "d = p @ SLASH # c" "SLASH \<notin> set c" by (meson split_list_last)
    have "good_path p" using assms(1) by (auto simp: good_path_def p(1) components_append_slash)
    moreover have "fs_change_dir s a 256 d = Some (0, if d = [SLASH] \<or> p = [] then [SLASH] else p)"
      using True p(2) by (auto simp: fs_change_dir_def p(1) last_slash_append fits_def)
    ultimately show ?thesis using that by auto
  qed
next
  case False
  then obtain p where p: "full_path d a = Some p" "good_path p" using assms(2) by (auto elim: good_argE)
  then have "length p < 256" "p = (if a \<noteq> [] \<and> hd a = SLASH then a else if d = lit ''/'' then lit ''/'' @ a else d @ lit ''/'' @ a)"
    using p(1) unfolding full_path_def fits_Some by blast+
  moreover obtain ex where "fs_dir_exists s p = Some ex"
    using good_path_find[OF p(2), of s] by (simp add: fs_dir_exists_def)
  ultimately have "fs_change_dir s a 256 d = Some (if ex then (0, p) else (-1, d))"
    using False by (simp add: fs_change_dir_def fits_def)
  with that p(2) show ?thesis by (cases ex) simp_all
qed

section \<open>The commands\<close>

text \<open>The arguments that a command takes for a path.\<close>

definition path_args :: "bytes list \<Rightarrow> bytes list" where
  "path_args argv =
     (if argv ! 0 \<in> {lit ''cat'', lit ''mkdir'', lit ''rm'', lit ''touch''} then take 1 (tl argv)
      else if argv ! 0 = lit ''cd'' then filter (\<lambda>a. a \<noteq> lit ''..'') (take 1 (tl argv))
      else if argv ! 0 = lit ''echo'' \<and> 4 \<le> length argv \<and> argv ! (length argv - 2) = lit ''>''
      then [argv ! (length argv - 1)]
      else [])"

lemma first_arg: "\<not> length argv < 2 \<Longrightarrow> take 1 (tl argv) = [argv ! 1]"
  by (cases argv; cases "tl argv") auto

lemma length_echo_words: "length out \<le> 16384 \<Longrightarrow> length (echo_words out ws) \<le> 16384"
  by (induction out ws rule: echo_words.induct) auto

lemma cmd_cat_ok:
  assumes ok: "machine_ok m" and arg: "\<not> length argv < 2 \<Longrightarrow> good_arg (current_dir m) (argv ! 1)"
  shows "within machine_ok (cmd_cat argv m)"
proof (cases "length argv < 2")
  case False
  have g: "fsys_ok (fsys m)" "16384 \<le> length (garbage m)" using ok by (simp_all add: machine_ok_def)
  obtain p where p: "full_path (current_dir m) (argv ! 1) = Some p" "good_path p" by (rule good_argE[OF arg[OF False]])
  obtain r b s where r: "fs_read_file p (take 16384 (garbage m)) 16384 (fsys m) = Some (r, b, s)" "fsys_ok s"
    "length b = length (take 16384 (garbage m))" "r \<le> 16384"
    by (rule fetch_keeps[OF g(1) p(2), of "take 16384 (garbage m)"]) (use g(2) in simp, rule that)
  then show ?thesis
    using False p(1) g(2) machine_ok_fsys[OF ok r(2)] by (auto simp: cmd_cat_def Let_def within_returns)
qed (use ok in \<open>simp add: cmd_cat_def\<close>)

lemma cmd_mkdir_ok:
  assumes ok: "machine_ok m" and arg: "\<not> length argv < 2 \<Longrightarrow> good_arg (current_dir m) (argv ! 1)"
  shows "within machine_ok (cmd_mkdir argv m)"
proof (cases "length argv < 2")
  case False
  have g: "fsys_ok (fsys m)" using ok by (simp add: machine_ok_def)
  obtain p where p: "full_path (current_dir m) (argv ! 1) = Some p" "good_path p" by (rule good_argE[OF arg[OF False]])
  obtain r s where "fs_create_dir p (fsys m) = Some (r, s)" "fsys_ok s" by (rule mkdir_keeps[OF g p(2)])
  then show ?thesis using False p(1) machine_ok_fsys[OF ok] by (simp add: cmd_mkdir_def Let_def within_returns)
qed (use ok in \<open>simp add: cmd_mkdir_def\<close>)

lemma cmd_rm_ok:
  assumes ok: "machine_ok m" and arg: "\<not> length argv < 2 \<Longrightarrow> good_arg (current_dir m) (argv ! 1)"
  shows "within machine_ok (cmd_rm argv m)"
proof (cases "length argv < 2")
  case False
  have g: "fsys_ok (fsys m)" using ok by (simp add: machine_ok_def)
  obtain p where p: "full_path (current_dir m) (argv ! 1) = Some p" "good_path p" by (rule good_argE[OF arg[OF False]])
  obtain r s where "fs_delete_file p (fsys m) = Some (r, s)" "fsys_ok s" by (rule remove_keeps[OF g p(2)])
  then show ?thesis using False p(1) machine_ok_fsys[OF ok] by (simp add: cmd_rm_def Let_def within_returns)
qed (use ok in \<open>simp add: cmd_rm_def\<close>)

lemma cmd_touch_ok:
  assumes ok: "machine_ok m" and arg: "\<not> length argv < 2 \<Longrightarrow> good_arg (current_dir m) (argv ! 1)"
  shows "within machine_ok (cmd_touch argv m)"
proof (cases "length argv < 2")
  case False
  have g: "fsys_ok (fsys m)" using ok by (simp add: machine_ok_def)
  obtain p where p: "full_path (current_dir m) (argv ! 1) = Some p" "good_path p" by (rule good_argE[OF arg[OF False]])
  have d: "good_data (zstr []) 0" by (simp add: good_data_def)
  obtain r s where "fs_create_file p (zstr []) 0 (fsys m) = Some (r, s)" "fsys_ok s" by (rule store_keeps[OF g p(2) d])
  then show ?thesis using False p(1) machine_ok_fsys[OF ok] by (simp add: cmd_touch_def Let_def within_returns)
qed (use ok in \<open>simp add: cmd_touch_def\<close>)

lemma unat_length: "length (b :: bytes) \<le> 16384 \<Longrightarrow> unat (of_nat (length b) :: u32) = length b"
  unfolding unat_of_nat by simp

lemma cmd_echo_ok:
  assumes ok: "machine_ok m"
    and arg: "4 \<le> length argv \<Longrightarrow> argv ! (length argv - 2) = lit ''>'' \<Longrightarrow> good_arg (current_dir m) (argv ! (length argv - 1))"
  shows "within machine_ok (cmd_echo argv m)"
proof (cases "4 \<le> length argv \<and> argv ! (length argv - 2) = lit ''>''")
  case True
  let ?c = "echo_words [] (take (length argv - 3) (tl argv))"
  have g: "fsys_ok (fsys m)" using ok by (simp add: machine_ok_def)
  obtain p where p: "full_path (current_dir m) (argv ! (length argv - 1)) = Some p" "good_path p"
    using arg True by (auto elim: good_argE)
  have "good_data (zstr ?c) (of_nat (length ?c))"
    using length_echo_words[of "[]"] by (simp add: good_data_def unat_length zstr_def)
  from store_keeps[OF g p(2) this] obtain r s where
    "fs_create_file p (zstr ?c) (of_nat (length ?c)) (fsys m) = Some (r, s)" "fsys_ok s" .
  then show ?thesis using True p(1) machine_ok_fsys[OF ok] by (simp add: cmd_echo_def Let_def within_returns)
qed (use ok in \<open>auto simp: cmd_echo_def Let_def\<close>)

lemma cmd_cd_ok:
  assumes ok: "machine_ok m"
    and arg: "\<not> length argv < 2 \<Longrightarrow> argv ! 1 \<noteq> lit ''..'' \<Longrightarrow> good_arg (current_dir m) (argv ! 1)"
  shows "within machine_ok (cmd_cd argv m)"
proof -
  have d: "good_path (current_dir m)" "good_user (user m)" using ok by (simp_all add: machine_ok_def)
  show ?thesis
  proof (cases "length argv < 2")
    case True
    let ?h = "lit ''/home/'' @ user m"
    have h: "good_path ?h" "length ?h < 64" using good_home_paths(1)[OF d(2)] d(2) by (simp_all add: good_user_def)
    obtain ex where "fs_dir_exists (fsys m) ?h = Some ex" using good_path_find[OF h(1)] by (simp add: fs_dir_exists_def)
    then have "fs_change_dir (fsys m) ?h 64 ?h = Some (if ex then 0 else -1, ?h)"
      using h(2) by (auto simp: fs_change_dir_def fits_def)
    then show ?thesis using True h ok by (auto simp: cmd_cd_def within_returns fits_def machine_ok_def network_is_ready_def)
  next
    case False
    obtain r e where "fs_change_dir (fsys m) (argv ! 1) 256 (current_dir m) = Some (r, e)" "r = 0 \<Longrightarrow> good_path e"
      by (rule change_dir_keeps[OF d(1) arg[OF False], where s = "fsys m"]) (assumption, rule that)
    moreover have "r = 0 \<Longrightarrow> machine_ok (m\<lparr>current_dir := e\<rparr>)" using calculation ok by (simp add: machine_ok_def network_is_ready_def)
    ultimately show ?thesis using False ok by (simp add: cmd_cd_def within_returns)
  qed
qed

lemma cmd_ls_ok:
  assumes "machine_ok m"
  shows "within machine_ok (cmd_ls argv m)"
proof -
  have g: "16384 \<le> length (garbage m)" using assms by (simp add: machine_ok_def)
  obtain r b where "fs_list_dir (fsys m) (current_dir m) (take 2048 (garbage m)) 2048 = Some (r, b)"
    by (rule fs_list_dir_total[of "fsys m" "current_dir m" "take 2048 (garbage m)" 2048])
      (use assms g in \<open>auto simp: machine_ok_def fsys_ok_def\<close>)
  with assms show ?thesis by (auto simp: cmd_ls_def within_returns intro!: machine_ok_prints machine_ok_loops)
qed

text \<open>\<open>date\<close> fits its buffer whatever the clock holds.\<close>

lemma length_digits: "n < 10 ^ k \<Longrightarrow> length (digits n) \<le> k"
proof (induction k arbitrary: n)
  case (Suc k)
  then have "n div 10 < 10 ^ k" by (simp add: less_mult_imp_div_less mult.commute)
  with Suc.IH show ?case by (subst digits.simps) simp
qed (simp add: digits.simps)

lemma length_int_to_str:
  assumes "n < 10 ^ k" "0 < k"
  shows "length (int_to_str n w) \<le> max w k"
  using length_digits[OF assms(1)] assms(2) by (auto simp: int_to_str_def Let_def)

lemma length_u8_string: "length (int_to_str (unat (v :: u8)) 2) \<le> 3"
proof -
  have "unat v < 10 ^ 3" using unsigned_less[of v, where ?'a = nat] by simp
  from length_int_to_str[OF this, of 2] show ?thesis by simp
qed

lemma length_padded: "length (padded v) \<le> 3"
  using length_u8_string[of v] by (simp add: padded_def Let_def)

lemma length_names:
  "length (if 1 \<le> (w :: u8) \<and> w \<le> 7 then weekday_names ! (unat w - 1) else weekday_names ! 0) = 3"
  "length (if 1 \<le> w \<and> w \<le> 12 then month_names ! (unat w - 1) else month_names ! 0) = 3"
proof -
  have "n < 7 \<Longrightarrow> length (weekday_names ! n) = 3" "n < 12 \<Longrightarrow> length (month_names ! n) = 3" for n
    by (auto simp: weekday_names_def month_names_def less_Suc_eq numeral_eq_Suc)
  moreover have "w \<le> 7 \<Longrightarrow> unat w \<le> 7" "w \<le> 12 \<Longrightarrow> unat w \<le> 12" by (simp_all add: word_le_nat_alt)
  ultimately show "length (if 1 \<le> w \<and> w \<le> 7 then weekday_names ! (unat w - 1) else weekday_names ! 0) = 3"
    "length (if 1 \<le> w \<and> w \<le> 12 then month_names ! (unat w - 1) else month_names ! 0) = 3" by auto
qed

lemma length_lit [simp]: "length (lit s) = length s"
  by (induction s) simp_all

lemma length_date_string: "length (date_string t) < 128"
proof -
  have "unat (year t) < 10 ^ 5" using unsigned_less[of "year t", where ?'a = nat] by simp
  from length_int_to_str[OF this, of 4] have y: "length (int_to_str (unat (year t)) 4) \<le> 5" by simp
  then show ?thesis
    using length_padded[of "hour t"] length_padded[of "minute t"] length_padded[of "second t"]
      length_u8_string[of "day t"]
    unfolding date_string_def length_append length_lit length_names by simp
qed

lemma cmd_date_ok: "machine_ok m \<Longrightarrow> within machine_ok (cmd_date argv m)"
proof -
  assume "machine_ok m"
  then have "machine_ok (m\<lparr>rtc := ck\<rparr>)" for ck by (simp add: machine_ok_def network_is_ready_def)
  moreover have "fits 128 (date_string t) = Some (date_string t)" for t by (simp add: fits_def length_date_string)
  ultimately show ?thesis using \<open>machine_ok m\<close> by (auto simp: cmd_date_def within_returns split: option.split)
qed

lemma info_ok:
  assumes "machine_ok m"
  shows "within machine_ok (cmd_clear argv m)" "within machine_ok (cmd_pwd argv m)" "within machine_ok (cmd_whoami argv m)"
    "within machine_ok (cmd_uname argv m)" "within machine_ok (cmd_help argv m)"
    "within machine_ok (cmd_shutdown argv m)" "within machine_ok (cmd_reboot argv m)"
  using assms draws_ok[OF screen_clear_draws]
  by (simp_all add: cmd_clear_def cmd_pwd_def cmd_whoami_def cmd_uname_def cmd_help_def cmd_shutdown_def cmd_reboot_def Let_def)
    (simp add: machine_ok_def network_is_ready_def)

section \<open>Command lines\<close>

text \<open>The paths on the line fit.\<close>

definition harmless :: "machine \<Rightarrow> bytes \<Rightarrow> bool" where
  "harmless m l \<longleftrightarrow> (\<forall>a \<in> set (path_args (parse_command l)). good_arg (current_dir m) a)"

lemma ping_loop_ok:
  "machine_ok m \<Longrightarrow> net_safe (nets m) \<Longrightarrow> \<exists>r m1. ping_loop target i k received m = Some (r, m1) \<and> machine_ok m1"
proof (induction target i k received m rule: ping_loop.induct)
  case (2 target i k received m)
  let ?seq = "of_nat (i + 1) :: u16"
  obtain st1 where st1: "icmp_send_echo_request target 1234 ?seq (nets m) = Some st1" "net_safe st1"
    using echo_request_safe[OF "2.prems"(2)] unfolding safe_def by blast
  obtain r st2 where st2: "icmp_wait_reply target ?seq 1000 st1 = Some (r, st2)" "net_safe st2"
    using wait_reply_safe[OF st1(2)] by blast
  have ok: "machine_ok (m\<lparr>nets := st2\<rparr>)" by (rule machine_ok_nets[OF "2.prems"(1) st2(2)])
  show ?case
  proof (cases "r = 0")
    case True
    then show ?thesis using "2.IH"(2)[OF refl st1(1) st2(1) refl refl] ok st2 st1(1) by simp
  next
    case False
    then show ?thesis using "2.IH"(1)[OF refl st1(1) st2(1) refl refl] ok st2 st1(1) by (simp add: print_ip_def)
  qed
qed simp

lemma cmd_ping_ok:
  assumes ok: "machine_ok m" and arg: "\<not> length argv < 2 \<Longrightarrow> length (argv ! 1) \<le> 494"
  shows "within machine_ok (cmd_ping argv m)"
proof (cases "length argv < 2 \<or> \<not> network_is_ready m \<or> ni_ip (network_get_info (nets m)) = 0")
  case False
  let ?m1 = "println '''' (emit (argv ! 1) (print ''PING '' m))"
  have ns: "net_safe (nets ?m1)" using ok False by (simp add: machine_ok_def)
  obtain found st where d: "dns_resolve (argv ! 1) (nets ?m1) = Some (found, st)" "net_safe st"
    using dns_resolve_safe[OF ns arg] False by blast
  have ok2: "machine_ok (?m1\<lparr>nets := st\<rparr>)" by (rule machine_ok_nets[OF _ d(2)]) (use ok in simp)
  show ?thesis
  proof (cases found)
    case None
    with False d ok2 show ?thesis by (simp add: cmd_ping_def Let_def within_returns)
  next
    case (Some target)
    let ?m3 = "println '''' (println '' with 64 bytes of data:'' (print_ip target (print ''Pinging '' (?m1\<lparr>nets := st\<rparr>))))"
    have "machine_ok ?m3" "net_safe (nets ?m3)" using ok2 d(2) by (simp_all add: print_ip_def)
    then obtain r m4 where "ping_loop target 0 4 0 ?m3 = Some (r, m4)" "machine_ok m4" using ping_loop_ok by blast
    with False d Some show ?thesis
      by (simp add: cmd_ping_def Let_def within_returns ping_statistics_def print_ip_def)
  qed
qed (use ok in \<open>auto simp: cmd_ping_def\<close>)

lemma command_ok:
  assumes ok: "machine_ok m" and c: "c \<in> set commands" "fst c = argv ! 0"
    and args: "\<forall>a \<in> set (path_args argv). good_arg (current_dir m) a"
    and words: "\<forall>a \<in> set argv. length a < 64"
  shows "within machine_ok (snd c argv m)"
proof -
  have one: "\<not> length argv < 2 \<Longrightarrow> good_arg (current_dir m) (argv ! 1)"
    if "argv ! 0 \<in> {lit ''cat'', lit ''mkdir'', lit ''rm'', lit ''touch''}"
    using args that unfolding path_args_def by (simp add: first_arg[unfolded One_nat_def] del: take_Suc)
  have cd: "\<not> length argv < 2 \<Longrightarrow> argv ! 1 \<noteq> lit ''..'' \<Longrightarrow> good_arg (current_dir m) (argv ! 1)"
    if "argv ! 0 = lit ''cd''"
    using args that unfolding path_args_def by (simp add: first_arg[unfolded One_nat_def] del: take_Suc)
  have echo: "4 \<le> length argv \<Longrightarrow> argv ! (length argv - 2) = lit ''>'' \<Longrightarrow>
      good_arg (current_dir m) (argv ! (length argv - 1))" if "argv ! 0 = lit ''echo''"
    using args that by (simp add: path_args_def)
  have host: "\<not> length argv < 2 \<Longrightarrow> length (argv ! 1) \<le> 494" using words nth_mem[of 1 argv] by fastforce
  have "lit ''cat'' = argv ! 0 \<longrightarrow> within machine_ok (cmd_cat argv m)"
    "lit ''mkdir'' = argv ! 0 \<longrightarrow> within machine_ok (cmd_mkdir argv m)"
    "lit ''rm'' = argv ! 0 \<longrightarrow> within machine_ok (cmd_rm argv m)"
    "lit ''touch'' = argv ! 0 \<longrightarrow> within machine_ok (cmd_touch argv m)"
    using cmd_cat_ok[OF ok one] cmd_mkdir_ok[OF ok one] cmd_rm_ok[OF ok one] cmd_touch_ok[OF ok one]
    by (metis insertI1 insertI2)+
  moreover have "lit ''echo'' = argv ! 0 \<longrightarrow> within machine_ok (cmd_echo argv m)"
    "lit ''cd'' = argv ! 0 \<longrightarrow> within machine_ok (cmd_cd argv m)"
    "lit ''ping'' = argv ! 0 \<longrightarrow> within machine_ok (cmd_ping argv m)"
    using cmd_echo_ok[OF ok echo] cmd_cd_ok[OF ok cd] cmd_ping_ok[OF ok host] by metis+
  ultimately have "list_all (\<lambda>c. fst c = argv ! 0 \<longrightarrow> within machine_ok (snd c argv m)) commands"
    unfolding commands_def by (simp del: lit_simps add: info_ok[OF ok] cmd_ls_ok[OF ok] cmd_date_ok[OF ok])
  with c show ?thesis by (simp add: list_all_iff)
qed

lemma run_line_ok:
  assumes "machine_ok m" "harmless m l" "c_string l"
  shows "within machine_ok (run_line l m)"
proof (cases "l = [] \<or> parse_command l = []")
  case False
  let ?argv = "parse_command l"
  have h: "\<forall>a \<in> set (path_args ?argv). good_arg (current_dir m) a" "\<forall>a \<in> set ?argv. length a < 64"
    using assms(2) parse_command_bounds[OF assms(3)] by (auto simp: harmless_def list_all_iff word_fits_def)
  have "within machine_ok (dispatch ?argv m)"
  proof (cases "find (\<lambda>c. fst c = ?argv ! 0) commands")
    case None
    with assms(1) show ?thesis by (simp add: dispatch_def)
  next
    case (Some c)
    then have "c \<in> set commands" "fst c = ?argv ! 0" by (auto simp: find_Some_iff)
    from command_ok[OF assms(1) this h] Some show ?thesis by (simp add: dispatch_def)
  qed
  with False show ?thesis by (simp add: run_line_def Let_def)
qed (use assms(1) in \<open>auto simp: run_line_def Let_def\<close>)

section \<open>The loop\<close>

lemma strcpy_field:
  assumes "0 \<in> set b" "length b \<le> length d"
  shows "\<exists>d'. strcpy d (b @ r) = Some d' \<and> cstr d' = cstr b"
proof -
  have "cstr (b @ r) = cstr b" "length (cstr b) < length b" using assms(1) by (induction b) auto
  then show ?thesis using strcpy_eq[of "b @ r" d] assms by simp
qed

lemma host_name_eq:
  assumes "superblock_shape (superblock (fsys m))" "0 \<in> set (hostname (superblock (fsys m)))" "64 \<le> length (garbage m)"
  shows "host_name m = Some (cstr (hostname (superblock (fsys m))))"
  using strcpy_field[OF assms(2), of "take 64 (garbage m)"] assms(1,3)
  by (auto simp: host_name_def fs_get_hostname_def Let_def superblock_shape_def)

lemma user_name_eq:
  assumes "superblock_shape (superblock (fsys m))" "0 \<in> set (username (superblock (fsys m)))" "64 \<le> length (garbage m)"
  shows "user_name m = Some (cstr (username (superblock (fsys m))))"
  using strcpy_field[OF assms(2), of "take 64 (garbage m)"] assms(1,3)
  by (auto simp: user_name_def fs_get_username_def Let_def superblock_shape_def)

lemma print_prompt_ok:
  assumes "machine_ok m"
  obtains m1 where "print_prompt m = Some m1" "drawn m m1"
proof -
  have u: "length (user m) < 28" and d: "length (current_dir m) < 256"
    using assms by (auto simp: machine_ok_def good_user_def good_path_def)
  let ?m1 = "print ''@'' (color 0x0F 0x00 (emit (user m) (color 0x0A 0x00 m)))"
  have "host_name ?m1 = Some (cstr (hostname (superblock (fsys m))))"
    using assms fs_okD(2) by (subst host_name_eq) (auto simp: machine_ok_def fsys_ok_def fs_shape_def)
  then obtain h where h: "host_name ?m1 = Some h" by blast
  let ?m2 = "print '':'' (color 0x0F 0x00 (emit h (color 0x0B 0x00 ?m1)))"
  have "\<exists>q. get_display_path ?m2 = Some q" using u d by (auto simp: get_display_path_def Let_def fits_def)
  then obtain q where "get_display_path ?m2 = Some q" by blast
  with h have "print_prompt m = Some (print ''$ '' (color 0x0F 0x00 (emit q (color 0x0E 0x00 ?m2))))"
    by (simp add: print_prompt_def Let_def)
  then show ?thesis by (rule that) simp
qed

text \<open>A line whose paths are absolute, or \<open>cd ..\<close>.\<close>

definition absolute_paths :: "bytes \<Rightarrow> bool" where
  "absolute_paths l \<longleftrightarrow> (\<forall>a \<in> set (path_args (parse_command l)). a \<noteq> [] \<and> hd a = SLASH \<and> good_path a)"

lemma absolute_harmless: "absolute_paths l \<Longrightarrow> harmless m l"
  by (auto simp: absolute_paths_def harmless_def Let_def good_arg_def full_path_def fits_def good_path_def)

lemma shell_run_ok:
  assumes "machine_ok m" "\<forall>l \<in> set (entered 256 (chars (kbd m))). absolute_paths l"
  shows "within machine_ok (shell_run m)"
  using assms
proof (induction m rule: shell_run.induct)
  case (1 m)
  obtain m1 where m1: "print_prompt m = Some m1" "drawn m m1" by (rule print_prompt_ok[OF "1.prems"(1)])
  from "1.prems"(1) m1(2) show ?case
  proof (cases rule: shell_prompt.prompt_cases)
    case (none kb sc)
    then show ?thesis by (simp add: shell_run.simps[of m] m1(1))
  next
    case (line l ls kb sc)
    let ?m2 = "m\<lparr>kbd := kb, scr := sc\<rparr>"
    have abs: "absolute_paths l" "\<forall>x \<in> set (entered 256 (chars kb)). absolute_paths x"
      using "1.prems"(2) line(1,4) by simp_all
    have run: "within machine_ok (run_line l ?m2)" by (rule run_line_ok[OF line(7) absolute_harmless[OF abs(1)] line(6)])
    have "within machine_ok (and_then (run_line l ?m2) (\<lambda>_ m3. shell_run m3))"
    proof (rule within_and_then[OF run])
      fix u m3
      assume u: "run_line l ?m2 = Returns u m3"
      have "kbd m3 = kb" using parts_keys[OF run_line_parts[OF u]] by simp
      moreover have "machine_ok m3" using run u by simp
      ultimately show "within machine_ok (shell_run m3)" using "1.IH"[OF m1(1) line(2) u] abs(2) by simp
    qed
    with line(2) m1(1) show ?thesis by (simp add: shell_run.simps[of m])
  qed
qed

section \<open>Two limits\<close>

text \<open>\<open>cd\<close> without an argument builds the home directory in 64 bytes, without a look at the user name.\<close>

lemma cd_home_overflow: "58 \<le> length (user m) \<Longrightarrow> cmd_cd [lit ''cd''] m = Undefined"
  by (simp add: cmd_cd_def fits_def)

text \<open>
  With a key waiting, bit 0 of the status is set, and \<open>reboot\<close> sends the command 0xFF, which pulses no line of the
  keyboard controller, instead of 0xFE, which pulses the reset.
\<close>

lemma reboot_odd_status:
  assumes "port64 m AND 1 \<noteq> 0"
  shows "\<exists>m1. cmd_reboot argv m = Interrupts 0x19 [] m1 \<and> power_outs m1 = power_outs m @ [Outb 0x64 0xFF]"
proof -
  have "bit (0xFE :: u8) k" if "0 < k" "k < 8" for k
  proof -
    have "k \<in> {1, 2, 3, 4, 5, 6, 7}" using that by auto
    then show ?thesis by auto
  qed
  moreover have "bit (port64 m) 0" using assms unfolding and_1_bit by simp
  ultimately have "bit (port64 m OR 0xFE) k" if "k < 8" for k using that by (cases "k = 0") (auto simp: bit_simps)
  then have "port64 m OR 0xFE = NOT 0" by (intro bit_word_eqI) (auto simp: bit_simps)
  then show ?thesis by (simp add: cmd_reboot_def Let_def out_port_def)
qed

text \<open>The leading 0 of the time is never added: \<open>int_to_str\<close> has already filled up with blanks.\<close>

lemma padded_blank: "padded v = int_to_str (unat v) 2"
  by (auto simp: padded_def int_to_str_def Let_def)

section \<open>Properties\<close>

text \<open>A machine with the given file system on which the given scancodes will be typed.\<close>

definition machine_of :: "fs \<Rightarrow> bytes \<Rightarrow> machine" where
  "machine_of s ks = \<lparr>fsys = s, nets = host_a, scr = blank_screen, kbd = \<lparr>shift_pressed = False, scancodes = ks\<rparr>,
     rtc = \<lparr>regs = (\<lambda>_ _. 0), reg_b = 0, now = 0\<rparr>, pci = (\<lambda>_. 0xFFFFFFFF), idr = replicate 6 0, resets = [],
     current_dir = lit ''/'', user = lit ''ana'', garbage = replicate 16384 255, pending = [],
     port64 = 0x1C, power_outs = []\<rparr>"

lemma demo_fsys_ok:
  obtains s where "demo s" "fsys_ok s" "sb_id (superblock s) = sb_id (fresh_superblock (lit ''eos'') (lit ''ana'') (lit ''pw''))"
proof -
  obtain s where s: "demo s" "fs_ok s" "sizes_ok s" by (rule demo_exists) (rule that)
  then obtain r where r: "install_root (lit ''eos'') (lit ''ana'') (lit ''pw'') blank_fs = Some r"
    "fs_create_dir (lit ''/bin'') r = Some (0, s)" by (auto simp: demo_def has_bin_def)
  obtain r' where "install_root (lit ''eos'') (lit ''ana'') (lit ''pw'') blank_fs = Some r'"
    "superblock r' = fresh_superblock (lit ''eos'') (lit ''ana'') (lit ''pw'')"
    by (rule install_root_ok[OF blank_shape demo_lits, of "lit ''pw''"]) (rule that)
  with r fs_create_dir_sb_id[OF r(2)] have sb: "sb_id (superblock s) = sb_id (fresh_superblock (lit ''eos'') (lit ''ana'') (lit ''pw''))"
    by simp
  from sb_idD[OF sb] have "fsys_ok s" using s by (simp add: fsys_ok_def fresh_superblock_def zstr_def)
  with s(1) sb that show ?thesis by blast
qed

lemma machine_of_ok: "fsys_ok s \<Longrightarrow> machine_ok (machine_of s ks)"
  by (simp add: machine_ok_def machine_of_def screen_ok_def blank_screen_def good_user_def host_a_safe)

text \<open>
  C7: the shell runs whatever is typed without leaving its buffers, as long as the paths
  on the command lines are absolute, fit the path buffers and name no component of more than 27 characters (or are
  \<open>cd ..\<close>), and, when there is a network card, as it keeps a frame at the start of its ring that satisfies the
  conditions of \<open>card_ok\<close>: stored as the RTL8139 does, of a legal length, with a consistent IP header, and an
  even byte of the check sequence where the driver goes on. The sector transfers of the file system move more
  bytes than their variables have; they stay in the static variables of \<open>fs/filesystem.c\<close> as \<open>FsState\<close> lays
  them out. The shell goes on until a command executes the software interrupt that is to switch the system off or to restart it,
  or it waits for a key or the clock, and there the file system still satisfies its invariants, no file is
  longer than 16384 bytes, the cursor is on the screen, and the current directory fits its buffer.
\<close>

theorem session_safe:
  assumes "machine_ok m" "\<forall>l \<in> set (entered 256 (chars (kbd m))). absolute_paths l"
  shows "within machine_ok (shell_run m) \<and> shell_run m \<noteq> Returns u m1"
  using shell_run_ok[OF assms] shell_run_ends by blast

text \<open>The keys of \<open>rm /x\<close> and Enter.\<close>

theorem session_safe_witness:
  "\<exists>s. demo s \<and> within machine_ok (shell_run (machine_of s [0x13, 0x32, 0x39, 0x35, 0x2D, 0x1C]))"
proof -
  obtain s where s: "demo s" "fsys_ok s" by (rule demo_fsys_ok) (rule that)
  let ?m = "machine_of s [0x13, 0x32, 0x39, 0x35, 0x2D, 0x1C]"
  have c: "chars (kbd ?m) = lit ''rm /x'' @ [10]"
    by (simp add: machine_of_def chars_def key_def scancode_to_ascii_def)
  have "entered 256 (lit ''rm /x'' @ [10]) = [lit ''rm /x'']"
    by (simp add: entered.simps edited_def edit_def)
  moreover have "absolute_paths (lit ''rm /x'')"
    by (simp add: absolute_paths_def parse_command_def path_args_def good_path_def components_def)
  ultimately have "\<forall>l \<in> set (entered 256 (chars (kbd ?m))). absolute_paths l" unfolding c by simp
  with session_safe[OF machine_of_ok[OF s(2)]] s(1) show ?thesis by blast
qed

end
