(* ===== verification/Boot.thy ===== *)
theory Boot
  imports Shell
begin

text \<open>
  The installer, \<open>installer/installer.c\<close>, and the boot sequence with the menu and the login,
  \<open>kernel/kernel.c\<close>. Loops that read the keyboard end with the list of scancodes. A failed login
  calls \<open>do_login\<close> again; the C stack it takes is not modelled.
\<close>

section \<open>The installer\<close>

definition installer_getline_password :: "bytes \<Rightarrow> int \<Rightarrow> keyboard \<Rightarrow> screen \<Rightarrow> (bytes option \<times> keyboard \<times> screen) option" where
  "installer_getline_password buffer max_length kb sc = getline_loop (\<lambda>c. 42) max_length 0 buffer kb sc"

definition ask_password :: "machine \<Rightarrow> bytes outcome" where
  "ask_password m = line_result m (installer_getline_password (take 64 (garbage m)) 64 (kbd m) (scr m))"

lemma ask_password_eq: "ask_password m = read_password 64 m"
  by (simp add: ask_password_def read_password_def installer_getline_password_def keyboard_getline_password_def)

text \<open>The loop that asks for the password until it is given twice.\<close>

function ask_passwords :: "machine \<Rightarrow> bytes outcome" where
  "ask_passwords m =
     and_then (ask_password (print ''Enter password: '' m)) (\<lambda>password m1.
     and_then (ask_password (print ''Confirm password: '' m1)) (\<lambda>password_confirm m2.
       if password = password_confirm then Returns password m2
       else ask_passwords (color 0x0F 0x00 (println '''' (println ''Passwords do not match. Please try again.''
              (color 0x0C 0x00 m2))))))"
  by pat_completeness auto
termination
  by (relation "measure (\<lambda>m. length (scancodes (kbd m)))")
    (auto simp: ask_password_eq dest!: prompts_take)

declare ask_passwords.simps [simp del]

definition installer_banner :: "machine \<Rightarrow> machine" where
  "installer_banner m =
     println '''' (println ''Welcome! Let's set up your system.''
      (color 0x0F 0x00 (println '''' (println ''===================================''
        (println ''   EphemeralOS Installation'' (println ''===================================''
          (color 0x0B 0x00 m)))))))"

definition installer_run :: "machine \<Rightarrow> unit outcome" where
  "installer_run m =
     and_then (read_line 64 (print ''Enter device hostname: '' (installer_banner m))) (\<lambda>host m1.
     and_then (read_line 64 (print ''Enter username: '' m1)) (\<lambda>name m2.
     and_then (ask_passwords m2) (\<lambda>password m3.
       let m4 = println ''- Configuring system...'' (println ''- Setting up /bin directory...''
                 (println ''- Creating file system...'' (color 0x0F 0x00 (println ''Installing EphemeralOS...''
                   (color 0x0A 0x00 (println '''' m3))))))
       in case fs_install host name password (fsys m4) of
            None \<Rightarrow> Undefined
          | Some s \<Rightarrow> Returns () (color 0x0F 0x00 (println ''Installation successful!'' (println ''''
              (color 0x0A 0x00 (println ''- Writing configuration to disk...'' (m4\<lparr>fsys := s\<rparr>)))))))))"

section \<open>The menu\<close>

definition read_keyboard_direct :: "machine \<Rightarrow> u8 outcome" where
  "read_keyboard_direct m = (case scancodes (kbd m) of
       [] \<Rightarrow> Waits m
     | k # ks \<Rightarrow> Returns k (m\<lparr>kbd := (kbd m)\<lparr>scancodes := ks\<rparr>\<rparr>))"

lemma read_keyboard_direct_takes:
  "read_keyboard_direct m = Returns k m1 \<Longrightarrow> length (scancodes (kbd m1)) < length (scancodes (kbd m))"
  by (auto simp: read_keyboard_direct_def split: list.splits)

text \<open>The loop that waits for the release of the Enter key.\<close>

function wait_release :: "machine \<Rightarrow> unit outcome" where
  "wait_release m = and_then (read_keyboard_direct m) (\<lambda>k m1. if k = 0x9C then Returns () m1 else wait_release m1)"
  by pat_completeness auto
termination
  by (relation "measure (\<lambda>m. length (scancodes (kbd m)))") (auto dest: read_keyboard_direct_takes)

declare wait_release.simps [simp del]

text \<open>\<open>blank_42\<close> is the line of 42 blanks. Rows 25 to 27 do not exist: \<open>screen_set_row\<close> ignores them.\<close>

definition blank_42 :: bytes where
  "blank_42 = replicate 42 32"

definition menu_frame :: "machine \<Rightarrow> machine" where
  "menu_frame m =
     print ''  Use LEFT/RIGHT arrows, then ENTER     '' (row 27 (emit blank_42 (row 26 (emit blank_42 (row 25
      (emit blank_42 (row 24 (emit blank_42 (row 23 (emit blank_42 (row 22
       (print ''  Deseas continuar?                      '' (row 21 (emit blank_42
         (color 0x0F 0x00 (row 20 m))))))))))))))))"

definition menu_item :: "bool \<Rightarrow> string \<Rightarrow> string \<Rightarrow> machine \<Rightarrow> machine" where
  "menu_item chosen marked plain m =
     (if chosen then color 0x0F 0x00 (print marked (color 0x00 0x0F m)) else print plain (color 0x0F 0x00 m))"

definition menu_items :: "nat \<Rightarrow> machine \<Rightarrow> machine" where
  "menu_items selected m =
     menu_item (selected = 1) ''  > No  '' ''    No  '' (row 25
       (menu_item (selected = 0) ''  > SI  '' ''    SI  '' (row 24 m)))"

lemma menu_items_keys [simp]: "kbd (menu_items selected m) = kbd m"
  by (simp add: menu_items_def menu_item_def)

function menu_loop :: "nat \<Rightarrow> machine \<Rightarrow> nat outcome" where
  "menu_loop selected m = and_then (read_keyboard_direct (menu_items selected m)) (\<lambda>scancode m1.
     if scancode AND 0x80 \<noteq> 0 then menu_loop selected m1
     else if scancode = 0x4B then menu_loop 0 m1
     else if scancode = 0x4D then menu_loop 1 m1
     else if scancode = 0x48 then menu_loop 0 m1
     else if scancode = 0x50 then menu_loop 1 m1
     else if scancode = 0x1C then and_then (wait_release m1) (\<lambda>_ m2. Returns selected m2)
     else menu_loop selected m1)"
  by pat_completeness auto
termination
  by (relation "measure (\<lambda>(selected, m). length (scancodes (kbd m)))")
    (auto dest!: read_keyboard_direct_takes)

declare menu_loop.simps [simp del]

definition show_continue_menu :: "machine \<Rightarrow> nat outcome" where
  "show_continue_menu m = menu_loop 0 (menu_frame (drain 100 m))"

definition shutdown_system :: "machine \<Rightarrow> unit outcome" where
  "shutdown_system m =
     (let m1 = println ''Shutting down...'' (println '''' m)
      in Interrupts 0x15 [0x5307, 0x0001, 0x0003] (out_port (Outw 0x2000 0x2000) m1))"

section \<open>The login\<close>

definition login_incorrect :: "machine \<Rightarrow> machine option" where
  "login_incorrect m = do {
     let m1 = println ''Login incorrect'' m;
     host \<leftarrow> host_name m1;
     Some (print '' login: '' (emit host m1)) }"

function do_login :: "machine \<Rightarrow> unit outcome" where
  "do_login m = (case user_name m of
       None \<Rightarrow> Undefined
     | Some stored_username \<Rightarrow>
         and_then (read_line 64 (print ''login: '' (color 0x0F 0x00 m))) (\<lambda>name m1.
           if name \<noteq> stored_username
           then (case login_incorrect m1 of None \<Rightarrow> Undefined | Some m2 \<Rightarrow> do_login m2)
           else and_then (read_password 64 (print ''Password: '' m1)) (\<lambda>password m2.
             case fs_verify_password (fsys m2) password of
               None \<Rightarrow> Undefined
             | Some ok \<Rightarrow>
                 if ok then Returns () m2
                 else case login_incorrect m2 of None \<Rightarrow> Undefined | Some m3 \<Rightarrow> do_login m3)))"
  by pat_completeness auto
termination
  by (relation "measure (\<lambda>m. length (scancodes (kbd m)))")
    (auto simp: login_incorrect_def command_simps dest!: prompts_take)

declare do_login.simps [simp del]

section \<open>The boot sequence\<close>

definition on_net :: "(net \<Rightarrow> net) \<Rightarrow> machine \<Rightarrow> machine" where
  "on_net f m = m\<lparr>nets := f (nets m)\<rparr>"

text \<open>Lines 196 to 227: the network stack.\<close>

definition start_stack :: "machine \<Rightarrow> machine" where
  "start_stack m =
     (let m1 = on_net ntp_init (on_net dns_init (on_net udp_init (on_net icmp_init (on_net ip_init
                 (on_net arp_init (on_net eth_init m))))));
          m2 = (if network_is_ready m1
                then println ''[NET] DNS server: 10.0.2.3'' (on_net (dns_set_server 0x0A000203)
                       (println ''[NET] IP configured: 10.0.2.15'' (on_net (network_set_ip 0x0A00020F)
                         (println ''[NET] Network stack initialized'' m1))))
                else m1)
      in println '''' m2)"

text \<open>Lines 190 to 227: the devices and the network stack.\<close>

definition start_devices :: "machine \<Rightarrow> unit outcome" where
  "start_devices m =
     (let m1 = m\<lparr>scr := screen_clear (screen_init (scr m))\<rparr>;
          m2 = println '''' (println ''================'' (println ''EphemeralOS v1.0'' m1));
          m3 = println ''[RTC] Real Time Clock initialized'' (m2\<lparr>rtc := rtc_init (rtc m2)\<rparr>);
          m4 = println ''[PCI] PCI bus initialized'' (m3\<lparr>pci := pci_init (pci m3)\<rparr>)
      in and_then (network_init m4) (\<lambda>_ m5. Returns () (start_stack m5)))"

text \<open>Lines 230 to 248.\<close>

definition first_boot :: "machine \<Rightarrow> unit outcome" where
  "first_boot m =
     and_then (installer_run m) (\<lambda>_ m1.
     and_then (show_continue_menu (color 0x0F 0x00 (println ''Installation complete!'' (color 0x0A 0x00 (println '''' m1)))))
       (\<lambda>choice m2.
         if choice = 1 then shutdown_system m2
         else Interrupts 0x19 [] (println ''Rebooting...'' (m2\<lparr>scr := screen_clear (scr m2)\<rparr>))))"

text \<open>A number below 100 as two digits; the day of the month without a leading 0.\<close>

definition two_digits :: "u8 \<Rightarrow> bytes" where
  "two_digits v = [48 + v div 10, 48 + v mod 10]"

definition last_login :: "rtc_time \<Rightarrow> bytes" where
  "last_login t =
     lit ''Last login: '' @
     (if 1 \<le> weekday t \<and> weekday t \<le> 7 then lit (weekday_names ! (unat (weekday t) - 1)) else []) @ lit '' '' @
     (if 1 \<le> month t \<and> month t \<le> 12 then lit (month_names ! (unat (month t) - 1)) else []) @ lit '' '' @
     (if day t < 10 then lit '' '' else []) @
     (if 48 + day t div 10 \<noteq> 48 then [48 + day t div 10] else []) @ [48 + day t mod 10] @ lit '' '' @
     two_digits (hour t) @ lit '':'' @ two_digits (minute t) @ lit '':'' @ two_digits (second t) @ lit '' '' @
     [ucast (48 + year t div 1000), ucast (48 + year t div 100 mod 10), ucast (48 + year t div 10 mod 10),
      ucast (48 + year t mod 10)] @ [10, 10]"

text \<open>Lines 277 to 336: the greeting and the shell.\<close>

definition greet :: "bytes \<Rightarrow> machine \<Rightarrow> unit outcome" where
  "greet host m =
     (let m0 = println '''' m in
      case user_name m0 of
        None \<Rightarrow> Undefined
      | Some name \<Rightarrow>
          let m1 = println ''!'' (emit host (print ''Welcome to '' m0)) in
          (case rtc_get_time (rtc m1) of
             None \<Rightarrow> Waits m1
           | Some (t, ck) \<Rightarrow>
               (case shell_init (emit (last_login t) (m1\<lparr>rtc := ck\<rparr>)) of
                  None \<Rightarrow> Undefined
                | Some m2 \<Rightarrow> shell_run m2)))"

text \<open>Lines 251 to 275.\<close>

definition login_screen :: "machine \<Rightarrow> unit outcome" where
  "login_screen m =
     (let m1 = m\<lparr>kbd := keyboard_init (kbd m), fsys := fs_init (fsys m)\<rparr> in
      case host_name m1 of
        None \<Rightarrow> Undefined
      | Some host \<Rightarrow>
          and_then (do_login (print '' '' (emit host (color 0x0F 0x00 (drain 50
            (m1\<lparr>scr := screen_init (screen_clear (scr m1))\<rparr>)))))) (\<lambda>_ m2. greet host m2))"

definition kernel_main :: "machine \<Rightarrow> unit outcome" where
  "kernel_main m = and_then (start_devices m) (\<lambda>_ m1.
     let (installed, s) = fs_check_installed (fsys m1); m2 = m1\<lparr>fsys := s\<rparr>
     in if installed then login_screen m2 else first_boot m2)"

end
