(* ===== verification/Login.thy ===== *)
theory Login
  imports Session Boot FsLimits
begin

text \<open>
  The programs end to end: what \<open>echo\<close> stores \<open>cat\<close> prints, a login needs the password, and the
  names and the password given to the installer are the ones the login accepts.
\<close>

section \<open>\<open>echo\<close> and \<open>cat\<close>\<close>

text \<open>The words with blanks between them.\<close>

fun joined :: "bytes list \<Rightarrow> bytes" where
  "joined [] = []"
| "joined (w # ws) = w @ (if ws = [] then [] else 32 # joined ws)"

lemma echo_words_joined:
  "length out + length (joined ws) + 1 < 16384 \<Longrightarrow> echo_words out ws = out @ joined ws"
  by (induction out ws rule: echo_words.induct) auto

lemma length_joined: "list_all plain_word ws \<Longrightarrow> length (joined ws) \<le> 64 * length ws"
  by (induction ws) (auto simp: plain_word_def word_fits_def)

lemma joined_last:
  assumes "ws \<noteq> []" "list_all plain_word ws" "\<forall>w \<in> set ws. 10 \<notin> set w"
  shows "joined ws \<noteq> []" "10 \<notin> set (joined ws)"
  using assms by (induction ws) (auto simp: plain_word_def word_fits_def)

lemma screen_print_append: "screen_print (a @ b) s = screen_print b (screen_print a s)"
  by (simp add: screen_print_def)

lemma run_command_line:
  assumes "list_all plain_word argv" "length argv \<le> 20" "argv \<noteq> []"
  shows "run_line (command_line argv) m = dispatch argv m"
proof -
  have "parse_command (command_line argv) = argv"
    using parse_command_line[OF assms(1), of "[]"] assms(2) by (simp add: parse_command_def)
  moreover from this have "command_line argv \<noteq> []" using assms(3) by (auto simp: parse_command_def)
  ultimately show ?thesis using assms(3) by (simp add: run_line_def)
qed

lemma dispatch_echo: "dispatch (lit ''echo'' # ws) m = cmd_echo (lit ''echo'' # ws) m"
  by (simp add: dispatch_def commands_def)

lemma dispatch_cat: "dispatch (lit ''cat'' # ws) m = cmd_cat (lit ''cat'' # ws) m"
  by (simp add: dispatch_def commands_def)

text \<open>What \<open>cat\<close> shows of a file of at most 6144 bytes, on the screen.\<close>

lemma cmd_echo_stores:
  assumes "full_path (current_dir m) name = Some p" "ws \<noteq> []" "length (joined ws) < 16383"
    and "fs_create_file p (zstr (joined ws)) (of_nat (length (joined ws))) (fsys m) = Some (0, s)"
  shows "cmd_echo (lit ''echo'' # ws @ [lit ''>'', name]) m = Returns () (m\<lparr>fsys := s\<rparr>)"
proof -
  let ?argv = "lit ''echo'' # ws @ [lit ''>'', name]"
  have n: "length ?argv = length ws + 3" "4 \<le> length ?argv" using assms(2) by (cases ws, simp_all)+
  have "?argv ! (length ?argv - 2) = lit ''>''" "?argv ! (length ?argv - 1) = name"
    "take (length ?argv - 3) (tl ?argv) = ws"
    unfolding n(1) by (simp_all add: nth_Cons' nth_append)
  then show ?thesis
    using n(2) assms(1,4) echo_words_joined[of "[]" ws] assms(3)
    unfolding cmd_echo_def Let_def by (simp del: lit_simps)
qed

lemma cmd_cat_shows:
  assumes "full_path (current_dir m) name = Some p" "str \<noteq> []" "10 \<notin> set str"
    and "fs_read_file p (take 16384 (garbage m)) 16384 (fsys m) = Some (int (length str), str @ rest, s)"
  shows "cmd_cat [lit ''cat'', name] m = Returns () (println '''' (emit str (m\<lparr>fsys := s\<rparr>)))"
proof -
  have "(str @ rest) ! (length str - 1) = last str" using assms(2) by (simp add: nth_append last_conv_nth)
  also have "last str \<noteq> 10" using assms(2,3) last_in_set[OF assms(2)] by metis
  finally show ?thesis using assms by (simp add: cmd_cat_def Let_def)
qed

lemma echo_then_cat:
  assumes "fs_ok (fsys m)" "16384 \<le> length (garbage m)" "full_path (current_dir m) name = Some p" "good_path p"
    and "components p = cs @ [c]" "resolves (fsys m) (cs @ [c]) = NONE32"
    and "is_dir (fsys m) (resolves (fsys m) cs)" "room (fsys m) (resolves (fsys m) cs)" "\<not> is_block_free (fsys m) 0"
    and "free_inode_set (fsys m) \<noteq> {}" "3 \<le> card (free_block_set (fsys m))"
    and "ws \<noteq> []" "length ws \<le> 17" "list_all plain_word ws" "\<forall>w \<in> set ws. 10 \<notin> set w"
  obtains s t where "cmd_echo (lit ''echo'' # ws @ [lit ''>'', name]) m = Returns () (m\<lparr>fsys := s\<rparr>)" "fs_ok s"
    "cmd_cat [lit ''cat'', name] (m\<lparr>fsys := s\<rparr>) = Returns () (println '''' (emit (joined ws) (m\<lparr>fsys := t\<rparr>)))"
proof -
  let ?d = "joined ws"
  define nb where "nb = (of_nat (length ?d) :: u32)"
  have l: "length ?d \<le> 1088" using length_joined[OF assms(14)] assms(13) by linarith
  then have u: "unat nb = length ?d" by (simp add: nb_def unat_length)
  have nb: "unat nb \<le> 16384" "min (unat nb) 6144 \<le> length (zstr ?d)" using u l by (simp_all add: zstr_def)
  have "(length ?d + 511) div 512 \<le> 3" using l by simp
  then have bl: "blocks_needed nb \<le> card (free_block_set (fsys m))" using blocks_needed_nat[OF nb(1)] u assms(11) by simp
  obtain n s where s: "fs_create_file p (zstr ?d) nb (fsys m) = Some (0, s)" "fs_ok s"
    "holds (fsys m) n (zstr ?d) nb s" "resolves s (cs @ [c]) = n"
    by (rule create_file_then[OF assms(1,4,5,6,7,8,9,10) bl nb]) (rule that)
  have "nb \<le> 16384" using nb(1) by (simp add: word_le_nat_alt)
  then have mn: "min 16384 nb = nb" "min (unat nb) 6144 = length ?d" using u l by (simp_all add: min_def)
  have lb: "min (unat (min 16384 nb)) 6144 \<le> length (take 16384 (garbage m))" unfolding mn using assms(2) l by simp
  obtain w where "fs_read_file p (take 16384 (garbage m)) 16384 s =
      Some (int (length ?d), ?d @ drop (length ?d) (take 16384 (garbage m)), s\<lparr>sector_buffer := w\<rparr>)"
    using fs_read_file_holds[OF fs_okD(1)[OF s(2)] assms(4) _ s(3) assms(9) nb lb] s(4) assms(5)
    unfolding mn Let_def by (auto simp: u zstr_def)
  then have "cmd_cat [lit ''cat'', name] (m\<lparr>fsys := s\<rparr>) =
      Returns () (println '''' (emit ?d (m\<lparr>fsys := s\<rparr>\<lparr>fsys := s\<lparr>sector_buffer := w\<rparr>\<rparr>)))"
    using assms(3) by (intro cmd_cat_shows joined_last[OF assms(12,14,15)]) simp_all
  moreover have "cmd_echo (lit ''echo'' # ws @ [lit ''>'', name]) m = Returns () (m\<lparr>fsys := s\<rparr>)"
    using s(1) l by (intro cmd_echo_stores[OF assms(3,12)]) (simp_all add: nb_def)
  ultimately show ?thesis using that s(2) by simp
qed

section \<open>The login\<close>

text \<open>
  What a login makes of the typed lines when the user name is \<open>name\<close> and the stored hash is \<open>h\<close>: the
  lines that are left when it succeeds. A line that is not the user name is refused at once; after the
  user name the next line is the password.
\<close>

fun logged_in :: "bytes \<Rightarrow> u32 \<Rightarrow> bytes list \<Rightarrow> bytes list option" where
  "logged_in name h [] = None"
| "logged_in name h (l # ls) =
     (if l \<noteq> name then logged_in name h ls
      else case ls of [] \<Rightarrow> None | password # rest \<Rightarrow> if simple_hash password = h then Some rest else logged_in name h rest)"

definition login_post :: "bytes \<Rightarrow> u32 \<Rightarrow> machine \<Rightarrow> unit outcome \<Rightarrow> bool" where
  "login_post name h m r \<longleftrightarrow> (case logged_in name h (entered 64 (chars (kbd m))) of
       None \<Rightarrow> \<exists>kb sc. r = Waits (m\<lparr>kbd := kb, scr := sc\<rparr>) \<and> draws (scr m) sc
     | Some rest \<Rightarrow> \<exists>kb sc. r = Returns () (m\<lparr>kbd := kb, scr := sc\<rparr>) \<and> draws (scr m) sc \<and> entered 64 (chars kb) = rest)"

text \<open>The parts of the machine that the prompts use.\<close>

definition prompt_ok :: "machine \<Rightarrow> bool" where
  "prompt_ok m \<longleftrightarrow> screen_ok (scr m) \<and> 64 \<le> length (garbage m) \<and> superblock_shape (superblock (fsys m)) \<and>
     0 \<in> set (hostname (superblock (fsys m))) \<and> 0 \<in> set (username (superblock (fsys m)))"

interpretation login_name: prompting prompt_ok "read_line 64" 64
  by unfold_locales (auto simp: prompt_ok_def draws_ok)

interpretation login_password: prompting prompt_ok "read_password 64" 64
  by unfold_locales (auto simp: prompt_ok_def)

interpretation ask: line_prompt ask_password 64
  by unfold_locales (simp add: ask_password_eq prompts_read)

lemma login_incorrect_ok:
  assumes "prompt_ok m"
  obtains n where "login_incorrect m = Some n" "drawn m n"
proof -
  obtain h where "host_name (println ''Login incorrect'' m) = Some h"
    using assms host_name_eq[of "println ''Login incorrect'' m"] by (auto simp: prompt_ok_def)
  then have "login_incorrect m = Some (print '' login: '' (emit h (println ''Login incorrect'' m)))"
    by (simp add: login_incorrect_def Let_def)
  then show ?thesis by (rule that) simp
qed

text \<open>The lines read so far have been refused, and the login starts again.\<close>

lemma login_post_refused:
  assumes m1: "prompt_ok (m\<lparr>kbd := kb, scr := sc\<rparr>)" "draws (scr m) sc"
    and lines: "logged_in name h (entered 64 (chars (kbd m))) = logged_in name h (entered 64 (chars kb))"
    and again: "\<And>n. login_incorrect (m\<lparr>kbd := kb, scr := sc\<rparr>) = Some n \<Longrightarrow> prompt_ok n \<Longrightarrow> fsys n = fsys m \<Longrightarrow>
      login_post name h n (do_login n)"
  shows "login_post name h m (case login_incorrect (m\<lparr>kbd := kb, scr := sc\<rparr>) of None \<Rightarrow> Undefined | Some n \<Rightarrow> do_login n)"
proof -
  obtain n where n: "login_incorrect (m\<lparr>kbd := kb, scr := sc\<rparr>) = Some n" "drawn (m\<lparr>kbd := kb, scr := sc\<rparr>) n"
    by (rule login_incorrect_ok[OF m1(1)])
  obtain s where s: "n = m\<lparr>kbd := kb, scr := s\<rparr>" "draws sc s"
    using drawnE[OF n(2)] m1(1) by (auto simp: prompt_ok_def)
  have "login_post name h n (do_login n)"
    by (rule again[OF n(1) login_name.drawn_keeps[OF m1(1) n(2)]]) (simp add: s(1))
  with n(1) s draws_trans[OF m1(2)] draws_trans[OF s(2)] lines show ?thesis
    by (auto simp: login_post_def split: option.splits)
qed

lemma do_login_post:
  assumes "prompt_ok m" "cstr (username (superblock (fsys m))) = name" "password_hash (superblock (fsys m)) = hash_bytes h"
  shows "login_post name h m (do_login m)"
  using assms
proof (induction m rule: do_login.induct)
  case (1 m)
  have un: "user_name m = Some name" using user_name_eq[of m] "1.prems" by (simp add: prompt_ok_def)
  have d: "drawn m (print ''login: '' (color 0x0F 0x00 m))" by simp
  from "1.prems"(1) d show ?case
  proof (cases rule: login_name.prompt_cases)
    case (none kb sc)
    then show ?thesis using un by (auto simp: login_post_def do_login.simps[of m])
  next
    case (line l ls kb sc)
    let ?m1 = "m\<lparr>kbd := kb, scr := sc\<rparr>"
    note m1 = line(7)
    show ?thesis
    proof (cases "l = name")
      case False
      have "login_post name h m (case login_incorrect ?m1 of None \<Rightarrow> Undefined | Some n \<Rightarrow> do_login n)"
        using "1.IH"(1)[OF un line(2) False] "1.prems"(2,3) line(1,4) False
        by (intro login_post_refused[OF m1 line(3)]) auto
      then show ?thesis using un line(2) False by (simp add: do_login.simps[of m])
    next
      case True
      have d1: "drawn ?m1 (print ''Password: '' ?m1)" by simp
      from m1 d1 show ?thesis
      proof (cases rule: login_password.prompt_cases)
        case (none kb2 sc2)
        then show ?thesis using line un True draws_trans[OF line(3)]
          by (auto simp: login_post_def do_login.simps[of m])
      next
        case line2: (line pw ls2 kb2 sc2)
        let ?m2 = "m\<lparr>kbd := kb2, scr := sc2\<rparr>"
        have v: "fs_verify_password (fsys ?m2) pw = Some (simple_hash pw = h)"
          by (rule fs_verify_password_eq) (use "1.prems"(3) in simp)
        have e: "entered 64 (chars (kbd m)) = name # pw # ls2" using line(1,4) line2(1) True by simp
        have r: "read_password 64 (print ''Password: '' ?m1) = Returns pw ?m2" "prompt_ok ?m2" "draws (scr m) sc2"
          using line2(2,3,7) draws_trans[OF line(3)] by simp_all
        have run: "do_login m = (if simple_hash pw = h then Returns () ?m2
            else case login_incorrect ?m2 of None \<Rightarrow> Undefined | Some n \<Rightarrow> do_login n)"
          using un line(2) True r(1) v by (simp add: do_login.simps[of m])
        show ?thesis
        proof (cases "simple_hash pw = h")
          case ok: True
          then show ?thesis using run r(3) e line2(4) by (auto simp: login_post_def)
        next
          case False
          have "login_post name h m (case login_incorrect ?m2 of None \<Rightarrow> Undefined | Some n \<Rightarrow> do_login n)"
            using "1.IH"(2)[OF un line(2) _ r(1) v False] True "1.prems"(2,3) e line2(4) False
            by (intro login_post_refused[OF r(2,3)]) auto
          then show ?thesis using run False by simp
        qed
      qed
    qed
  qed
qed

section \<open>The installer\<close>

text \<open>The first password that is typed twice, and the lines after it.\<close>

fun agreed :: "bytes list \<Rightarrow> (bytes \<times> bytes list) option" where
  "agreed (p # q # ls) = (if p = q then Some (p, ls) else agreed ls)"
| "agreed _ = None"

lemma ask_passwords_entered:
  assumes "screen_ok (scr m)" "64 \<le> length (garbage m)" "agreed (entered 64 (chars (kbd m))) = Some (p, ls)"
  shows "\<exists>kb sc. ask_passwords m = Returns p (m\<lparr>kbd := kb, scr := sc\<rparr>) \<and> draws (scr m) sc \<and> entered 64 (chars kb) = ls"
  using assms
proof (induction m rule: ask_passwords.induct)
  case (1 m)
  have d: "drawn m (print ''Enter password: '' m)" by simp
  from "1.prems"(1,2) d show ?case
  proof (cases rule: ask.prompt_entered)
    case (none kb sc)
    with "1.prems"(3) show ?thesis by simp
  next
    case (line q ls1 kb1 sc1)
    let ?m1 = "m\<lparr>kbd := kb1, scr := sc1\<rparr>"
    have m1: "screen_ok (scr ?m1)" "64 \<le> length (garbage ?m1)" using draws_ok[OF line(3)] "1.prems"(2) by simp_all
    have d1: "drawn ?m1 (print ''Confirm password: '' ?m1)" by simp
    from m1 d1 show ?thesis
    proof (cases rule: ask.prompt_entered)
      case (none kb sc)
      with line(1,4) "1.prems"(3) show ?thesis by simp
    next
      case line2: (line q2 ls2 kb2 sc2)
      let ?m2 = "m\<lparr>kbd := kb2, scr := sc2\<rparr>"
      have e: "entered 64 (chars (kbd m)) = q # q2 # ls2" using line(1,4) line2(1) by simp
      have a: "ask_password (print ''Enter password: '' m) = Returns q ?m1"
        "ask_password (print ''Confirm password: '' ?m1) = Returns q2 ?m2" "draws (scr m) sc2"
        using line(2) line2(2,3) draws_trans[OF line(3)] by simp_all
      show ?thesis
      proof (cases "q = q2")
        case True
        then show ?thesis using a e "1.prems"(3) line2(4) by (auto simp: ask_passwords.simps[of m])
      next
        case False
        let ?n = "color 0x0F 0x00 (println '''' (println ''Passwords do not match. Please try again.'' (color 0x0C 0x00 ?m2)))"
        have dn: "drawn ?m2 ?n" by simp
        obtain s where s: "?n = ?m2\<lparr>scr := s\<rparr>" "draws sc2 s" using drawnE[OF dn] draws_ok[OF a(3)] by auto
        have "\<exists>kb sc. ask_passwords ?n = Returns p (?n\<lparr>kbd := kb, scr := sc\<rparr>) \<and> draws (scr ?n) sc \<and> entered 64 (chars kb) = ls"
          using "1.IH"[OF a(1,2) False] "1.prems"(2,3) s draws_ok[OF s(2)] e line2(4) False by simp
        then show ?thesis
          using a False s draws_trans[OF a(3)] draws_trans[OF s(2)] by (auto simp: ask_passwords.simps[of m])
      qed
    qed
  qed
qed

lemma installer_run_entered:
  assumes "screen_ok (scr m)" "64 \<le> length (garbage m)" "entered 64 (chars (kbd m)) = hn # name # ls"
    and "agreed ls = Some (password, rest)"
  shows "case fs_install hn name password (fsys m) of None \<Rightarrow> installer_run m = Undefined
    | Some s \<Rightarrow> \<exists>kb sc. installer_run m = Returns () (m\<lparr>kbd := kb, scr := sc, fsys := s\<rparr>) \<and>
        screen_ok sc \<and> entered 64 (chars kb) = rest"
proof -
  have d: "drawn m (print ''Enter device hostname: '' (installer_banner m))" by (simp add: installer_banner_def)
  from assms(1,2) d obtain kb1 sc1 where r1:
    "read_line 64 (print ''Enter device hostname: '' (installer_banner m)) = Returns hn (m\<lparr>kbd := kb1, scr := sc1\<rparr>)"
    "draws (scr m) sc1" "entered 64 (chars kb1) = name # ls"
    by (cases rule: line64.prompt_entered) (use assms(3) in auto)
  let ?m1 = "m\<lparr>kbd := kb1, scr := sc1\<rparr>"
  have m1: "screen_ok (scr ?m1)" "64 \<le> length (garbage ?m1)" "drawn ?m1 (print ''Enter username: '' ?m1)"
    using draws_ok[OF r1(2)] assms(2) by simp_all
  from m1 obtain kb2 sc2 where r2:
    "read_line 64 (print ''Enter username: '' ?m1) = Returns name (m\<lparr>kbd := kb2, scr := sc2\<rparr>)"
    "draws sc1 sc2" "entered 64 (chars kb2) = ls"
    by (cases rule: line64.prompt_entered) (use r1(3) in auto)
  let ?m2 = "m\<lparr>kbd := kb2, scr := sc2\<rparr>"
  obtain kb3 sc3 where r3: "ask_passwords ?m2 = Returns password (m\<lparr>kbd := kb3, scr := sc3\<rparr>)" "draws sc2 sc3"
    "entered 64 (chars kb3) = rest"
    using ask_passwords_entered[of ?m2 password rest] draws_ok[OF r2(2)] assms(2,4) r2(3) by auto
  let ?m3 = "m\<lparr>kbd := kb3, scr := sc3\<rparr>"
  let ?m4 = "println ''- Configuring system...'' (println ''- Setting up /bin directory...''
                 (println ''- Creating file system...'' (color 0x0F 0x00 (println ''Installing EphemeralOS...''
                   (color 0x0A 0x00 (println '''' ?m3))))))"
  have "fsys ?m4 = fsys m" by simp
  then have run: "installer_run m = (case fs_install hn name password (fsys m) of None \<Rightarrow> Undefined
      | Some s \<Rightarrow> Returns () (color 0x0F 0x00 (println ''Installation successful!'' (println ''''
              (color 0x0A 0x00 (println ''- Writing configuration to disk...'' (?m4\<lparr>fsys := s\<rparr>)))))))"
    using r1(1) r2(1) r3(1) by (simp add: installer_run_def Let_def)
  show ?thesis
  proof (cases "fs_install hn name password (fsys m)")
    case None
    with run show ?thesis by simp
  next
  case (Some s)
  let ?m5 = "color 0x0F 0x00 (println ''Installation successful!'' (println ''''
              (color 0x0A 0x00 (println ''- Writing configuration to disk...'' (?m4\<lparr>fsys := s\<rparr>)))))"
  have d4: "drawn ?m3 ?m4" and d5: "drawn (?m4\<lparr>fsys := s\<rparr>) ?m5" by simp_all
  obtain sc4 where s4: "?m4 = ?m3\<lparr>scr := sc4\<rparr>" "screen_ok sc4"
    by (rule drawnE[OF d4]) (use draws_ok[OF r3(2)] in simp, rule that, use draws_ok in auto)
  obtain sc5 where s5: "?m5 = ?m4\<lparr>fsys := s, scr := sc5\<rparr>" "screen_ok sc5"
    by (rule drawnE[OF d5]) (use s4 in simp, rule that, use draws_ok in auto)
  have s5: "?m5 = m\<lparr>kbd := kb3, scr := sc5, fsys := s\<rparr>" "screen_ok sc5" using s5 unfolding s4(1) by simp_all
  have "installer_run m = Returns () ?m5" using run Some by simp
  then show ?thesis using Some s5 r3(3) by auto
  qed
qed

text \<open>The first two lines that are typed fit the prompt.\<close>

lemma entered_two:
  fixes m :: machine
  assumes "screen_ok (scr m)" "64 \<le> length (garbage m)" "entered 64 (chars (kbd m)) = l1 # l2 # ls"
  shows "c_string l1" "length l1 < 64" "c_string l2" "length l2 < 64"
proof -
  note first = line64.entered_fits[OF assms]
  then show "c_string l1" "length l1 < 64" by simp_all
  from assms(1,2) drawn_refl[of m] obtain kb sc where "draws (scr m) sc" "entered 64 (chars kb) = l2 # ls"
    by (cases rule: line64.prompt_entered) (use assms(3) in auto)
  then show "c_string l2" "length l2 < 64"
    using line64.entered_fits[of "m\<lparr>kbd := kb, scr := sc\<rparr>" l2 ls] assms(2) draws_ok[of "scr m" sc] by simp_all
qed

section \<open>Properties\<close>

text \<open>
  C12: \<open>echo words > name\<close> on a path that names nothing yet, in a directory that has room,
  stores the words, and \<open>cat name\<close> then shows exactly these words, with one blank between them,
  on the screen; \<open>echo\<close> itself draws nothing.
\<close>

theorem echo_cat:
  assumes "fs_ok (fsys m)" "16384 \<le> length (garbage m)" "full_path (current_dir m) name = Some p" "good_path p"
    and "components p = cs @ [c]" "resolves (fsys m) (cs @ [c]) = NONE32"
    and "is_dir (fsys m) (resolves (fsys m) cs)" "room (fsys m) (resolves (fsys m) cs)" "\<not> is_block_free (fsys m) 0"
    and "free_inode_set (fsys m) \<noteq> {}" "3 \<le> card (free_block_set (fsys m))"
    and "ws \<noteq> []" "length ws \<le> 17" "list_all plain_word (ws @ [name])" "\<forall>w \<in> set ws. 10 \<notin> set w"
  shows "\<exists>m1 m2. run_line (command_line (lit ''echo'' # ws @ [lit ''>'', name])) m = Returns () m1 \<and> scr m1 = scr m \<and>
    run_line (command_line [lit ''cat'', name]) m1 = Returns () m2 \<and>
    scr m2 = screen_print (joined ws @ [10]) (scr m)"
proof -
  have words: "list_all plain_word ws" "list_all plain_word (lit ''echo'' # ws @ [lit ''>'', name])"
    "list_all plain_word [lit ''cat'', name]"
    using assms(14) by (simp_all add: plain_word_def word_fits_def)
  obtain s t where st: "cmd_echo (lit ''echo'' # ws @ [lit ''>'', name]) m = Returns () (m\<lparr>fsys := s\<rparr>)"
    "cmd_cat [lit ''cat'', name] (m\<lparr>fsys := s\<rparr>) = Returns () (println '''' (emit (joined ws) (m\<lparr>fsys := t\<rparr>)))"
    by (rule echo_then_cat[OF assms(1-13) words(1) assms(15)]) (rule that)
  have "run_line (command_line (lit ''echo'' # ws @ [lit ''>'', name])) m = Returns () (m\<lparr>fsys := s\<rparr>)"
    using assms(13) st(1) run_command_line[OF words(2)] by (simp add: dispatch_echo del: lit_simps)
  moreover have "run_line (command_line [lit ''cat'', name]) (m\<lparr>fsys := s\<rparr>) =
      Returns () (println '''' (emit (joined ws) (m\<lparr>fsys := t\<rparr>)))"
    using st(2) run_command_line[OF words(3)] by (simp add: dispatch_cat del: lit_simps)
  moreover have "scr (println '''' (emit (joined ws) (m\<lparr>fsys := t\<rparr>))) = screen_print (joined ws @ [10]) (scr m)"
    by (simp add: println_def screen_print_append)
  ultimately show ?thesis
    by (intro exI[of _ "m\<lparr>fsys := s\<rparr>"] exI[of _ "println '''' (emit (joined ws) (m\<lparr>fsys := t\<rparr>))"]) simp
qed

theorem echo_cat_witness:
  "\<exists>s m1 m2. demo s \<and> run_line (lit ''echo hello world > /note'') (machine_of s []) = Returns () m1 \<and>
     run_line (lit ''cat /note'') m1 = Returns () m2 \<and>
     scr m2 = screen_print (lit ''hello world'' @ [10]) blank_screen"
proof -
  obtain s where s: "demo s" "fs_ok s" "\<not> is_block_free s 0" "is_dir s (resolves s [])" "room s (resolves s [])"
    "free_inode_set s \<noteq> {}" "card (free_block_set s) = 510" "resolves s ([] @ [lit ''note'']) = NONE32"
    by (rule demo_state) (rule that)
  let ?m = "machine_of s []"
  have m: "fsys ?m = s" "16384 \<le> length (garbage ?m)" "scr ?m = blank_screen"
    "full_path (current_dir ?m) (lit ''/note'') = Some (lit ''/note'')"
    by (simp_all add: machine_of_def full_path_def fits_def)
  have w: "list_all plain_word ([lit ''hello'', lit ''world''] @ [lit ''/note''])"
    by (simp add: plain_word_def word_fits_def)
  have l: "command_line (lit ''echo'' # [lit ''hello'', lit ''world''] @ [lit ''>'', lit ''/note'']) = lit ''echo hello world > /note''"
    "command_line [lit ''cat'', lit ''/note''] = lit ''cat /note''" "joined [lit ''hello'', lit ''world''] = lit ''hello world''"
    by (simp_all add: written_def has_blank_def)
  have "3 \<le> card (free_block_set (fsys ?m))" unfolding m(1) s(7) by simp
  moreover have "\<forall>x \<in> set [lit ''hello'', lit ''world'']. 10 \<notin> set x" by simp
  ultimately show ?thesis
    using echo_cat[of ?m "lit ''/note''" "lit ''/note''" "[]" "lit ''note''" "[lit ''hello'', lit ''world'']"] s demo_path w m
    unfolding l by (simp del: lit_simps) blast
qed

text \<open>
  C11: the login reads the lines as \<open>logged_in\<close> says. It returns exactly when a typed line
  is the user name and the next one has the hash of the password; otherwise it waits for more keys.
  It never returns on a wrong name or password, and it changes nothing but the keyboard and the screen.
\<close>

theorem login_equiv:
  assumes "prompt_ok m" "password_hash (superblock (fsys m)) = hash_bytes h"
  shows "case logged_in (cstr (username (superblock (fsys m)))) h (entered 64 (chars (kbd m))) of
      None \<Rightarrow> \<exists>kb sc. do_login m = Waits (m\<lparr>kbd := kb, scr := sc\<rparr>)
    | Some rest \<Rightarrow> \<exists>kb sc. do_login m = Returns () (m\<lparr>kbd := kb, scr := sc\<rparr>) \<and> entered 64 (chars kb) = rest"
  using do_login_post[OF assms(1) refl assms(2)] by (auto simp: login_post_def split: option.splits)

text \<open>The keys of \<open>ana\<close>, Enter, \<open>pw\<close>, Enter.\<close>

definition login_keys :: bytes where
  "login_keys = [0x1E, 0x31, 0x1E, 0x1C, 0x19, 0x11, 0x1C]"

lemma login_keys_entered: "entered 64 (chars (kbd (machine_of s login_keys))) = [lit ''ana'', lit ''pw'']"
proof -
  have "chars (kbd (machine_of s login_keys)) = lit ''ana'' @ [10] @ lit ''pw'' @ [10]"
    by (simp add: machine_of_def login_keys_def chars_def key_def scancode_to_ascii_def)
  then show ?thesis by (simp add: entered.simps edited_def edit_def)
qed

theorem login_equiv_witness:
  "\<exists>s kb sc. demo s \<and> do_login (machine_of s login_keys) = Returns () (machine_of s login_keys\<lparr>kbd := kb, scr := sc\<rparr>)"
proof -
  obtain s where s: "demo s" "fsys_ok s" "sb_id (superblock s) = sb_id (fresh_superblock (lit ''eos'') (lit ''ana'') (lit ''pw''))"
    by (rule demo_fsys_ok) (rule that)
  have u: "cstr (username (superblock s)) = lit ''ana''" "password_hash (superblock s) = hash_bytes (simple_hash (lit ''pw''))"
    using sb_idD[OF s(3)] by (simp_all add: fresh_superblock_def)
  have "prompt_ok (machine_of s login_keys)" using s(2) fs_okD(2)[of s]
    by (simp add: prompt_ok_def machine_of_def screen_ok_def blank_screen_def fsys_ok_def fs_shape_def)
  from login_equiv[OF this, of "simple_hash (lit ''pw'')"] u s(1) show ?thesis
    unfolding login_keys_entered by (auto simp: machine_of_def simp del: lit_simps)
qed

text \<open>
  C9: an installation that is typed in: host name, user name, the password until it is given
  twice the same. When the user name is not empty, has no slash and is shorter than 28
  characters, it writes a file system that satisfies the invariants and is recognised at the next start,
  and on any machine that starts with that disk, typing the same user name and password logs in. When the user
  name has no slash and 28 characters or more (the prompt takes up to 63), the installation writes
  behind a buffer of 28 bytes: the call is undefined.
\<close>

theorem install_login:
  assumes "screen_ok (scr m)" "64 \<le> length (garbage m)" "fs_shape (fsys m)"
    and "entered 64 (chars (kbd m)) = hn # name # ls" "agreed ls = Some (password, rest)" "SLASH \<notin> set name"
  shows "(name \<noteq> [] \<and> length name < 28 \<longrightarrow>
      (\<exists>m1. installer_run m = Returns () m1 \<and> fs_ok (fsys m1) \<and> fst (fs_check_installed (fsys m1)) \<and>
        entered 64 (chars (kbd m1)) = rest \<and>
        (\<forall>m2. screen_ok (scr m2) \<longrightarrow> 64 \<le> length (garbage m2) \<longrightarrow> disk (fsys m2) = disk (fsys m1) \<longrightarrow>
           entered 64 (chars (kbd m2)) = [name, password] \<longrightarrow>
           (\<exists>m3. do_login (m2\<lparr>fsys := fs_init (fsys m2)\<rparr>) = Returns () m3)))) \<and>
    (28 \<le> length name \<longrightarrow> installer_run m = Undefined)"
proof (intro conjI impI)
  note fits = entered_two[OF assms(1,2,4)]
  {
    assume "28 \<le> length name"
    then have "fs_install hn name password (fsys m) = None" using fits(3,4) assms(6) by (intro long_user_overflow)
    then show "installer_run m = Undefined" using installer_run_entered[OF assms(1,2,4,5)] by simp
  }
  assume n: "name \<noteq> [] \<and> length name < 28"
  then have good: "good_user name" using fits(3) assms(6) by (simp add: good_user_def)
  obtain t where t: "fs_install hn name password (fsys m) = Some t" "fs_ok t" "fs_init t = t"
    "sb_id (superblock t) = sb_id (fresh_superblock hn name password)" "synced_sb t"
    by (rule fs_install_ok[OF assms(3) fits(1,2) good, of password]) (rule that)
  obtain kb sc where run: "installer_run m = Returns () (m\<lparr>kbd := kb, scr := sc, fsys := t\<rparr>)" "entered 64 (chars kb) = rest"
    using installer_run_entered[OF assms(1,2,4,5)] t(1) by auto
  note sb = sb_idD[OF t(4)]
  have pw: "password_hash (superblock t) = hash_bytes (simple_hash password)" "cstr (username (superblock t)) = name"
    "0 \<in> set (hostname (superblock t))" "0 \<in> set (username (superblock t))"
    using sb good by (simp_all add: fresh_superblock_def good_user_def)
  have check: "fst (fs_check_installed t)" using checked_fresh[OF fs_okD(2)[OF t(2)] t(5,4)] by simp
  have login: "\<exists>m3. do_login (m2\<lparr>fsys := fs_init (fsys m2)\<rparr>) = Returns () m3"
    if "screen_ok (scr m2)" "64 \<le> length (garbage m2)" "disk (fsys m2) = disk t"
      "entered 64 (chars (kbd m2)) = [name, password]" for m2
  proof -
    let ?m = "m2\<lparr>fsys := fs_init (fsys m2)\<rparr>"
    have s: "superblock (fsys ?m) = superblock t" using fs_init_cong(1)[OF that(3)] t(3) by simp
    have "prompt_ok ?m" using that(1,2) s pw fs_okD(2)[OF t(2)] by (simp add: prompt_ok_def fs_shape_def)
    from do_login_post[OF this _ _, of name "simple_hash password"] s pw that(4) show ?thesis
      by (auto simp: login_post_def)
  qed
  with run check t(2) show "\<exists>m1. installer_run m = Returns () m1 \<and> fs_ok (fsys m1) \<and> fst (fs_check_installed (fsys m1)) \<and>
        entered 64 (chars (kbd m1)) = rest \<and>
        (\<forall>m2. screen_ok (scr m2) \<longrightarrow> 64 \<le> length (garbage m2) \<longrightarrow> disk (fsys m2) = disk (fsys m1) \<longrightarrow>
           entered 64 (chars (kbd m2)) = [name, password] \<longrightarrow>
           (\<exists>m3. do_login (m2\<lparr>fsys := fs_init (fsys m2)\<rparr>) = Returns () m3))"
    by auto
qed

text \<open>The keys of the host name \<open>eos\<close>, the user name \<open>ana\<close> and twice the password \<open>pw\<close>.\<close>

theorem install_login_witness:
  "\<exists>m1 m3. installer_run (machine_of blank_fs ([0x12, 0x18, 0x1F, 0x1C] @ login_keys @ [0x19, 0x11, 0x1C])) = Returns () m1 \<and>
     fs_ok (fsys m1) \<and> do_login (machine_of (fs_init (fsys m1)) login_keys) = Returns () m3 \<and>
     installer_run (machine_of blank_fs ([0x12, 0x1C] @ replicate 28 0x1E @ [0x1C, 0x19, 0x1C, 0x19, 0x1C])) = Undefined"
proof -
  let ?m = "machine_of blank_fs ([0x12, 0x18, 0x1F, 0x1C] @ login_keys @ [0x19, 0x11, 0x1C])"
  have "chars (kbd ?m) = lit ''eos'' @ [10] @ lit ''ana'' @ [10] @ lit ''pw'' @ [10] @ lit ''pw'' @ [10]"
    by (simp add: machine_of_def login_keys_def chars_def key_def scancode_to_ascii_def)
  then have e: "entered 64 (chars (kbd ?m)) = lit ''eos'' # lit ''ana'' # [lit ''pw'', lit ''pw'']"
    by (simp add: entered.simps edited_def edit_def)
  have m: "screen_ok (scr (machine_of s ks))" "64 \<le> length (garbage (machine_of s ks))" for s ks
    by (simp_all add: machine_of_def screen_ok_def blank_screen_def)
  have "fs_shape (fsys ?m)" using blank_shape by (simp add: machine_of_def)
  then obtain m1 where m1: "installer_run ?m = Returns () m1" "fs_ok (fsys m1)"
    "\<And>m2. screen_ok (scr m2) \<Longrightarrow> 64 \<le> length (garbage m2) \<Longrightarrow> disk (fsys m2) = disk (fsys m1) \<Longrightarrow>
      entered 64 (chars (kbd m2)) = [lit ''ana'', lit ''pw''] \<Longrightarrow>
      \<exists>m3. do_login (m2\<lparr>fsys := fs_init (fsys m2)\<rparr>) = Returns () m3"
    using install_login[OF m _ e, of "lit ''pw''" "[]"] by (auto simp: agreed.simps)
  let ?l = "machine_of blank_fs ([0x12, 0x1C] @ replicate 28 0x1E @ [0x1C, 0x19, 0x1C, 0x19, 0x1C])"
  have r: "replicate 28 z = [z, z, z, z, z, z, z, z, z, z, z, z, z, z, z, z, z, z, z, z, z, z, z, z, z, z, z, z]" for z :: u8 by (simp add: eval_nat_numeral)
  have "chars (kbd ?l) = lit ''e'' @ [10] @ replicate 28 97 @ [10] @ lit ''p'' @ [10] @ lit ''p'' @ [10]"
    unfolding r by (simp add: machine_of_def chars_def key_def scancode_to_ascii_def)
  then have "entered 64 (chars (kbd ?l)) = lit ''e'' # replicate 28 97 # [lit ''p'', lit ''p'']"
    unfolding r by (simp add: entered.simps edited_def edit_def)
  then have l: "installer_run ?l = Undefined"
    using install_login[OF m, of blank_fs "[0x12, 0x1C] @ replicate 28 0x1E @ [0x1C, 0x19, 0x1C, 0x19, 0x1C]"] blank_shape
    by (auto simp: machine_of_def)
  have "machine_of (fsys m1) login_keys\<lparr>fsys := fs_init (fsys (machine_of (fsys m1) login_keys))\<rparr> =
      machine_of (fs_init (fsys m1)) login_keys" by (simp add: machine_of_def)
  with m1(1,2) m1(3)[OF m _ login_keys_entered] l show ?thesis by (auto simp: machine_of_def)
qed

end
