(* ===== verification/BootProps.thy ===== *)
theory BootProps
  imports Login NetDns
begin

text \<open>
  The boot sequence: it never returns, the shell of an installed system is reached only through the
  login, and the menu after the installation chooses what the keys say.
\<close>

section \<open>Starting the devices\<close>

text \<open>Starting the devices leaves the disk, the keyboard and the memory of the shell alone.\<close>

definition same_user :: "machine \<Rightarrow> machine \<Rightarrow> bool" where
  "same_user m n \<longleftrightarrow> fsys n = fsys m \<and> kbd n = kbd m \<and> garbage n = garbage m \<and> pending n = pending m"

lemma same_user_steps [simp]:
  "same_user m m"
  "same_user m n \<Longrightarrow> same_user m (emit s n)" "same_user m n \<Longrightarrow> same_user m (print t n)"
  "same_user m n \<Longrightarrow> same_user m (println t n)" "same_user m n \<Longrightarrow> same_user m (on_net f n)"
  "same_user m n \<Longrightarrow> same_user m (n\<lparr>scr := sc\<rparr>)" "same_user m n \<Longrightarrow> same_user m (n\<lparr>rtc := ck\<rparr>)"
  "same_user m n \<Longrightarrow> same_user m (n\<lparr>pci := c\<rparr>)" "same_user m n \<Longrightarrow> same_user m (n\<lparr>nets := st\<rparr>)"
  by (simp_all add: same_user_def on_net_def)

lemma same_user_print_mac [simp]: "same_user m n \<Longrightarrow> same_user m (print_mac bs n)"
  by (induction bs arbitrary: n) (simp_all add: Let_def)

lemma same_user_network_init:
  "same_user m n \<Longrightarrow> (\<exists>n1. network_init n = Returns () n1 \<and> same_user m n1) \<or> (\<exists>n1. network_init n = Waits n1)"
  by (auto simp: network_init_def Let_def split: option.split)

lemma same_user_start:
  "(\<exists>n. start_devices m = Returns () n \<and> same_user m n) \<or> (\<exists>n. start_devices m = Waits n)"
proof -
  have "same_user m n \<Longrightarrow> same_user m (start_stack n)" for n by (simp add: start_stack_def Let_def)
  then show ?thesis unfolding start_devices_def Let_def
    by (rule_tac same_user_network_init[where m = m, THEN disjE]) auto
qed

section \<open>The boot sequence does not return\<close>

lemma greet_ends: "greet hn m \<noteq> Returns u m1"
  by (simp add: greet_def Let_def shell_run_ends split: option.split)

lemma kernel_main_ends: "kernel_main m \<noteq> Returns u m1"
proof -
  have "login_screen n \<noteq> Returns u m1" for n by (auto simp: login_screen_def Let_def greet_ends split: option.split)
  moreover have "first_boot n \<noteq> Returns u m1" for n by (auto simp: first_boot_def shutdown_system_def)
  ultimately show ?thesis by (auto simp: kernel_main_def Let_def split: prod.splits if_splits)
qed

section \<open>The login screen\<close>

text \<open>The scancodes that the login sees: those waiting when the kernel empties the controller are gone.\<close>

definition login_typed :: "machine \<Rightarrow> bytes" where
  "login_typed m = typed False (case pending m of [] \<Rightarrow> scancodes (kbd m) | k # ks \<Rightarrow> drop (min k 50) (scancodes (kbd m)))"

lemma login_screen_waits:
  assumes "64 \<le> length (garbage m)" "superblock_shape sb" "superblock (fs_init (fsys m)) = sb"
    and "0 \<in> set (hostname sb)" "0 \<in> set (username sb)" "password_hash sb = hash_bytes h"
    and "logged_in (cstr (username sb)) h (entered 64 (login_typed m)) = None"
  shows "\<exists>m1. login_screen m = Waits m1"
proof -
  let ?m1 = "m\<lparr>kbd := keyboard_init (kbd m), fsys := fs_init (fsys m)\<rparr>"
  obtain hn where hn: "host_name ?m1 = Some hn" using host_name_eq[of ?m1] assms(1-4) by simp
  let ?m2 = "color 0x0F 0x00 (drain 50 (?m1\<lparr>scr := screen_init (screen_clear (scr ?m1))\<rparr>))"
  let ?m3 = "print '' '' (emit hn ?m2)"
  have d: "fsys ?m2 = fs_init (fsys m)" "garbage ?m2 = garbage m" "chars (kbd ?m2) = login_typed m"
    by (simp_all add: drain_def login_typed_def chars_def keyboard_init_def split: list.split)
  have "screen_ok (scr ?m2)"
    by (rule drawnD(11)[OF drawn_once(4)])
      (simp add: drain_def screen_init_def screen_ok_def split: list.split)
  then have "screen_ok (scr ?m3)" using drawnD(11)[of ?m2 ?m3] by simp
  then have "prompt_ok ?m3" using assms(1-5) d(1,2) by (simp add: prompt_ok_def)
  then have "login_post (cstr (username sb)) h ?m3 (do_login ?m3)"
    using assms(3,6) d(1) by (intro do_login_post) simp_all
  with assms(7) d(3) have "\<exists>m1. do_login ?m3 = Waits m1" by (auto simp: login_post_def)
  with hn show ?thesis by (auto simp: login_screen_def Let_def)
qed

section \<open>The menu\<close>

text \<open>
  What the menu makes of the scancodes: left and up choose 0, right and down choose 1, key releases
  count for nothing, and Enter ends the choice once its release has come.
\<close>

fun chosen :: "nat \<Rightarrow> bytes \<Rightarrow> (nat \<times> bytes) option" where
  "chosen sel [] = None"
| "chosen sel (k # ks) =
     (if k = 0x1C then
        (if 0x9C \<in> set ks then Some (sel, tl (dropWhile (\<lambda>x. x \<noteq> 0x9C) ks)) else None)
      else chosen (if k \<in> {0x4B, 0x48} then 0 else if k \<in> {0x4D, 0x50} then 1 else sel) ks)"

text \<open>The menu has rows 20 to 27, the screen rows 0 to 24: the last rows are printed where the cursor is.\<close>

lemma menu_rows_ignored: "row 25 m = m" "row 26 m = m" "row 27 m = m"
  by (simp_all add: row_def screen_set_row_def)

definition press :: "machine \<Rightarrow> bytes \<Rightarrow> machine" where
  "press m ks = m\<lparr>kbd := (kbd m)\<lparr>scancodes := ks\<rparr>\<rparr>"

lemma press_simps [simp]:
  "scancodes (kbd (press m ks)) = ks" "press (press m ks) ls = press m ls" "fsys (press m ks) = fsys m" "power_outs (press m ks) = power_outs m"
  by (simp_all add: press_def)

lemma wait_release_spec:
  "if 0x9C \<in> set (scancodes (kbd m))
   then wait_release m = Returns () (press m (tl (dropWhile (\<lambda>x. x \<noteq> 0x9C) (scancodes (kbd m)))))
   else \<exists>m1. wait_release m = Waits m1"
proof (induction "scancodes (kbd m)" arbitrary: m)
  case Nil
  then show ?case by (simp add: wait_release.simps[of m] read_keyboard_direct_def)
next
  case (Cons k ks)
  have r: "read_keyboard_direct m = Returns k (press m ks)" using Cons(2)[symmetric] by (simp add: read_keyboard_direct_def press_def)
  from Cons(1)[of "press m ks"] r Cons(2)[symmetric] show ?case by (auto simp: wait_release.simps[of m])
qed

lemma menu_items_keep [simp]: "fsys (menu_items sel m) = fsys m" "power_outs (menu_items sel m) = power_outs m"
  by (simp_all add: menu_items_def menu_item_def)

definition menu_post :: "machine \<Rightarrow> (nat \<times> bytes) option \<Rightarrow> nat outcome \<Rightarrow> bool" where
  "menu_post m ch r \<longleftrightarrow> (case ch of
       None \<Rightarrow> \<exists>m1. r = Waits m1
     | Some (c, rest) \<Rightarrow> \<exists>m1. r = Returns c m1 \<and> fsys m1 = fsys m \<and> power_outs m1 = power_outs m \<and> scancodes (kbd m1) = rest)"

lemma menu_loop_spec: "menu_post m (chosen sel (scancodes (kbd m))) (menu_loop sel m)"
proof (induction "scancodes (kbd m)" arbitrary: sel m)
  case Nil
  then show ?case by (simp add: menu_loop.simps[of sel m] read_keyboard_direct_def menu_post_def)
next
  case (Cons k ks)
  let ?n = "press (menu_items sel m) ks"
  have r: "read_keyboard_direct (menu_items sel m) = Returns k ?n"
    using Cons(2)[symmetric] by (simp add: read_keyboard_direct_def press_def)
  show ?case
  proof (cases "k = 0x1C")
    case True
    then show ?thesis using wait_release_spec[of ?n] r Cons(2)[symmetric]
      by (auto simp: menu_loop.simps[of sel m] menu_post_def split: if_splits)
  next
    case False
    let ?s = "if k \<in> {0x4B, 0x48} then 0 else if k \<in> {0x4D, 0x50} then 1 else sel"
    have "menu_loop sel m = menu_loop ?s ?n" using r False by (auto simp: menu_loop.simps[of sel m])
    moreover have "chosen sel (scancodes (kbd m)) = chosen ?s ks" unfolding Cons(2)[symmetric] chosen.simps using False by (simp only: if_False)
    moreover have "menu_post m ch r \<longleftrightarrow> menu_post ?n ch r" for ch r by (simp add: menu_post_def split: option.split)
    ultimately show ?thesis using Cons(1)[of ?n ?s] by simp
  qed
qed

section \<open>Properties\<close>

text \<open>
  C10: on an installed system the kernel does not get past the login as long as no
  typed line is the user name followed by a line with the hash of the password: it waits for more
  keys for ever. And \<open>kernel_main\<close> never returns at all.
\<close>

theorem no_shell_without_login:
  assumes "64 \<le> length (garbage m)" "fst (fs_check_installed (fsys m))" "superblock_shape (superblock (fs_init (fsys m)))"
    and "0 \<in> set (hostname (superblock (fs_init (fsys m))))" "0 \<in> set (username (superblock (fs_init (fsys m))))"
    and "password_hash (superblock (fs_init (fsys m))) = hash_bytes h"
    and "logged_in (cstr (username (superblock (fs_init (fsys m))))) h (entered 64 (login_typed m)) = None"
  shows "(\<exists>m1. kernel_main m = Waits m1) \<and> kernel_main n \<noteq> Returns u m2"
proof -
  have ends: "kernel_main n \<noteq> Returns u m2" by (rule kernel_main_ends)
  from same_user_start[of m] show ?thesis
  proof (elim disjE exE conjE)
    fix n1
    assume "start_devices m = Waits n1"
    with ends show ?thesis by (simp add: kernel_main_def)
  next
  fix n1
  assume start: "start_devices m = Returns () n1" and "same_user m n1"
  then have d: "fsys n1 = fsys m" "kbd n1 = kbd m" "garbage n1 = garbage m" "pending n1 = pending m"
    by (simp_all add: same_user_def)
  obtain s where s: "fs_check_installed (fsys m) = (True, s)" using assms(2) by (cases "fs_check_installed (fsys m)") auto
  then have "disk s = disk (fsys m)" by (auto simp: fs_check_installed_def load_superblock_def Let_def)
  let ?m = "n1\<lparr>fsys := s\<rparr>"
  have sb: "superblock (fs_init (fsys ?m)) = superblock (fs_init (fsys m))"
    using fs_init_cong(1)[OF \<open>disk s = disk (fsys m)\<close>] by simp
  have "login_typed ?m = login_typed m" by (simp add: login_typed_def d split: list.split)
  then have "\<exists>m1. login_screen ?m = Waits m1"
    using assms(1,3-7) d(3) by (intro login_screen_waits[OF _ _ sb]) simp_all
  then show ?thesis using start d(1) s ends by (simp add: kernel_main_def)
  qed
qed

text \<open>The keys of \<open>ana\<close>, Enter, \<open>ws\<close>, Enter.\<close>

theorem no_shell_without_login_witness:
  "\<exists>t m1. fs_install (lit ''eos'') (lit ''ana'') (lit ''pw'') blank_fs = Some t \<and>
     kernel_main (machine_of t [0x1E, 0x31, 0x1E, 0x1C, 0x11, 0x1F, 0x1C]) = Waits m1"
proof -
  obtain t where t: "fs_install (lit ''eos'') (lit ''ana'') (lit ''pw'') blank_fs = Some t" "fs_ok t" "fs_init t = t"
    "sb_id (superblock t) = sb_id (fresh_superblock (lit ''eos'') (lit ''ana'') (lit ''pw''))" "synced_sb t"
    by (rule fs_install_ok[OF blank_shape demo_names, of "lit ''pw''"]) (rule that)
  note sb = sb_idD[OF t(4)]
  let ?m = "machine_of t [0x1E, 0x31, 0x1E, 0x1C, 0x11, 0x1F, 0x1C]"
  have m: "fsys ?m = t" "64 \<le> length (garbage ?m)" by (simp_all add: machine_of_def)
  have s: "superblock_shape (superblock t)" using fs_okD(2)[OF t(2)] by (simp add: fs_shape_def)
  have h: "0 \<in> set (hostname (superblock t))" "0 \<in> set (username (superblock t))"
    "password_hash (superblock t) = hash_bytes (simple_hash (lit ''pw''))" "cstr (username (superblock t)) = lit ''ana''"
    using sb by (simp_all add: fresh_superblock_def)
  have "login_typed ?m = lit ''ana'' @ [10] @ lit ''ws'' @ [10]"
    by (simp add: machine_of_def login_typed_def key_def scancode_to_ascii_def)
  then have "entered 64 (login_typed ?m) = [lit ''ana'', lit ''ws'']" by (simp add: entered.simps edited_def edit_def)
  moreover have "simple_hash (lit ''ws'') \<noteq> simple_hash (lit ''pw'')" by (simp add: simple_hash_def)
  ultimately have "logged_in (lit ''ana'') (simple_hash (lit ''pw'')) (entered 64 (login_typed ?m)) = None"
    by (simp del: lit_simps)
  then show ?thesis
    using no_shell_without_login[of ?m "simple_hash (lit ''pw'')" ?m "()" ?m] m s h t(1,3) checked_fresh[OF fs_okD(2)[OF t(2)] t(5,4)]
    by auto
qed

lemma rtl8139_init_found:
  assumes "reset_ends cmds"
  obtains st1 where "rtl8139_init bar cmds mac st = Some st1" "initialized st1" "mac_address st1 = take 6 mac"
    "tx_buffer st1 = tx_buffer st" "arp_cache st1 = arp_cache st" "udp_handlers st1 = udp_handlers st"
    "stack_rx st1 = stack_rx st" "polls st1 = polls st" "rx_offset st1 = 0"
  using assms that by (auto simp: rtl8139_init_def rtl8139_reset_def log_def)

lemma network_init_found:
  assumes "pci_find_device (pci m) 0x10EC 0x8139 \<noteq> None" "reset_ends (resets m)"
  obtains n where "network_init m = Returns () n" "initialized (nets n)" "mac_address (nets n) = take 6 (idr m)"
    "tx_buffer (nets n) = tx_buffer (nets m)" "arp_cache (nets n) = arp_cache (nets m)"
    "udp_handlers (nets n) = udp_handlers (nets m)" "stack_rx (nets n) = stack_rx (nets m)"
    "polls (nets n) = polls (nets m)" "rx_offset (nets n) = 0"
proof -
  obtain nic where nic: "pci_find_device (pci m) 0x10EC 0x8139 = Some nic" using assms(1) by blast
  obtain st where st: "rtl8139_init (bar0 nic) (resets m) (idr m) (nets m) = Some st" "initialized st"
    "mac_address st = take 6 (idr m)" "tx_buffer st = tx_buffer (nets m)" "arp_cache st = arp_cache (nets m)"
    "udp_handlers st = udp_handlers (nets m)" "stack_rx st = stack_rx (nets m)" "polls st = polls (nets m)" "rx_offset st = 0"
    by (rule rtl8139_init_found[OF assms(2)])
  have "nets (print_mac bs n) = nets n" for bs n using drawnD(2)[OF drawn_print_mac[OF drawn_refl]] .
  with nic st that show ?thesis by (simp add: network_init_def Let_def)
qed

lemma start_stack_nets:
  assumes "initialized (nets m)"
  shows "nets (start_stack m) = dns_set_server 0x0A000203 (network_set_ip 0x0A00020F
    (ntp_init (dns_init (udp_init (icmp_init (ip_init (arp_init (eth_init (nets m)))))))))"
proof -
  have "initialized (udp_register_handler p c st) = initialized st" for p c st
    by (simp add: udp_register_handler_def split: option.split)
  with assms show ?thesis
    by (simp add: start_stack_def Let_def network_is_ready_def on_net_def ntp_init_def dns_init_def udp_init_def icmp_init_def
        ip_init_def arp_init_def eth_init_def)
qed

lemma register_keeps:
  "initialized (udp_register_handler p c st) = initialized st" "tx_buffer (udp_register_handler p c st) = tx_buffer st"
  "local_mac (udp_register_handler p c st) = local_mac st" "arp_cache (udp_register_handler p c st) = arp_cache st"
  "stack_rx (udp_register_handler p c st) = stack_rx st" "polls (udp_register_handler p c st) = polls st"
  "rx_offset (udp_register_handler p c st) = rx_offset st"
  by (simp_all add: udp_register_handler_def split: option.split)

text \<open>
  C15: when the bus has an RTL8139 that comes out of its reset, the kernel ends the start of its devices with a
  network stack that satisfies the invariants that the properties of the stack assume: the address is 10.0.2.15,
  the DNS server 10.0.2.3, the card's own address is known, the ARP cache is empty, and the handlers of
  ports 53 and 123 are registered. The state satisfies \<open>net_safe\<close>, from which on the stack stays in its memory, exactly
  when the card fills the ring as \<open>card_ok\<close> says of a driver at its start.
\<close>

theorem boot_network:
  assumes "pci_find_device (pci m) 0x10EC 0x8139 \<noteq> None" "reset_ends (resets m)" "length (idr m) = 6"
    and "length (arp_cache (nets m)) = 32" "length (tx_buffer (nets m)) = 2048" "length (udp_handlers (nets m)) = 8"
    and "length (stack_rx (nets m)) = 1518"
  shows "\<exists>n. start_devices m = Returns () n \<and> net_ok (nets n) \<and> (net_safe (nets n) \<longleftrightarrow> card_ok 0 (polls (nets m))) \<and> ip_address (nets n) = 0x0A00020F \<and>
    dns_server (nets n) = 0x0A000203 \<and> local_mac (nets n) = idr m \<and> arp_resolve ip (nets n) = None \<and>
    udp_handlers (nets n) = [\<lparr>uh_port = 53, uh_callback = Some Dns_response_handler\<rparr>,
      \<lparr>uh_port = 123, uh_callback = Some Ntp_response_handler\<rparr>] @ replicate 6 \<lparr>uh_port = 0, uh_callback = None\<rparr>"
proof -
  let ?m = "println ''[PCI] PCI bus initialized'' (println ''[RTC] Real Time Clock initialized'' (println '''' (println ''================''
    (println ''EphemeralOS v1.0'' (m\<lparr>scr := screen_clear (screen_init (scr m))\<rparr>)))\<lparr>rtc := rtc_init (rtc m)\<rparr>))"
  have p: "pci_find_device (pci ?m) 0x10EC 0x8139 \<noteq> None" "reset_ends (resets ?m)"
    using assms(1,2) by (simp_all add: emit_def println_def)
  obtain n1 where n1: "network_init ?m = Returns () n1" "initialized (nets n1)" "mac_address (nets n1) = take 6 (idr ?m)"
    "tx_buffer (nets n1) = tx_buffer (nets ?m)" "arp_cache (nets n1) = arp_cache (nets ?m)"
    "udp_handlers (nets n1) = udp_handlers (nets ?m)" "stack_rx (nets n1) = stack_rx (nets ?m)"
    "polls (nets n1) = polls (nets ?m)" "rx_offset (nets n1) = 0" by (rule network_init_found[OF p])
  let ?n = "start_stack n1"
  have "start_devices m = Returns () ?n" using n1(1) by (simp add: start_devices_def Let_def pci_init_def)
  moreover note st = start_stack_nets[OF n1(2)]
  have "udp_handlers (nets ?n) = [\<lparr>uh_port = 53, uh_callback = Some Dns_response_handler\<rparr>,
      \<lparr>uh_port = 123, uh_callback = Some Ntp_response_handler\<rparr>] @ replicate 6 \<lparr>uh_port = 0, uh_callback = None\<rparr>"
    using boot_handlers[of "icmp_init (ip_init (arp_init (eth_init (nets n1))))"] n1(6) assms(6)
    by (simp add: st dns_set_server_def network_set_ip_def icmp_init_def ip_init_def arp_init_def eth_init_def)
  moreover have c: "initialized (nets ?n)" "tx_buffer (nets ?n) = tx_buffer (nets m)" "local_mac (nets ?n) = idr m"
    "arp_cache (nets ?n) = map (\<lambda>e. e\<lparr>ae_valid := 0\<rparr>) (arp_cache (nets m))" "ip_address (nets ?n) = 0x0A00020F"
    "dns_server (nets ?n) = 0x0A000203" "stack_rx (nets ?n) = stack_rx (nets m)" "polls (nets ?n) = polls (nets m)"
    "rx_offset (nets ?n) = 0"
    using n1(2-5,7-9) assms(3)
    by (simp_all add: st dns_set_server_def network_set_ip_def ntp_init_def dns_init_def udp_init_def icmp_init_def
        ip_init_def arp_init_def eth_init_def network_get_mac_def register_keeps)
  moreover have ok: "net_ok (nets ?n)" "arp_resolve ip (nets ?n) = None"
    using c(1-4) assms(3-5) by (auto simp: net_ok_def arp_ok_def arp_resolve_def find_None_iff)
  moreover have "net_safe (nets ?n) \<longleftrightarrow> card_ok 0 (polls (nets m))"
    using ok(1) c(7-9) assms(7) by (simp add: net_safe_def)
  ultimately show ?thesis by blast
qed

theorem boot_network_witness:
  "\<exists>n. start_devices (machine_of blank_fs []\<lparr>pci := (\<lambda>_. 0x813910EC), resets := [0x10, 0]\<rparr>) = Returns () n \<and>
     net_safe (nets n) \<and> arp_resolve 0x0A000202 (nets n) = None"
proof -
  let ?m = "machine_of blank_fs []\<lparr>pci := (\<lambda>_. 0x813910EC), resets := [0x10, 0]\<rparr>"
  have "(0, 0, 0) \<in> set pci_functions" by (simp add: on_bus_functions on_bus_def)
  moreover have "vendor_of (\<lambda>_. 0x813910EC) (0, 0, 0) = 0x10EC" "device_of (\<lambda>_. 0x813910EC) (0, 0, 0) = 0x8139"
    by (simp_all add: vendor_of_def device_of_def pci_read_config_def)
  ultimately have "pci_find_device (pci ?m) 0x10EC 0x8139 \<noteq> None"
    by (auto simp: pci_find_device_def find_None_iff)
  moreover have "reset_ends (resets ?m)" "length (idr ?m) = 6" "length (arp_cache (nets ?m)) = 32"
    "length (tx_buffer (nets ?m)) = 2048" "length (udp_handlers (nets ?m)) = 8" "length (stack_rx (nets ?m)) = 1518"
    and o: "card_ok 0 (polls (nets ?m))"
    by (simp_all add: machine_of_def host_a_def host_def)
  ultimately show ?thesis using boot_network[of ?m, where ip = "0x0A000202"] o by blast
qed

text \<open>
  C14: when the installation ends, the menu turns the keys into a choice as \<open>chosen\<close> says.
  For 1 the kernel writes 0x2000 to port 0x2000 and executes \<open>int 0x15\<close> with the registers of the APM call for
  switching off; for 0 it clears the screen, prints \<open>Rebooting...\<close> and executes \<open>int 0x19\<close>, without a port
  write. Up to there the file system is the one that the installer left. Without Enter and its release the kernel
  waits. When the installation does not end, neither does the first boot. What the machine does at the
  interrupt is not part of the model.
\<close>

theorem first_boot_ends:
  "case installer_run m of
     Returns u m1 \<Rightarrow> (case chosen 0 (scancodes (kbd (drain 100 m1))) of
         None \<Rightarrow> \<exists>m2. first_boot m = Waits m2
       | Some (c, rest) \<Rightarrow> \<exists>m2. fsys m2 = fsys m1 \<and>
           (if c = 1 then first_boot m = Interrupts 0x15 [0x5307, 1, 3] m2 \<and> power_outs m2 = power_outs m1 @ [Outw 0x2000 0x2000]
            else first_boot m = Interrupts 0x19 [] m2 \<and> power_outs m2 = power_outs m1 \<and>
              (\<exists>sc. scr m2 = screen_print (lit ''Rebooting...'' @ [10]) (screen_clear sc))))
   | r \<Rightarrow> first_boot m = r"
proof (cases "installer_run m")
  case (Returns u m1)
  let ?m = "color 0x0F 0x00 (println ''Installation complete!'' (color 0x0A 0x00 (println '''' m1)))"
  let ?n = "menu_frame (drain 100 ?m)"
  have n: "scancodes (kbd ?n) = scancodes (kbd (drain 100 m1))" "fsys ?n = fsys m1" "power_outs ?n = power_outs m1"
    by (simp_all add: menu_frame_def drain_def split: list.split)
  show ?thesis
  proof (cases "chosen 0 (scancodes (kbd (drain 100 m1)))")
    case None
    then show ?thesis using menu_loop_spec[of ?n 0] Returns n
      by (auto simp: first_boot_def show_continue_menu_def menu_post_def)
  next
    case (Some cr)
    obtain c rest where cr: "cr = (c, rest)" by fastforce
    then obtain m2 where "show_continue_menu ?m = Returns c m2" "fsys m2 = fsys m1" "power_outs m2 = power_outs m1"
      using menu_loop_spec[of ?n 0] Some n by (auto simp: show_continue_menu_def menu_post_def)
    then show ?thesis using Some cr Returns
      by (cases "c = 1") (auto simp: first_boot_def shutdown_system_def out_port_def println_def emit_def Let_def simp del: lit_simps)
  qed
qed (simp_all add: first_boot_def)

end
