(* ===== verification/IpText.thy ===== *)
theory IpText
  imports Session
begin

text \<open>
  Numbers as text: \<open>print_ip\<close> of \<open>bin/ping.c\<close> and \<open>parse_ip\<close> of \<open>net/dns.c\<close> are inverse to each
  other, and so are \<open>int_to_str\<close> of \<open>bin/date.c\<close> and \<open>atoi\<close>.
\<close>

section \<open>Digits\<close>

lemma rev_digits: "0 < n \<Longrightarrow> rev (digits n) = rev (digits (n div 10)) @ [of_nat (48 + n mod 10)]"
  by (subst digits.simps) simp

text \<open>The character of a digit.\<close>

lemma digit_char:
  assumes "d < 10"
  shows "(of_nat (48 + d) :: u8) \<noteq> DOT" "48 \<le> (of_nat (48 + d) :: u8)" "(of_nat (48 + d) :: u8) \<le> 57"
    "sint (of_nat (48 + d) :: u8) - 48 = int d" "uint (of_nat (48 + d) :: u8) - 48 = int d"
    "(of_nat (48 + d) :: u8) \<noteq> 32" "(of_nat (48 + d) :: u8) \<notin> {43, 45}"
proof -
  from assms have "d = 0 \<or> d = 1 \<or> d = 2 \<or> d = 3 \<or> d = 4 \<or> d = 5 \<or> d = 6 \<or> d = 7 \<or> d = 8 \<or> d = 9" by arith
  then show "(of_nat (48 + d) :: u8) \<noteq> DOT" "48 \<le> (of_nat (48 + d) :: u8)" "(of_nat (48 + d) :: u8) \<le> 57"
    "sint (of_nat (48 + d) :: u8) - 48 = int d" "uint (of_nat (48 + d) :: u8) - 48 = int d"
    "(of_nat (48 + d) :: u8) \<noteq> 32" "(of_nat (48 + d) :: u8) \<notin> {43, 45}" by auto
qed

section \<open>Addresses\<close>

lemma parse_digits:
  "n < 256 \<Longrightarrow> parse_ip_loop (rev (digits n) @ rest) ip 0 sh = parse_ip_loop rest ip (int n) sh"
proof (induction n arbitrary: rest rule: less_induct)
  case (less n)
  show ?case
  proof (cases "n = 0")
    case False
    let ?c = "of_nat (48 + n mod 10) :: u8"
    have c: "?c \<noteq> DOT" "sint ?c - 48 = int (n mod 10)" by (rule digit_char; simp)+
    have "parse_ip_loop (rev (digits n) @ rest) ip 0 sh = parse_ip_loop (?c # rest) ip (int (n div 10)) sh"
      using less.IH[of "n div 10" "?c # rest"] less.prems False by (simp add: rev_digits)
    also have "int (n div 10 * 10 + n mod 10) = int n" by simp
    then have "int (n div 10) * 10 + int (n mod 10) = int n" by (simp only: of_nat_add of_nat_mult of_nat_numeral)
    then have "int32 (int (n div 10) * 10) = Some (int (n div 10) * 10)" "int32 (int (n div 10) * 10 + int (n mod 10)) = Some (int n)"
      using less.prems by (simp_all add: int32_def)
    then have "parse_ip_loop (?c # rest) ip (int (n div 10)) sh = parse_ip_loop rest ip (int n) sh"
      using c by simp
    finally show ?thesis .
  qed (simp add: digits.simps)
qed

lemma parse_octet: "parse_ip_loop (octet_string b @ rest) ip 0 sh = parse_ip_loop rest ip (uint b) sh"
proof -
  have "unat b < 256" using unsigned_less[of b, where ?'a = nat] by simp
  from parse_digits[OF this, of rest ip sh] show ?thesis
    by (cases "b = 0") (simp_all add: octet_string_def int32_def)
qed

lemma is_ip_digits:
  "n < 256 \<Longrightarrow> is_ip_loop (rev (digits n) @ rest) k d = is_ip_loop rest k (d + length (digits n))"
proof (induction n arbitrary: rest d rule: less_induct)
  case (less n)
  show ?case
  proof (cases "n = 0")
    case False
    let ?c = "of_nat (48 + n mod 10) :: u8"
    have "?c \<noteq> DOT" "48 \<le> ?c" "?c \<le> 57" by (rule digit_char; simp)+
    then have "is_ip_loop (?c # rest) k e = is_ip_loop rest k (e + 1)" for e by simp
    moreover have "length (digits n) = Suc (length (digits (n div 10)))" using False by (subst digits.simps) simp
    ultimately show ?thesis using less.IH[of "n div 10" "?c # rest" d] less.prems False by (simp add: rev_digits)
  qed (simp add: digits.simps)
qed

lemma is_ip_octet:
  "\<exists>d. 0 < d \<and> d \<le> 3 \<and> is_ip_loop (octet_string b @ rest) k 0 = is_ip_loop rest k d"
proof -
  have n: "unat b < 256" "unat b < 10 ^ 3" using unsigned_less[of b, where ?'a = nat] by simp_all
  show ?thesis
  proof (cases "b = 0")
    case False
    then have "0 < unat b" by (simp add: unat_gt_0)
    then have "0 < length (digits (unat b))" by (subst digits.simps) simp
    with False is_ip_digits[OF n(1), of rest k 0] length_digits[OF n(2)] show ?thesis by (auto simp: octet_string_def)
  qed (auto simp: octet_string_def intro!: exI[of _ 1])
qed

lemma is_ip_text: "is_ip_address (ip_text ip)"
proof -
  have step: "is_ip_loop (octet_string b @ DOT # rest) k 0 = is_ip_loop rest (k + 1) 0" for b rest k
    using is_ip_octet[of b "DOT # rest" k] by auto
  have "is_ip_loop (octet_string b) (Suc (Suc (Suc 0))) 0" for b using is_ip_octet[of b "[]" 3] by (auto simp: eval_nat_numeral)
  then show ?thesis by (simp add: is_ip_address_def ip_text_def step)
qed

lemma ip_octets:
  "((push_bit 24 (ucast (ucast (drop_bit 24 ip AND 0xFF) :: u8)) OR push_bit 16 (ucast (ucast (drop_bit 16 ip AND 0xFF) :: u8))) OR
    push_bit 8 (ucast (ucast (drop_bit 8 ip AND 0xFF) :: u8))) OR ucast (ucast (ip AND 0xFF) :: u8) = (ip :: u32)"
proof (rule bit_word_eqI)
  fix n
  assume "n < LENGTH(32)"
  then have n: "n < 32" by simp
  have m: "0xFF = (mask 8 :: u32)" by (simp add: mask_eq_exp_minus_1)
  show "bit (((push_bit 24 (ucast (ucast (drop_bit 24 ip AND 0xFF) :: u8)) OR
      push_bit 16 (ucast (ucast (drop_bit 16 ip AND 0xFF) :: u8))) OR
      push_bit 8 (ucast (ucast (drop_bit 8 ip AND 0xFF) :: u8))) OR ucast (ucast (ip AND 0xFF) :: u8) :: u32) n = bit ip n"
    unfolding m using n
    by (cases "n < 8"; cases "n < 16"; cases "n < 24") (auto simp: bit_simps)
qed

text \<open>\<open>parse_ip\<close> does not check that an octet is below 256.\<close>

lemma octet_overflow: "dns_resolve (lit ''10.0.0.999'') st = Some (Some 0x0A0003E7, st)"
  by (simp add: dns_resolve_def is_ip_address_def parse_ip_def int32_def)

text \<open>
  C36: the text that \<open>ping\<close> prints for an address is accepted by \<open>dns_resolve\<close> as an
  address and gives the same address back, without a query.
\<close>

theorem ip_text_round_trip: "dns_resolve (ip_text ip) st = Some (Some ip, st)"
proof -
  have "parse_ip (ip_text ip) = Some ip"
    using ip_octets[of ip] by (simp add: parse_ip_def ip_text_def parse_octet parse_octet[where rest = "[]", simplified])
  then show ?thesis by (simp add: dns_resolve_def is_ip_text)
qed

end
