(* ===== verification/NetReply.thy ===== *)
theory NetReply
  imports NetSafe
begin

text \<open>
  What becomes of a DNS query: the frame that \<open>dns_resolve\<close> sends, the reply of a server to the port the query came
  from, and the wait of \<open>dns_resolve\<close> while the card delivers that reply.
\<close>

section \<open>The query on the wire\<close>

lemma udp_send_frame:
  assumes "net_ok st" "unat n \<le> 1472" "unat n \<le> length data" "arp_resolve (ip_target st dest) st = Some mac"
  obtains f st' where "udp_send dest sport dport data n st = Some st'"
    "transmits f (st\<lparr>ip_id_counter := ip_id_counter st + 1\<rparr>) st'" "src_port (dec_udp (drop 34 f)) = htons sport"
    "f = eth_frame mac (local_mac st) 0x0800 (ip_packet st dest 17
       (enc_udp \<lparr>src_port = htons sport, dest_port = htons dport, udp_length = htons (8 + n), udp_sum = 0\<rparr> @ take (unat n) data) (8 + n))"
proof -
  let ?h = "\<lparr>src_port = htons sport, dest_port = htons dport, udp_length = htons (8 + n), udp_sum = 0\<rparr>"
  let ?d = "enc_udp ?h @ take (unat n) data"
  let ?f = "eth_frame mac (local_mac st) 0x0800 (ip_packet st dest 17 ?d (8 + n))"
  have n8: "unat (8 + n) = 8 + unat n" using assms(2) by (simp add: unat_word_ariths)
  have d: "unat (8 + n) \<le> 1480" "unat (8 + n) \<le> length ?d" using assms(2,3) by (simp_all add: n8)
  obtain st' where s: "ip_send dest 17 ?d (8 + n) st = Some st'" "transmits ?f (st\<lparr>ip_id_counter := ip_id_counter st + 1\<rparr>) st'"
    by (rule ip_send_transmits[OF assms(1) d assms(4), where proto = 17]) (rule that)
  have "\<not> 1500 < 8 + n" "\<not> 1492 < n" using assms(2) n8 by (simp_all add: word_less_nat_alt)
  then have u: "udp_send dest sport dport data n st = Some st'" using s(1) assms(3) by (simp add: udp_send_def Let_def)
  have "\<exists>r. drop 34 ?f = enc_udp ?h @ r"
    using net_okD(3,5)[OF assms(1)] assms(4) by (simp add: eth_frame_def enc_eth_def Let_def ip_packet_def n8)
  then have "src_port (dec_udp (drop 34 ?f)) = htons sport" by (auto simp: dec_enc_udp)
  with u s(2) show ?thesis by (intro that[of st' ?f]) simp_all
qed

section \<open>The wait\<close>

lemma wait_until_silent: "polls st = [] \<Longrightarrow> wait_until finished k st = Some st"
  by (induction k) (simp_all add: receive_one_silent)

text \<open>One frame comes and changes nothing; then the network is silent.\<close>

lemma wait_until_dropped:
  assumes "initialized st" "length (stack_rx st) = 1518" "rx_offset st = 0" "polls st = [\<lparr>cp_cmd = 0, cp_ring = rx\<rparr>]"
    and "rx = stored status f fcs @ rest" "length rx = 9708" "status AND 1 \<noteq> 0" "60 \<le> length f" "length f \<le> 1514"
    and "\<not> finished st" "\<And>es o1. \<not> finished (log es (st\<lparr>polls := [], rx_buffer := rx, rx_offset := o1\<rparr>))"
    and "\<And>junk es o1. let st1 = log es (st\<lparr>polls := [], rx_buffer := rx, rx_offset := o1\<rparr>)
       in eth_receive_frame (f @ junk) (of_nat (length f)) st1 = Some st1"
  obtains es o1 where "wait_until finished (Suc k) st = Some (log es (st\<lparr>polls := [], rx_buffer := rx, rx_offset := o1\<rparr>))"
proof -
  let ?n = "of_nat (length f + 4) :: u16"
  have n: "unat ?n = length f + 4" by (rule unat_nat16) (use assms(9) in simp)
  have n_le: "64 \<le> ?n" "?n \<le> 1518" using n assms(8,9) by (simp_all add: word_le_nat_alt)
  have rx: "rx = le16 status @ le16 ?n @ f @ fcs @ rest" using assms(5) by (simp add: stored_def)
  have h: "get16 rx 0 = status" "get16 rx 2 = ?n" "take (length f) (drop 4 rx) = f"
    using get16_at[of "[]" 0 status] get16_at[of "le16 status" 2 ?n] by (simp_all only: rx) (simp_all add: le16_def)
  have un: "unat (of_nat (length f) :: u16) = length f" by (rule unat_nat16) (use assms(9) in simp)
  then have u: "uint (of_nat (length f) :: u16) = int (length f)" by (metis uint_nat)
  let ?st1 = "\<lambda>es. log es (st\<lparr>polls := [], rx_buffer := rx, rx_offset := after_first ?n\<rparr>)"
  obtain es where r: "network_receive_packet (stack_rx st) 1518 st =
      Some (int (length f), f @ drop (length f) (stack_rx st), ?st1 es)"
    by (rule receive_first[OF assms(1,2,4) _ assms(3)])
      (use assms(6,7) h n_le unat_after_first(1)[OF n_le, unfolded n] un u in \<open>simp_all add: Let_def\<close>)
  have "0 < length f" using assms(8) by linarith
  moreover have "eth_receive_with ip_send (f @ drop (length f) (stack_rx st)) (of_nat (length f)) (?st1 es) = Some (?st1 es)"
    using assms(12)[of es "after_first ?n" "drop (length f) (stack_rx st)"] by (simp add: eth_receive_frame_def Let_def)
  ultimately have "receive_one ip_send st = Some (?st1 es)" unfolding receive_one_def r by simp
  then have "wait_until finished (Suc k) st = Some (?st1 es)"
    using assms(10) wait_until_silent[of "?st1 es"] by (simp add: log_def)
  then show ?thesis by (rule that)
qed

text \<open>A server's answer to the port 12345 finds no handler.\<close>

lemma answer_ignored:
  assumes "length (udp_handlers boot) = 8" "net_ok server" "unat n \<le> 1472" "unat n \<le> length reply"
    and "arp_resolve (ip_target server ip) server = Some mac"
  obtains server' r where "udp_send ip 53 12345 reply n server = Some server'" "sent server' = sent server @ [(tx_port server, r)]"
    "60 \<le> length r" "length r \<le> 1514"
    "\<And>st junk. ip_address st = ip \<Longrightarrow> udp_handlers st = udp_handlers (ntp_init (dns_init (udp_init boot))) \<Longrightarrow>
       eth_receive_frame (r @ junk) (of_nat (length r)) st = Some st"
proof -
  obtain a' r where u: "udp_send ip 53 12345 reply n server = Some a'"
    "transmits r (server\<lparr>ip_id_counter := ip_id_counter server + 1\<rparr>) a'" "length r = max 60 (42 + unat n)"
    "\<And>b junk. ip_address b = ip \<Longrightarrow> eth_receive_frame (r @ junk) (of_nat (length r)) b =
      (case find (\<lambda>u. uh_port u = 12345 \<and> uh_callback u \<noteq> None) (udp_handlers b) of
         None \<Rightarrow> Some b
       | Some u \<Rightarrow> udp_call (the (uh_callback u)) (take (unat n) reply @ replicate (18 - unat n) 0 @ junk) n b)"
    by (rule udp_send_arrives[OF assms(2-5)]) (rule that)
  have "find (\<lambda>u. uh_port u = 12345 \<and> uh_callback u \<noteq> None) (udp_handlers (ntp_init (dns_init (udp_init boot)))) = None"
    unfolding boot_handlers[OF assms(1)] by (auto simp: find_None_iff)
  with u(4) have "eth_receive_frame (r @ junk) (of_nat (length r)) st = Some st"
    if "ip_address st = ip" "udp_handlers st = udp_handlers (ntp_init (dns_init (udp_init boot)))" for st junk
    using that by simp
  with u(1,3) transmitsD(1)[OF u(2)] assms(3) show ?thesis by (intro that[of a' r]) simp_all
qed

text \<open>\<open>dns_resolve\<close> for a name, with the wait still to be done.\<close>

lemma dns_resolve_sends:
  assumes "net_ok st" "\<not> is_ip_address name" "length name \<le> 494"
    and "arp_resolve (ip_target st (dns_server st)) st = Some mac"
  obtains q where "src_port (dec_udp (drop 34 q)) = htons 12345"
    "\<And>ps. \<exists>st2. udp_handlers st2 = udp_handlers st \<and> ip_address st2 = ip_address st \<and> stack_rx st2 = stack_rx st \<and>
       rx_offset st2 = rx_offset st \<and> initialized st2 \<and> polls st2 = ps \<and> \<not> resolution_complete st2 \<and>
       sent st2 = sent st @ [(tx_port st, q)] \<and>
       dns_resolve name (st\<lparr>polls := ps\<rparr>) = do {
         st3 \<leftarrow> wait_until resolution_complete 5000 st2;
         Some (if resolution_complete st3 \<and> resolved_ip st3 \<noteq> 0 then Some (resolved_ip st3) else None, st3) }"
proof -
  obtain d where d: "dns_query (dns_transaction_id st) name = Some d" "length d \<le> 512"
    using assms(3) by (simp add: dns_query_def Let_def length_dns_labels le16_def)
  let ?n = "of_nat (length d) :: u16"
  let ?st = "\<lambda>ps. st\<lparr>polls := ps, dns_transaction_id := dns_transaction_id st + 1, resolved_ip := 0, resolution_complete := False\<rparr>"
  let ?q = "eth_frame mac (local_mac st) 0x0800 (ip_packet st (dns_server st) 17
       (enc_udp \<lparr>src_port = htons 12345, dest_port = htons 53, udp_length = htons (8 + ?n), udp_sum = 0\<rparr> @ take (unat ?n) d) (8 + ?n))"
  have n: "unat ?n = length d" using d(2) by (simp add: unat_nat16)
  have "arp_resolve ip (?st ps) = arp_resolve ip st" "ip_target (?st ps) ip = ip_target st ip" for ps ip
    by (simp_all add: arp_resolve_def ip_target_def)
  with assms(1,4) have ok: "net_ok (?st ps)" "arp_resolve (ip_target (?st ps) (dns_server st)) (?st ps) = Some mac" for ps
    by (simp_all add: net_ok_def arp_ok_def)
  have pk: "ip_packet (?st ps) = ip_packet st" for ps by (simp add: fun_eq_iff ip_packet_def new_ip_header_def)
  have sends: "\<exists>st2. udp_send (dns_server st) 12345 53 d ?n (?st ps) = Some st2 \<and>
      transmits ?q (?st ps\<lparr>ip_id_counter := ip_id_counter st + 1\<rparr>) st2 \<and> src_port (dec_udp (drop 34 ?q)) = htons 12345" for ps
    by (rule udp_send_frame[OF ok(1)[of ps] _ _ ok(2)[of ps], where n = ?n and data = d and sport = 12345 and dport = 53])
      (use d(2) n in \<open>auto simp: pk\<close>)
  show ?thesis
  proof (rule that[of ?q])
    show "src_port (dec_udp (drop 34 ?q)) = htons 12345" using sends by blast
    fix ps
    obtain st2 where s: "udp_send (dns_server st) 12345 53 d ?n (?st ps) = Some st2"
      "transmits ?q (?st ps\<lparr>ip_id_counter := ip_id_counter st + 1\<rparr>) st2" using sends by blast
    have f: "stack_rx st2 = stack_rx st" "rx_offset st2 = rx_offset st" "initialized st2 = initialized st"
      using s(2) by (auto simp: transmits_def)
    have "dns_resolve name (st\<lparr>polls := ps\<rparr>) = do {
         st3 \<leftarrow> wait_until resolution_complete 5000 st2;
         Some (if resolution_complete st3 \<and> resolved_ip st3 \<noteq> 0 then Some (resolved_ip st3) else None, st3) }"
      using assms(2) d(1) s(1) by (simp add: dns_resolve_def Let_def)
    with f transmitsD[OF s(2)] net_okD(1)[OF assms(1)]
    show "\<exists>st2. udp_handlers st2 = udp_handlers st \<and> ip_address st2 = ip_address st \<and> stack_rx st2 = stack_rx st \<and>
       rx_offset st2 = rx_offset st \<and> initialized st2 \<and> polls st2 = ps \<and> \<not> resolution_complete st2 \<and>
       sent st2 = sent st @ [(tx_port st, ?q)] \<and>
       dns_resolve name (st\<lparr>polls := ps\<rparr>) = do {
         st3 \<leftarrow> wait_until resolution_complete 5000 st2;
         Some (if resolution_complete st3 \<and> resolved_ip st3 \<noteq> 0 then Some (resolved_ip st3) else None, st3) }"
      by (intro exI[of _ st2]) simp
  qed
qed

section \<open>The property\<close>

text \<open>
  C38: \<open>dns_resolve\<close> sends its query from a port for which no handler is registered. A server that
  replies to the port the query came from, with whatever data, is not heard: with its reply as the
  only frame that the card delivers, \<open>dns_resolve\<close> waits until its timeout and reports a failure, as it
  does when no reply comes.
\<close>

theorem dns_reply_dropped:
  assumes "length (udp_handlers boot) = 8" "udp_handlers st = udp_handlers (ntp_init (dns_init (udp_init boot)))"
    and "net_ok st" "length (stack_rx st) = 1518" "rx_offset st = 0" "\<not> is_ip_address name" "length name \<le> 494"
    and "arp_resolve (ip_target st (dns_server st)) st = Some mac"
    and "net_ok server" "unat n \<le> 1472" "unat n \<le> length reply" "arp_resolve (ip_target server (ip_address st)) server = Some mac2"
  shows "\<exists>st1 q. dns_resolve name (st\<lparr>polls := []\<rparr>) = Some (None, st1) \<and> sent st1 = sent st @ [(tx_port st, q)] \<and>
    (\<exists>server' r. udp_send (ip_address st) 53 (ntohs (src_port (dec_udp (drop 34 q)))) reply n server = Some server' \<and>
       sent server' = sent server @ [(tx_port server, r)] \<and> length r \<le> 1514 \<and>
       (\<forall>status fcs rest. length (stored status r fcs @ rest) = 9708 \<and> status AND 1 \<noteq> 0 \<longrightarrow>
          (\<exists>st2. dns_resolve name (st\<lparr>polls := [\<lparr>cp_cmd = 0, cp_ring = stored status r fcs @ rest\<rparr>]\<rparr>) = Some (None, st2))))"
proof -
  obtain q where q: "src_port (dec_udp (drop 34 q)) = htons 12345" and sends: "\<And>ps. \<exists>st2. udp_handlers st2 = udp_handlers st \<and>
       ip_address st2 = ip_address st \<and> stack_rx st2 = stack_rx st \<and>
       rx_offset st2 = rx_offset st \<and> initialized st2 \<and> polls st2 = ps \<and> \<not> resolution_complete st2 \<and>
       sent st2 = sent st @ [(tx_port st, q)] \<and>
       dns_resolve name (st\<lparr>polls := ps\<rparr>) = do {
         st3 \<leftarrow> wait_until resolution_complete 5000 st2;
         Some (if resolution_complete st3 \<and> resolved_ip st3 \<noteq> 0 then Some (resolved_ip st3) else None, st3) }"
    by (rule dns_resolve_sends[OF assms(3,6-8)]) (rule that)
  obtain server' r where r: "udp_send (ip_address st) 53 12345 reply n server = Some server'"
    "sent server' = sent server @ [(tx_port server, r)]" "60 \<le> length r" "length r \<le> 1514"
    "\<And>st1 junk. ip_address st1 = ip_address st \<Longrightarrow> udp_handlers st1 = udp_handlers (ntp_init (dns_init (udp_init boot))) \<Longrightarrow>
       eth_receive_frame (r @ junk) (of_nat (length r)) st1 = Some st1"
    by (rule answer_ignored[OF assms(1,9-12)]) (rule that)
  have dropped: "\<exists>st2. dns_resolve name (st\<lparr>polls := [\<lparr>cp_cmd = 0, cp_ring = rx\<rparr>]\<rparr>) = Some (None, st2)"
    if rx: "rx = stored status r fcs @ rest" "length rx = 9708" "status AND 1 \<noteq> 0" for rx status fcs rest
  proof -
    obtain st2 where s: "udp_handlers st2 = udp_handlers st" "ip_address st2 = ip_address st" "stack_rx st2 = stack_rx st"
       "rx_offset st2 = rx_offset st" "initialized st2" "polls st2 = [\<lparr>cp_cmd = 0, cp_ring = rx\<rparr>]" "\<not> resolution_complete st2"
       "dns_resolve name (st\<lparr>polls := [\<lparr>cp_cmd = 0, cp_ring = rx\<rparr>]\<rparr>) = do {
         st3 \<leftarrow> wait_until resolution_complete 5000 st2;
         Some (if resolution_complete st3 \<and> resolved_ip st3 \<noteq> 0 then Some (resolved_ip st3) else None, st3) }"
      using sends by blast
    have "length (stack_rx st2) = 1518" "rx_offset st2 = 0" using s(3,4) assms(4,5) by simp_all
    then obtain es o1 where "wait_until resolution_complete (Suc 4999) st2 =
        Some (log es (st2\<lparr>polls := [], rx_buffer := rx, rx_offset := o1\<rparr>))"
      by (rule wait_until_dropped[OF s(5) _ _ s(6) rx r(3,4), where k = 4999 and finished = resolution_complete])
        (use s(1,2,7) assms(2) r(5) in \<open>simp_all add: log_def Let_def\<close>)
    then show ?thesis using s(7,8) by (simp add: log_def)
  qed
  obtain st1 where "polls st1 = []" "\<not> resolution_complete st1" "sent st1 = sent st @ [(tx_port st, q)]"
    "dns_resolve name (st\<lparr>polls := []\<rparr>) = do {
         st3 \<leftarrow> wait_until resolution_complete 5000 st1;
         Some (if resolution_complete st3 \<and> resolved_ip st3 \<noteq> 0 then Some (resolved_ip st3) else None, st3) }"
    using sends by blast
  then have "dns_resolve name (st\<lparr>polls := []\<rparr>) = Some (None, st1)" "sent st1 = sent st @ [(tx_port st, q)]"
    by (simp_all add: wait_until_silent)
  moreover have "ntohs (src_port (dec_udp (drop 34 q))) = 12345" unfolding q by (simp add: ntohs_def)
  ultimately show ?thesis using r(1,2,4) dropped[OF refl] by auto
qed

text \<open>The server is the peer of the two example machines; its reply is three bytes.\<close>

theorem dns_reply_dropped_witness:
  "\<exists>st1 q server' r st2. dns_resolve (lit ''a.b'') (host_a\<lparr>dns_server := 0x0A000202\<rparr>) = Some (None, st1) \<and> sent st1 = [(0, q)] \<and>
     udp_send 0x0A00020F 53 (ntohs (src_port (dec_udp (drop 34 q)))) [1, 2, 3] 3 host_b = Some server' \<and>
     sent server' = sent host_b @ [(tx_port host_b, r)] \<and>
     dns_resolve (lit ''a.b'') (host_a\<lparr>dns_server := 0x0A000202,
       polls := [\<lparr>cp_cmd = 0, cp_ring = stored 1 r [0, 0, 0, 0] @ replicate (9700 - length r) 0\<rparr>]\<rparr>) = Some (None, st2)"
proof -
  let ?a = "host_a\<lparr>dns_server := 0x0A000202\<rparr>"
  have l: "length (udp_handlers host_a) = 8" by (simp add: host_a_def host_def)
  have h: "udp_handlers ?a = udp_handlers (ntp_init (dns_init (udp_init host_a)))"
    unfolding boot_handlers[OF l] by (simp add: host_a_def host_def)
  have a: "net_ok ?a" "length (stack_rx ?a) = 1518" "rx_offset ?a = 0" "polls ?a = []" "sent ?a = []" "tx_port ?a = 0"
    "ip_address ?a = 0x0A00020F" "arp_resolve (ip_target ?a (dns_server ?a)) ?a = Some [2, 0, 0, 0, 0, 2]"
    using hosts_ok(1,3) by (simp_all add: net_ok_def arp_ok_def host_a_def host_def ip_target_def arp_resolve_def)
  have s: "\<not> is_ip_address (lit ''a.b'')" "length (lit ''a.b'') \<le> 494" by (simp_all add: is_ip_address_def)
  have n: "unat (3 :: u16) \<le> 1472" "unat (3 :: u16) \<le> length [1 :: u8, 2, 3]" by simp_all
  have m: "arp_resolve (ip_target host_b (ip_address ?a)) host_b = Some [2, 0, 0, 0, 0, 1]" unfolding a(7) by (rule hosts_ok(4))
  obtain st1 q server' r where r: "dns_resolve (lit ''a.b'') (?a\<lparr>polls := []\<rparr>) = Some (None, st1)" "sent st1 = [(0, q)]"
    "udp_send 0x0A00020F 53 (ntohs (src_port (dec_udp (drop 34 q)))) [1, 2, 3] 3 host_b = Some server'"
    "sent server' = sent host_b @ [(tx_port host_b, r)]" "length r \<le> 1514"
    "\<And>status fcs rest. length (stored status r fcs @ rest) = 9708 \<Longrightarrow> status AND 1 \<noteq> 0 \<Longrightarrow>
      \<exists>st2. dns_resolve (lit ''a.b'') (?a\<lparr>polls := [\<lparr>cp_cmd = 0, cp_ring = stored status r fcs @ rest\<rparr>]\<rparr>) = Some (None, st2)"
    using dns_reply_dropped[OF l h a(1-3) s a(8) hosts_ok(2) n m] unfolding a(5-7) append_Nil by blast
  have "length (stored 1 r [0, 0, 0, 0] @ replicate (9700 - length r) 0) = 9708" using r(5) by (simp add: stored_def le16_def)
  from r(6)[OF this] obtain st2 where "dns_resolve (lit ''a.b'')
      (?a\<lparr>polls := [\<lparr>cp_cmd = 0, cp_ring = stored 1 r [0, 0, 0, 0] @ replicate (9700 - length r) 0\<rparr>]\<rparr>) = Some (None, st2)" by auto
  moreover have "?a\<lparr>polls := []\<rparr> = ?a" using a(4) by simp
  ultimately show ?thesis using r(1-4) by auto
qed

end
