(* ===== verification/Spec2Isabelle.thy ===== *)
theory Spec2Isabelle
  imports FsCalls BlockDev BootProps IpText NetReply
begin

text \<open>
  Verification of EphemeralOS, an operating system for i386 PCs in C: drivers, an inode file system,
  a network stack, a shell with sixteen commands, an installer and a login.

  The program. \<open>kernel_main\<close> (\<open>kernel/kernel.c\<close>) starts the devices and the network stack and asks
  the file system whether the disk holds an installation. If not, the installer asks for a host name, a user name
  and a password and calls \<open>fs_install\<close>; then a menu asks whether to go on, and the kernel executes the software
  interrupt that is to restart the machine or to switch it off. If so, the
  kernel loads the file system, asks for the login, and runs the shell, which parses command lines and
  calls the commands in \<open>bin/\<close>. The commands call the file system (\<open>fs/filesystem.c\<close>, on top of
  \<open>drivers/disk.c\<close>), the network (\<open>net/\<close>, on top of \<open>drivers/network.c\<close> and \<open>drivers/pci.c\<close>), the
  clock (\<open>drivers/rtc.c\<close>), the screen and the keyboard.

  Conventions. A machine integer is a word of its width. A buffer is a list of bytes, a C string the
  list before its NUL. The state of a component is a record with the static variables of its file, and
  a function takes and returns it. An access outside an object, an overflow of a buffer and signed
  overflow are \<open>None\<close> (\<open>Undefined\<close> for the interactive programs), so a theorem that a call is \<open>Some\<close>
  says that it stays in its memory. Delay loops have no effect.

  One exception. The sector transfers of \<open>fs/filesystem.c\<close> move whole sectors from and to variables that are not
  multiples of 512 bytes long, at every call that changes something. C leaves this undefined; with \<open>None\<close> there would be
  nothing left to say about the file system. The model instead has the memory layout of the four static
  variables of the file, in the order of their declarations and without gaps, which is the one of
  the build in \<open>Makefile\<close>: \<open>superblock_memory\<close>, \<open>table_memory\<close> and \<open>bitmap_memory\<close> are the memory from each
  variable on, a transfer to the disk takes its bytes from there, and a transfer from the disk overwrites the
  variables that follow. All claims about the file system hold for this layout.

  The theories, from the bottom up:

  \<^item> \<open>Prelude\<close>, \<open>CString\<close>: shared lemmas; \<open>kernel/string.c\<close>, each function with its loop.
  \<^item> \<open>FsLayout\<close>, \<open>FsState\<close>: \<open>fs/filesystem.h\<close>: the structs and their byte images, the static variables, and
    the transfers between them and the disk. The sector size cuts a directory block (\<open>read_write_dir\<close>).
  \<^item> \<open>FsAlloc\<close>, \<open>FsInv\<close>: the block and inode allocators, both instances of the locale \<open>allocator\<close>; the invariant
    \<open>fs_inv\<close>: exact free counters, no block with two owners, none both owned and free.
  \<^item> \<open>FsPath\<close>: \<open>normalize_path\<close>, \<open>split_path\<close> and \<open>find_inode_by_path\<close>, as functions of the components
    of a path.
  \<^item> \<open>FsOps\<close>: all calls of \<open>fs/filesystem.h\<close>; a call that fills a buffer of its caller takes and returns it. \<open>FsTree\<close>, \<open>FsCreate\<close>, \<open>FsDir\<close>, \<open>FsDelete\<close>, \<open>FsFile\<close>, \<open>FsView\<close>,
    \<open>FsInstall\<close>, \<open>FsList\<close>: what each does on each branch, that it keeps the invariant \<open>fs_ok\<close> (\<open>fs_inv\<close> and a
    well-formed tree), and the abstract file system \<open>node_of\<close>, a graph of directories and files.
  \<^item> \<open>FsProps\<close>, \<open>FsRefine\<close>, \<open>FsBoot\<close>, \<open>FsLimits\<close>, \<open>FsCalls\<close>: the properties: reachable states, memory
    safety, the calls as updates of the graph, installation, restart, and the limits of the format.
  \<^item> \<open>Disk\<close>: \<open>drivers/disk.c\<close> over a controller that is a parameter; \<open>ata_contract\<close> states the documented
    behaviour of an ATA controller, an example satisfies it, and the driver implements the disk
    that \<open>FsState\<close> uses. \<open>BlockDev\<close>: the transfers of the file system with their calls of the driver; the locale
    \<open>block_device\<close> is what they rely on, which the medium of \<open>FsState\<close> and the driver fulfil.
  \<^item> \<open>Screen\<close>, \<open>Keyboard\<close>, \<open>Rtc\<close>, \<open>Pci\<close>: the other drivers. The video memory is a function from cell
    numbers, the keyboard the list of scancodes that will arrive, the clock a function from the number of the
    access to the registers, the configuration space a function.
  \<^item> \<open>NetWire\<close>: headers and their byte images, byte order, checksum. \<open>NetDev\<close>, \<open>NetArp\<close>, \<open>NetStack\<close>, \<open>NetRec\<close>:
    the network card with its ring, ARP, and ethernet, IP, ICMP and UDP; sending may receive (while it
    waits for an ARP reply) and receiving may send (the echo reply), and the recursion is bounded by the
    frames the card has. \<open>NetApps\<close>: DNS, NTP and ping as clients. \<open>NetDeliver\<close>, \<open>NetProps\<close>, \<open>NetArpProps\<close>, \<open>NetDns\<close>,
    \<open>NetLimits\<close>: delivery from one machine to another, ARP, DNS, and what goes wrong. \<open>NetSafe\<close>: the invariant
    \<open>net_safe\<close> and that all operations stay in their buffers, however sending and receiving are nested; the
    locale \<open>safe_sender\<close> is what the receiving functions ask of the sender they call back. The assumption on the card is
    \<open>card_ok\<close>: the ring starts with a frame as the RTL8139 stores it (\<open>stored_first_frame\<close>), with conditions on
    its header and on one byte of its check sequence, which the driver reads as a header; \<open>check_sequence_read\<close> shows what
    happens without. \<open>NetReply\<close>: \<open>dns_resolve\<close> with its query, a server's reply and the wait.
  \<^item> \<open>Machine\<close>: the state of the whole machine, the outcome of an interactive call (it returns, waits for
    ever, executes a software interrupt, or is undefined), printing and reading a line,
    \<open>network_init\<close>. \<open>Commands\<close>: \<open>bin/\<close>. \<open>Shell\<close>: \<open>shell/shell.c\<close>. \<open>Boot\<close>: \<open>installer/installer.c\<close> and
    \<open>kernel/kernel.c\<close>.
  \<^item> \<open>ShellParse\<close>, \<open>Session\<close>, \<open>Login\<close>, \<open>BootProps\<close>, \<open>IpText\<close>: the programs end to end: command lines, an
    invariant of the machine that all commands keep (\<open>machine_ok\<close>), \<open>echo\<close> and \<open>cat\<close>, the login as a function
    of the typed lines, the installation followed by a login, the menu, the state in which the boot leaves the
    network stack, and addresses as text. The locales \<open>drawing_invariant\<close>, \<open>line_prompt\<close> and \<open>prompting\<close> are the
    contract between the programs and the functions that print and read lines; they are interpreted
    for the shell, the login and the installer.

  Bounds and fuel. The recursions of the file system and of the shell are on the data: a path that gets
  shorter, the scancodes that are left. Waiting loops count down the source's own bounds, as a number
  of rounds. \<open>wait_update\<close> of the clock is a \<open>partial_function\<close> and may not end. \<open>ip_send\<close> gets as
  fuel the number of polls that the card will answer, and \<open>ip_send_terminates\<close> shows that this is enough: it
  satisfies the equation of the source.

  Not modelled: the boot loader and the entry code (assembly), the linker script and the build files;
  the port instructions themselves, whose devices are parameters; the time that delay loops take; the
  size of the stack; hardware interrupts, which the system does not use. The model records the port writes
  at the end of \<open>shutdown\<close>, \<open>reboot\<close> and the menu and ends at the software interrupts 0x15 and 0x19 that follow them:
  what the processor makes of these in protected mode without an interrupt descriptor table is outside, and so is
  what the code would do if they came back (halt, and after the restart of the menu go on to the login).
\<close>

end
